(* ===== verification/Prelude.thy ===== *)
theory Prelude imports Main "HOL-Library.AList" begin

text \<open>
  The vocabulary the component theories share: programs that thread a state and may raise
  (\<open>prog\<close>), their combinators and Hoare-style triples, and dictionaries in insertion order.

  A method of the package that awaits, logs or raises is a value of
  \<open>('s, 'e, 'a) prog\<close>: a function from the state to a result (an exception on the left, a
  value on the right) and the new state. An exception keeps the state reached when it was
  raised, as Python does.
\<close>

named_theorems prog_simps \<open>equations that run a program on a state\<close>
named_theorems triple_intros \<open>introduction rules for triples\<close>

section \<open>Programs with state and exceptions\<close>

type_synonym ('s, 'e, 'a) prog = "'s \<Rightarrow> ('e + 'a) \<times> 's"

definition ret :: "'a \<Rightarrow> ('s, 'e, 'a) prog" where
  "ret a = (\<lambda>s. (Inr a, s))"

definition raise :: "'e \<Rightarrow> ('s, 'e, 'a) prog" where
  "raise e = (\<lambda>s. (Inl e, s))"

definition bindM :: "('s, 'e, 'a) prog \<Rightarrow> ('a \<Rightarrow> ('s, 'e, 'b) prog) \<Rightarrow> ('s, 'e, 'b) prog" where
  "bindM m f = (\<lambda>s. case m s of
     (Inl e, s') \<Rightarrow> (Inl e, s')
   | (Inr a, s') \<Rightarrow> f a s')"

definition thenM :: "('s, 'e, 'a) prog \<Rightarrow> ('s, 'e, 'b) prog \<Rightarrow> ('s, 'e, 'b) prog" where
  "thenM m n = bindM m (\<lambda>_. n)"

text \<open>\<open>catchM p m h\<close> is \<open>try: m / except p: h\<close>: only exceptions in \<open>p\<close> are handled.\<close>

definition catchM :: "('e \<Rightarrow> bool) \<Rightarrow> ('s, 'e, 'a) prog \<Rightarrow> ('e \<Rightarrow> ('s, 'e, 'a) prog) \<Rightarrow> ('s, 'e, 'a) prog" where
  "catchM p m h = (\<lambda>s. case m s of
     (Inl e, s') \<Rightarrow> (if p e then h e s' else (Inl e, s'))
   | (Inr a, s') \<Rightarrow> (Inr a, s'))"

text \<open>
  \<open>finallyM m f\<close> is \<open>try: m / finally: f\<close>: \<open>f\<close> always runs, and an exception of \<open>f\<close>
  replaces the result of \<open>m\<close>.
\<close>

definition finallyM :: "('s, 'e, 'a) prog \<Rightarrow> ('s, 'e, unit) prog \<Rightarrow> ('s, 'e, 'a) prog" where
  "finallyM m f = (\<lambda>s. case m s of (r, s') \<Rightarrow>
     (case f s' of (Inl e, s'') \<Rightarrow> (Inl e, s'') | (Inr _, s'') \<Rightarrow> (r, s'')))"

definition getM :: "('s \<Rightarrow> 'a) \<Rightarrow> ('s, 'e, 'a) prog" where
  "getM f = (\<lambda>s. (Inr (f s), s))"

definition modifyM :: "('s \<Rightarrow> 's) \<Rightarrow> ('s, 'e, unit) prog" where
  "modifyM f = (\<lambda>s. (Inr (), f s))"

definition liftE :: "'e + 'a \<Rightarrow> ('s, 'e, 'a) prog" where
  "liftE r = (\<lambda>s. (r, s))"

lemmas prog_defs = ret_def raise_def bindM_def thenM_def catchM_def finallyM_def getM_def
  modifyM_def liftE_def

lemma prog_run [prog_simps]:
  "ret a s = (Inr a, s)"
  "raise e s = (Inl e, s)"
  "getM f s = (Inr (f s), s)"
  "modifyM g s = (Inr (), g s)"
  "liftE r s = (r, s)"
  by (simp_all add: prog_defs)

lemma bindM_run [prog_simps]:
  "m s = (Inl e, s') \<Longrightarrow> bindM m f s = (Inl e, s')"
  "m s = (Inr a, s') \<Longrightarrow> bindM m f s = f a s'"
  by (simp_all add: bindM_def)

lemma thenM_run [prog_simps]:
  "m s = (Inl e, s') \<Longrightarrow> thenM m n s = (Inl e, s')"
  "m s = (Inr a, s') \<Longrightarrow> thenM m n s = n s'"
  by (simp_all add: thenM_def bindM_def)

section \<open>Triples\<close>

text \<open>
  \<open>triple P m Q\<close>: started in a state of \<open>P\<close>, the program ends with a result and a state
  related by \<open>Q\<close>, whether it returns or raises.
\<close>

definition triple ::
  "('s \<Rightarrow> bool) \<Rightarrow> ('s, 'e, 'a) prog \<Rightarrow> ('e + 'a \<Rightarrow> 's \<Rightarrow> bool) \<Rightarrow> bool" where
  "triple P m Q \<longleftrightarrow> (\<forall>s. P s \<longrightarrow> (case m s of (r, s') \<Rightarrow> Q r s'))"

lemma tripleI: "(\<And>s r s'. P s \<Longrightarrow> m s = (r, s') \<Longrightarrow> Q r s') \<Longrightarrow> triple P m Q"
  by (auto simp: triple_def)

lemma tripleD: "triple P m Q \<Longrightarrow> P s \<Longrightarrow> m s = (r, s') \<Longrightarrow> Q r s'"
  by (auto simp: triple_def)

lemma triple_weaken:
  "triple P' m Q' \<Longrightarrow> (\<And>s. P s \<Longrightarrow> P' s) \<Longrightarrow> (\<And>r s. Q' r s \<Longrightarrow> Q r s) \<Longrightarrow> triple P m Q"
  by (fastforce simp: triple_def)

lemma triple_ret: "(\<And>s. P s \<Longrightarrow> Q (Inr a) s) \<Longrightarrow> triple P (ret a) Q"
  by (simp add: triple_def ret_def)

lemma triple_raise: "(\<And>s. P s \<Longrightarrow> Q (Inl e) s) \<Longrightarrow> triple P (raise e) Q"
  by (simp add: triple_def raise_def)

lemma triple_bind:
  assumes "triple P m (\<lambda>r s. case r of Inl e \<Rightarrow> Q (Inl e) s | Inr a \<Rightarrow> R a s)"
    and "\<And>a. triple (R a) (f a) Q"
  shows "triple P (bindM m f) Q"
  using assms unfolding triple_def bindM_def
  by (fastforce split: prod.splits sum.splits)

lemma triple_then:
  assumes "triple P m (\<lambda>r s. case r of Inl e \<Rightarrow> Q (Inl e) s | Inr a \<Rightarrow> R s)"
    and "triple R n Q"
  shows "triple P (thenM m n) Q"
  unfolding thenM_def by (rule triple_bind [OF assms(1)]) (rule assms(2))

lemma triple_catch:
  assumes "triple P m (\<lambda>r s. case r of Inl e \<Rightarrow> (if p e then R e s else Q (Inl e) s) | Inr a \<Rightarrow> Q (Inr a) s)"
    and "\<And>e. p e \<Longrightarrow> triple (R e) (h e) Q"
  shows "triple P (catchM p m h) Q"
  using assms unfolding triple_def catchM_def
  by (fastforce split: prod.splits sum.splits if_splits)

lemma triple_finally:
  assumes "triple P m R"
    and "\<And>r. triple (R r) f (\<lambda>r' s. case r' of Inl e \<Rightarrow> Q (Inl e) s | Inr _ \<Rightarrow> Q r s)"
  shows "triple P (finallyM m f) Q"
  using assms unfolding triple_def finallyM_def
  by (fastforce split: prod.splits sum.splits)

text \<open>
  \<open>maintains J m Q\<close>: the program keeps the invariant \<open>J\<close>, whether it returns or raises, and what it returns
  satisfies \<open>Q\<close>.
\<close>

definition maintains :: "('s \<Rightarrow> bool) \<Rightarrow> ('s, 'e, 'a) prog \<Rightarrow> ('a \<Rightarrow> bool) \<Rightarrow> bool" where
  "maintains J m Q \<longleftrightarrow> (\<forall>s r s'. J s \<and> m s = (r, s') \<longrightarrow> J s' \<and> (\<forall>v. r = Inr v \<longrightarrow> Q v))"

lemma maintainsI: "(\<And>s r s'. J s \<Longrightarrow> m s = (r, s') \<Longrightarrow> J s' \<and> (\<forall>v. r = Inr v \<longrightarrow> Q v)) \<Longrightarrow> maintains J m Q"
  unfolding maintains_def by blast

lemma maintainsD: "maintains J m Q \<Longrightarrow> J s \<Longrightarrow> m s = (r, s') \<Longrightarrow> J s' \<and> (\<forall>v. r = Inr v \<longrightarrow> Q v)"
  unfolding maintains_def by blast

lemma maintains_ret [triple_intros]: "Q a \<Longrightarrow> maintains J (ret a) Q"
  by (rule maintainsI) (auto simp: ret_def)

lemma maintains_raise [triple_intros]: "maintains J (raise e) Q"
  by (rule maintainsI) (auto simp: raise_def)

lemma maintains_lift [triple_intros]: "(\<And>v. r = Inr v \<Longrightarrow> Q v) \<Longrightarrow> maintains J (liftE r) Q"
  by (rule maintainsI) (auto simp: liftE_def)

lemma maintains_bind:
  assumes "maintains J m Q" and "\<And>v. Q v \<Longrightarrow> maintains J (f v) R"
  shows "maintains J (bindM m f) R"
proof (rule maintainsI)
  fix s r s'
  assume s: "J s" and run: "bindM m f s = (r, s')"
  obtain q s1 where m: "m s = (q, s1)" by (cases "m s")
  from maintainsD [OF assms(1) s m] have q: "J s1" "\<And>v. q = Inr v \<Longrightarrow> Q v" by blast+
  show "J s' \<and> (\<forall>v. r = Inr v \<longrightarrow> R v)"
  proof (cases q)
    case (Inl e)
    with m run q(1) show ?thesis by (auto simp: bindM_def)
  next
    case (Inr v)
    with m run have "f v s1 = (r, s')" by (simp add: bindM_def)
    from maintainsD [OF assms(2) [OF q(2) [OF Inr]] q(1) this] show ?thesis .
  qed
qed

lemma maintains_then: "maintains J m Q \<Longrightarrow> maintains J n R \<Longrightarrow> maintains J (thenM m n) R"
  unfolding thenM_def by (rule maintains_bind)

lemma maintains_if [triple_intros]:
  "(c \<Longrightarrow> maintains J m Q) \<Longrightarrow> (\<not> c \<Longrightarrow> maintains J n Q) \<Longrightarrow> maintains J (if c then m else n) Q"
  by simp

lemma maintains_catch:
  assumes "maintains J m Q" and "\<And>e. p e \<Longrightarrow> maintains J (h e) Q"
  shows "maintains J (catchM p m h) Q"
proof (rule maintainsI)
  fix s r s'
  assume s: "J s" and run: "catchM p m h s = (r, s')"
  obtain q s1 where m: "m s = (q, s1)" by (cases "m s")
  from maintainsD [OF assms(1) s m] have q: "J s1" "\<And>v. q = Inr v \<Longrightarrow> Q v" by blast+
  show "J s' \<and> (\<forall>v. r = Inr v \<longrightarrow> Q v)"
  proof (cases "\<exists>e. q = Inl e \<and> p e")
    case True
    then obtain e where e: "q = Inl e" "p e" by blast
    with m run have "h e s1 = (r, s')" by (simp add: catchM_def)
    from maintainsD [OF assms(2) [OF e(2)] q(1) this] show ?thesis .
  next
    case False
    with m run q show ?thesis by (cases q) (auto simp: catchM_def)
  qed
qed

lemma maintains_weaken: "maintains J m Q \<Longrightarrow> (\<And>v. Q v \<Longrightarrow> R v) \<Longrightarrow> maintains J m R"
  unfolding maintains_def by blast

section \<open>Dictionaries in insertion order\<close>

text \<open>
  A Python \<open>dict\<close> is an association list with distinct keys, in insertion order. Storing a
  key that is there keeps its place (\<open>AList.update\<close>); building a dictionary from pairs
  stores them one by one.
\<close>

type_synonym ('k, 'v) dict = "('k \<times> 'v) list"

definition dict_of :: "('k \<times> 'v) list \<Rightarrow> ('k, 'v) dict" where
  "dict_of kvs = fold (\<lambda>(k, v). AList.update k v) kvs []"

text \<open>\<open>{**d, **e}\<close>.\<close>

definition dict_merge :: "('k, 'v) dict \<Rightarrow> ('k, 'v) dict \<Rightarrow> ('k, 'v) dict" where
  "dict_merge d e = fold (\<lambda>(k, v). AList.update k v) e d"

definition dict_wf :: "('k, 'v) dict \<Rightarrow> bool" where
  "dict_wf d \<longleftrightarrow> distinct (map fst d)"

lemma map_of_fold_update:
  "map_of (fold (\<lambda>(k, v). AList.update k v) e d) = map_of d ++ map_of (rev e)"
  by (induction e arbitrary: d) (auto simp: update_conv' map_add_def split: option.splits)

lemma dict_wf_fold_update:
  "dict_wf d \<Longrightarrow> dict_wf (fold (\<lambda>(k, v). AList.update k v) e d)"
  unfolding dict_wf_def by (induction e arbitrary: d) (auto simp: distinct_update)

lemma map_of_dict_of: "map_of (dict_of kvs) = map_of (rev kvs)"
  by (simp add: dict_of_def map_of_fold_update)

lemma map_of_dict_merge: "map_of (dict_merge d e) = map_of d ++ map_of (rev e)"
  by (simp add: dict_merge_def map_of_fold_update)

lemma dict_wf_dict_of [simp]: "dict_wf (dict_of kvs)"
  by (simp add: dict_of_def dict_wf_fold_update dict_wf_def [of "[]"])

lemma dict_wf_dict_merge: "dict_wf d \<Longrightarrow> dict_wf (dict_merge d e)"
  by (simp add: dict_merge_def dict_wf_fold_update)

lemma map_of_rev_distinct: "dict_wf d \<Longrightarrow> map_of (rev d) = map_of d"
  unfolding dict_wf_def by (rule map_of_inject_set [THEN iffD2]) (simp_all add: rev_map [symmetric])

lemma update_append_new:
  "k \<notin> fst ` set d \<Longrightarrow> AList.update k v d = d @ [(k, v)]"
  by (induction d) auto

lemma fold_update_distinct:
  "distinct (map fst (d @ e)) \<Longrightarrow> fold (\<lambda>(k, v). AList.update k v) e d = d @ e"
proof (induction e arbitrary: d)
  case Nil
  then show ?case by simp
next
  case (Cons kv e)
  obtain k v where kv: "kv = (k, v)" by (cases kv)
  from Cons.prems kv have "AList.update k v d = d @ [(k, v)]"
    by (intro update_append_new) auto
  with Cons.IH [of "d @ [kv]"] Cons.prems kv show ?case by simp
qed

lemma dict_of_distinct: "dict_wf d \<Longrightarrow> dict_of d = d"
  using fold_update_distinct [of "[]" d] by (simp add: dict_of_def dict_wf_def)

end
