(* ===== verification/Text.thy ===== *)
theory Text imports Prelude "HOL-Library.Sublist" begin

text \<open>
  Python strings and bytes. A \<open>str\<close> is the list of its code points, so that its length,
  its comparisons and its escapes are those of Python also for Greek text; a literal is
  written \<open>u ''abc''\<close>. A \<open>bytes\<close> is the list of its bytes. The string methods the package
  uses are defined here: \<open>startswith\<close>, \<open>endswith\<close>, \<open>lstrip\<close>, \<open>rstrip\<close>, \<open>split\<close>, \<open>replace\<close>
  (of one character), \<open>in\<close>, decimal printing, \<open>int(...)\<close>, UTF-8 and \<open>urllib.parse.quote\<close>.
\<close>

type_synonym pystr = "nat list"
type_synonym pybytes = "nat list"

definition u :: "string \<Rightarrow> pystr" where
  "u s = map of_char s"

lemma u_eq_iff [simp]: "u a = u b \<longleftrightarrow> a = b"
  unfolding u_def by (rule inj_map_eq_map) (auto intro: injI)

lemma u_Nil [simp]: "u [] = []" and u_eq_Nil [simp]: "u a = [] \<longleftrightarrow> a = []"
  by (simp_all add: u_def)

lemma u_append: "u (a @ b) = u a @ u b"
  by (simp add: u_def)

lemma length_u [simp]: "length (u a) = length a"
  by (simp add: u_def)

text \<open>Unicode scalar values, and strings made of them (no lone surrogate).\<close>

definition is_surrogate :: "nat \<Rightarrow> bool" where
  "is_surrogate c \<longleftrightarrow> 0xD800 \<le> c \<and> c \<le> 0xDFFF"

definition is_scalar :: "nat \<Rightarrow> bool" where
  "is_scalar c \<longleftrightarrow> c < 0x110000 \<and> \<not> is_surrogate c"

definition scalar_text :: "pystr \<Rightarrow> bool" where
  "scalar_text s \<longleftrightarrow> list_all is_scalar s"

lemma of_char_less: "(of_char c :: nat) < 256"
  using range_nat_of_char by fastforce

lemma is_scalar_small: "c < 256 \<Longrightarrow> is_scalar c"
  by (simp add: is_scalar_def is_surrogate_def)

lemma scalar_u [simp]: "scalar_text (u s)"
  by (auto simp: scalar_text_def u_def list_all_iff intro: is_scalar_small of_char_less)

section \<open>Methods of str\<close>

definition startswith :: "pystr \<Rightarrow> pystr \<Rightarrow> bool" where
  "startswith s p \<longleftrightarrow> take (length p) s = p"

definition endswith :: "pystr \<Rightarrow> pystr \<Rightarrow> bool" where
  "endswith s p \<longleftrightarrow> startswith (rev s) (rev p)"

lemma startswith_iff: "startswith s p \<longleftrightarrow> (\<exists>t. s = p @ t)"
  unfolding startswith_def by (metis append_eq_conv_conj append_take_drop_id)

lemma endswith_iff: "endswith s p \<longleftrightarrow> (\<exists>t. s = t @ p)"
  unfolding endswith_def startswith_iff
  by (metis rev_append rev_rev_ident)

lemma startswith_Nil [simp]: "startswith s []"
  by (simp add: startswith_def)

lemma startswith_append [simp]: "startswith (p @ s) p"
  by (simp add: startswith_def)

lemma startswith_trans: "startswith a b \<Longrightarrow> startswith b c \<Longrightarrow> startswith a c"
  by (auto simp: startswith_iff)

text \<open>\<open>t in s\<close> for strings.\<close>

fun contains :: "nat list \<Rightarrow> nat list \<Rightarrow> bool" where
  "contains t [] \<longleftrightarrow> t = []"
| "contains t (c # s) \<longleftrightarrow> take (length t) (c # s) = t \<or> contains t s"

lemma contains_iff: "contains t s \<longleftrightarrow> (\<exists>a b. s = a @ t @ b)"
proof (induction s)
  case Nil
  then show ?case by simp
next
  case (Cons c s)
  have "take (length t) (c # s) = t \<longleftrightarrow> (\<exists>b. c # s = t @ b)"
    using startswith_iff [of "c # s" t] by (simp add: startswith_def)
  moreover have "(\<exists>a b. s = a @ t @ b) \<longleftrightarrow> (\<exists>a b. c # s = (c # a) @ t @ b)" by simp
  ultimately show ?case
    unfolding contains.simps Cons.IH
    by (metis append_Cons append_Nil list.exhaust list.inject)
qed

definition lstrip :: "nat \<Rightarrow> pystr \<Rightarrow> pystr" where
  "lstrip c s = dropWhile (\<lambda>x. x = c) s"

definition rstrip :: "nat \<Rightarrow> pystr \<Rightarrow> pystr" where
  "rstrip c s = rev (dropWhile (\<lambda>x. x = c) (rev s))"

lemma rstrip_last: "rstrip c s \<noteq> [] \<Longrightarrow> last (rstrip c s) \<noteq> c"
proof -
  assume "rstrip c s \<noteq> []"
  then have "dropWhile (\<lambda>x. x = c) (rev s) \<noteq> []" by (simp add: rstrip_def)
  from hd_dropWhile [OF this] show ?thesis by (simp add: rstrip_def last_rev)
qed

lemma lstrip_hd: "lstrip c s \<noteq> [] \<Longrightarrow> hd (lstrip c s) \<noteq> c"
  unfolding lstrip_def by (rule hd_dropWhile)

text \<open>\<open>s.split(c)\<close> for a separator of one character, and \<open>c.join(parts)\<close>.\<close>

fun split_on :: "nat \<Rightarrow> nat list \<Rightarrow> nat list list" where
  "split_on c [] = [[]]"
| "split_on c (x # xs) =
     (if x = c then [] # split_on c xs
      else (case split_on c xs of [] \<Rightarrow> [[x]] | p # ps \<Rightarrow> (x # p) # ps))"

fun join :: "nat list \<Rightarrow> nat list list \<Rightarrow> nat list" where
  "join sep [] = []"
| "join sep [p] = p"
| "join sep (p # q # ps) = p @ sep @ join sep (q # ps)"

lemma split_on_nonempty [simp]: "split_on c s \<noteq> []"
  by (induction s) (auto split: list.splits)

lemma join_Cons_head: "join sep ((x # p) # ps) = x # join sep (p # ps)"
  by (cases ps) auto

lemma join_append: "ps \<noteq> [] \<Longrightarrow> qs \<noteq> [] \<Longrightarrow> join sep (ps @ qs) = join sep ps @ sep @ join sep qs"
  by (induction sep ps rule: join.induct) (auto simp: neq_Nil_conv)

lemma join_split_on: "join [c] (split_on c s) = s"
proof (induction s)
  case (Cons x xs)
  then show ?case
  proof (cases "split_on c xs")
    case (Cons p ps)
    then show ?thesis using Cons.IH by (auto simp: join_Cons_head)
  qed simp
qed simp

lemma split_on_no_sep: "p \<in> set (split_on c s) \<Longrightarrow> c \<notin> set p"
  by (induction s arbitrary: p) (auto split: if_splits list.splits)

lemma split_on_append: "split_on c (a @ c # b) = split_on c a @ split_on c b"
proof (induction a)
  case (Cons x xs)
  then show ?case by (cases "split_on c xs") auto
qed simp

lemma split_on_none: "c \<notin> set s \<Longrightarrow> split_on c s = [s]"
  by (induction s) auto

text \<open>\<open>s.replace(c, r)\<close> for one character \<open>c\<close>.\<close>

definition replace_char :: "nat \<Rightarrow> pystr \<Rightarrow> pystr \<Rightarrow> pystr" where
  "replace_char c r s = concat (map (\<lambda>x. if x = c then r else [x]) s)"

lemma replace_char_simps [simp]:
  "replace_char c r [] = []"
  "replace_char c r (x # s) = (if x = c then r else [x]) @ replace_char c r s"
  "replace_char c r (a @ b) = replace_char c r a @ replace_char c r b"
  by (simp_all add: replace_char_def)

lemma replace_char_absent: "c \<notin> set s \<Longrightarrow> replace_char c r s = s"
  by (induction s) auto

lemma set_replace_char: "set (replace_char c r s) \<subseteq> (set s - {c}) \<union> set r"
  by (induction s) auto

section \<open>Numbers\<close>

definition is_digit :: "nat \<Rightarrow> bool" where
  "is_digit c \<longleftrightarrow> 48 \<le> c \<and> c \<le> 57"

fun digits :: "nat \<Rightarrow> pystr" where
  "digits n = (if n < 10 then [48 + n] else digits (n div 10) @ [48 + n mod 10])"

declare digits.simps [simp del]

definition str_int :: "int \<Rightarrow> pystr" where
  "str_int i = (if i < 0 then 45 # digits (nat (- i)) else digits (nat i))"

definition num_of :: "pystr \<Rightarrow> nat" where
  "num_of ds = foldl (\<lambda>a d. 10 * a + (d - 48)) 0 ds"

lemma num_of_snoc [simp]: "num_of (ds @ [d]) = 10 * num_of ds + (d - 48)"
  by (simp add: num_of_def)

lemma digits_are_digits: "list_all is_digit (digits n)"
proof (induction n rule: digits.induct)
  case (1 n)
  have "is_digit (48 + k)" if "k < 10" for k using that by (simp add: is_digit_def)
  with 1 show ?case by (subst digits.simps) auto
qed

lemma digits_0 [simp]: "digits 0 = [48]"
  by (subst digits.simps) simp

lemma digits_nonempty [simp]: "digits n \<noteq> []"
  by (subst digits.simps) simp

lemma num_of_digits [simp]: "num_of (digits n) = n"
proof (induction n rule: digits.induct)
  case (1 n)
  then show ?case by (subst digits.simps) (auto simp: num_of_def)
qed

lemma digits_inject [simp]: "digits m = digits n \<longleftrightarrow> m = n"
  by (metis num_of_digits)

lemma hd_digits: "hd (digits n) = 48 \<longleftrightarrow> n = 0"
proof (induction n rule: digits.induct)
  case (1 n)
  then show ?case by (subst digits.simps) (auto simp: hd_append div_greater_zero_iff)
qed

text \<open>
  \<open>int(s)\<close> for a string: white space around it, a sign, digits with single underscores
  between them. \<open>None\<close> is the \<open>ValueError\<close>. Digits are the ASCII ones, and the limit of
  4300 digits of the interpreter is kept.
\<close>

definition is_space :: "nat \<Rightarrow> bool" where
  "is_space c \<longleftrightarrow> (9 \<le> c \<and> c \<le> 13) \<or> (28 \<le> c \<and> c \<le> 32) \<or> c = 0x85 \<or> c = 0xA0 \<or> c = 0x1680 \<or>
     (0x2000 \<le> c \<and> c \<le> 0x200A) \<or> c = 0x2028 \<or> c = 0x2029 \<or> c = 0x202F \<or> c = 0x205F \<or> c = 0x3000"

definition strip_space :: "pystr \<Rightarrow> pystr" where
  "strip_space s = rev (dropWhile is_space (rev (dropWhile is_space s)))"

fun digits_underscored :: "pystr \<Rightarrow> pystr option" where
  "digits_underscored [] = None"
| "digits_underscored [c] = (if is_digit c then Some [c] else None)"
| "digits_underscored (c # d # r) =
     (if \<not> is_digit c then None
      else if d = 95 then map_option ((#) c) (digits_underscored r)
      else map_option ((#) c) (digits_underscored (d # r)))"

definition max_str_digits :: nat where
  "max_str_digits = 4300"

definition nat_of_text :: "pystr \<Rightarrow> nat option" where
  "nat_of_text s = (case digits_underscored s of
     None \<Rightarrow> None
   | Some ds \<Rightarrow> (if length ds > max_str_digits then None else Some (num_of ds)))"

definition py_int :: "pystr \<Rightarrow> int option" where
  "py_int s = (case strip_space s of
     [] \<Rightarrow> None
   | c # r \<Rightarrow> (if c = 45 then map_option (\<lambda>n. - int n) (nat_of_text r)
               else if c = 43 then map_option int (nat_of_text r)
               else map_option int (nat_of_text (c # r))))"

lemma digits_underscored_digits:
  "ds \<noteq> [] \<Longrightarrow> list_all is_digit ds \<Longrightarrow> digits_underscored ds = Some ds"
  by (induction ds rule: digits_underscored.induct) (auto simp: is_digit_def)

lemma dropWhile_hd: "s \<noteq> [] \<Longrightarrow> \<not> P (hd s) \<Longrightarrow> dropWhile P s = s"
  by (cases s) auto

lemma strip_space_none: "list_all (\<lambda>c. \<not> is_space c) s \<Longrightarrow> strip_space s = s"
  unfolding strip_space_def
  by (cases "s = []") (auto simp: dropWhile_hd hd_rev list_all_iff)

text \<open>\<open>int(str(i)) == i\<close>, within the digit limit.\<close>

lemma py_int_str_int:
  assumes "length (digits (nat \<bar>i\<bar>)) \<le> max_str_digits"
  shows "py_int (str_int i) = Some i"
proof -
  let ?ds = "digits (nat \<bar>i\<bar>)"
  have dig: "list_all is_digit ?ds" by (rule digits_are_digits)
  then have hd: "is_digit (hd ?ds)" by (cases ?ds) auto
  have nosp: "\<not> is_space c" if "is_digit c \<or> c = 45" for c
    using that by (auto simp: is_digit_def is_space_def)
  have nat_t: "nat_of_text ?ds = Some (nat \<bar>i\<bar>)"
    using assms dig by (simp add: nat_of_text_def digits_underscored_digits)
  have strip: "strip_space (str_int i) = str_int i"
    using dig by (intro strip_space_none) (auto simp: str_int_def list_all_iff intro!: nosp)
  show ?thesis
  proof (cases "i < 0")
    case True
    then show ?thesis using strip nat_t by (simp add: py_int_def str_int_def)
  next
    case False
    then obtain c r where cr: "?ds = c # r" by (cases ?ds) auto
    with hd have "is_digit c" by simp
    with False cr strip nat_t show ?thesis
      by (auto simp: py_int_def str_int_def is_digit_def)
  qed
qed

end
