(* ===== verification/Encoding.thy ===== *)
theory Encoding imports Text begin

text \<open>
  UTF-8 (\<open>str.encode\<close>, \<open>bytes.decode\<close>, both strict), the representation of bytes as text
  (\<open>str(b)\<close>), and percent-encoding (\<open>urllib.parse.quote\<close>), with their round trips.
\<close>

section \<open>UTF-8\<close>

definition utf8_char :: "nat \<Rightarrow> pybytes" where
  "utf8_char c =
     (if c < 0x80 then [c]
      else if c < 0x800 then [0xC0 + c div 64, 0x80 + c mod 64]
      else if c < 0x10000 then [0xE0 + c div 4096, 0x80 + c div 64 mod 64, 0x80 + c mod 64]
      else [0xF0 + c div 262144, 0x80 + c div 4096 mod 64, 0x80 + c div 64 mod 64, 0x80 + c mod 64])"

definition utf8_encode :: "pystr \<Rightarrow> pybytes option" where
  "utf8_encode s = (if scalar_text s then Some (concat (map utf8_char s)) else None)"

definition is_cont :: "nat \<Rightarrow> bool" where
  "is_cont b \<longleftrightarrow> 0x80 \<le> b \<and> b \<le> 0xBF"

text \<open>One character: its code point and the number of bytes it takes.\<close>

definition utf8_2 :: "nat \<Rightarrow> nat \<Rightarrow> nat" where
  "utf8_2 a b = (a - 0xC0) * 64 + (b - 0x80)"

definition utf8_3 :: "nat \<Rightarrow> nat \<Rightarrow> nat \<Rightarrow> nat" where
  "utf8_3 a b c = (a - 0xE0) * 4096 + (b - 0x80) * 64 + (c - 0x80)"

definition utf8_4 :: "nat \<Rightarrow> nat \<Rightarrow> nat \<Rightarrow> nat \<Rightarrow> nat" where
  "utf8_4 a b c d = (a - 0xF0) * 262144 + (b - 0x80) * 4096 + (c - 0x80) * 64 + (d - 0x80)"

fun utf8_step :: "pybytes \<Rightarrow> (nat \<times> pybytes) option" where
  "utf8_step [] = None"
| "utf8_step (a # r) =
     (if a < 0x80 then Some (a, r)
      else if 0xC2 \<le> a \<and> a \<le> 0xDF then
        (case r of b # r' \<Rightarrow> (if is_cont b then Some (utf8_2 a b, r') else None) | _ \<Rightarrow> None)
      else if 0xE0 \<le> a \<and> a \<le> 0xEF then
        (case r of b # c # r' \<Rightarrow>
           (if is_cont b \<and> is_cont c \<and> 0x800 \<le> utf8_3 a b c \<and> \<not> is_surrogate (utf8_3 a b c)
            then Some (utf8_3 a b c, r') else None)
         | _ \<Rightarrow> None)
      else if 0xF0 \<le> a \<and> a \<le> 0xF4 then
        (case r of b # c # d # r' \<Rightarrow>
           (if is_cont b \<and> is_cont c \<and> is_cont d \<and> 0x10000 \<le> utf8_4 a b c d
               \<and> utf8_4 a b c d < 0x110000
            then Some (utf8_4 a b c d, r') else None)
         | _ \<Rightarrow> None)
      else None)"

lemma utf8_step_shorter: "utf8_step bs = Some (c, r) \<Longrightarrow> length r < length bs"
  by (cases bs) (auto split: if_splits list.splits)

function utf8_decode :: "pybytes \<Rightarrow> pystr option" where
  "utf8_decode bs =
     (if bs = [] then Some []
      else (case utf8_step bs of
              None \<Rightarrow> None
            | Some (c, r) \<Rightarrow> map_option ((#) c) (utf8_decode r)))"
  by pat_completeness auto
termination
  by (relation "measure length") (auto dest: utf8_step_shorter)

declare utf8_decode.simps [simp del]

lemma utf8_decode_Nil [simp]: "utf8_decode [] = Some []"
  by (subst utf8_decode.simps) simp

lemma digits64_3: "c div 4096 * 4096 + c div 64 mod 64 * 64 + c mod 64 = (c::nat)"
proof -
  have "c div 4096 = c div 64 div 64" by (simp add: div_mult2_eq [symmetric])
  then have "c div 4096 * 64 + c div 64 mod 64 = c div 64"
    using div_mult_mod_eq [of "c div 64" 64] by simp
  moreover have "c div 64 * 64 + c mod 64 = c" by (rule div_mult_mod_eq)
  ultimately show ?thesis by linarith
qed

lemma digits64_4:
  "c div 262144 * 262144 + c div 4096 mod 64 * 4096 + c div 64 mod 64 * 64 + c mod 64 = (c::nat)"
proof -
  have "c div 262144 = c div 4096 div 64" by (simp add: div_mult2_eq [symmetric])
  then have "c div 262144 * 64 + c div 4096 mod 64 = c div 4096"
    using div_mult_mod_eq [of "c div 4096" 64] by simp
  with digits64_3 [of c] show ?thesis by linarith
qed

lemma utf8_step_char:
  assumes "is_scalar c"
  shows "utf8_step (utf8_char c @ r) = Some (c, r)"
proof -
  consider "c < 0x80" | "0x80 \<le> c" "c < 0x800" | "0x800 \<le> c" "c < 0x10000" | "0x10000 \<le> c"
    by linarith
  then show ?thesis
  proof cases
    case 1
    then show ?thesis by (simp add: utf8_char_def)
  next
    case 2
    then have "2 \<le> c div 64" "c div 64 < 32" by auto
    then show ?thesis using 2
      by (simp add: utf8_char_def utf8_2_def is_cont_def mult.commute)
  next
    case 3
    obtain x y z where xyz: "x = c div 4096" "y = c div 64 mod 64" "z = c mod 64" by blast
    have sum: "x * 4096 + y * 64 + z = c" unfolding xyz by (rule digits64_3)
    have "x < 16" "y < 64" "z < 64" using 3 by (auto simp: xyz)
    moreover have "utf8_char c = [0xE0 + x, 0x80 + y, 0x80 + z]"
      using 3 by (simp add: utf8_char_def xyz)
    moreover have "utf8_3 (0xE0 + x) (0x80 + y) (0x80 + z) = c"
      using sum by (simp add: utf8_3_def)
    ultimately show ?thesis using 3 assms
      by (simp add: is_cont_def is_scalar_def)
  next
    case 4
    obtain w x y z where
      wxyz: "w = c div 262144" "x = c div 4096 mod 64" "y = c div 64 mod 64" "z = c mod 64"
      by blast
    have sum: "w * 262144 + x * 4096 + y * 64 + z = c" unfolding wxyz by (rule digits64_4)
    have "w \<le> 4" "x < 64" "y < 64" "z < 64"
      using 4 assms unfolding wxyz is_scalar_def by (auto simp: less_eq_div_iff_mult_less_eq)
    moreover have "utf8_char c = [0xF0 + w, 0x80 + x, 0x80 + y, 0x80 + z]"
      using 4 by (simp add: utf8_char_def wxyz)
    moreover have "utf8_4 (0xF0 + w) (0x80 + x) (0x80 + y) (0x80 + z) = c"
      using sum by (simp add: utf8_4_def)
    ultimately show ?thesis using 4 assms
      by (simp add: is_cont_def is_scalar_def)
  qed
qed

lemma utf8_char_nonempty [simp]: "utf8_char c \<noteq> []"
  by (simp add: utf8_char_def)

theorem utf8_decode_encode: "utf8_encode s = Some bs \<Longrightarrow> utf8_decode bs = Some s"
proof -
  have "utf8_decode (concat (map utf8_char s)) = Some s" if "scalar_text s"
    using that
  proof (induction s)
    case (Cons c s)
    then show ?case
      by (subst utf8_decode.simps) (simp add: scalar_text_def utf8_step_char)
  qed simp
  then show "utf8_encode s = Some bs \<Longrightarrow> utf8_decode bs = Some s"
    by (auto simp: utf8_encode_def split: if_splits)
qed

lemma utf8_char_bytes: "is_scalar c \<Longrightarrow> list_all (\<lambda>b. b < 256) (utf8_char c)"
  by (auto simp: utf8_char_def is_scalar_def)

lemma utf8_encode_bytes: "utf8_encode s = Some bs \<Longrightarrow> list_all (\<lambda>b. b < 256) bs"
  using utf8_char_bytes
  by (fastforce simp: utf8_encode_def scalar_text_def list_all_iff split: if_splits)

section \<open>Bytes as text\<close>

definition hex_digit :: "bool \<Rightarrow> nat \<Rightarrow> nat" where
  "hex_digit upper n = (if n < 10 then 48 + n else (if upper then 55 else 87) + n)"

definition hex_value :: "nat \<Rightarrow> nat option" where
  "hex_value c = (if 48 \<le> c \<and> c \<le> 57 then Some (c - 48)
     else if 65 \<le> c \<and> c \<le> 70 then Some (c - 55)
     else if 97 \<le> c \<and> c \<le> 102 then Some (c - 87) else None)"

lemma hex_value_digit [simp]: "n < 16 \<Longrightarrow> hex_value (hex_digit up n) = Some n"
  by (auto simp: hex_digit_def hex_value_def)

text \<open>\<open>str(b)\<close> is \<open>b'...'\<close>, or \<open>b"..."\<close> when the bytes hold a quote and no double quote.\<close>

definition repr_byte :: "nat \<Rightarrow> nat \<Rightarrow> pystr" where
  "repr_byte q b =
     (if b = q \<or> b = 92 then [92, b]
      else if b = 9 then [92, 116] else if b = 10 then [92, 110] else if b = 13 then [92, 114]
      else if b < 32 \<or> 127 \<le> b then
        [92, 120, hex_digit False (b div 16 mod 16), hex_digit False (b mod 16)]
      else [b])"

definition str_bytes :: "pybytes \<Rightarrow> pystr" where
  "str_bytes bs =
     (let q = (if 39 \<in> set bs \<and> 34 \<notin> set bs then 34 else 39)
      in 98 # q # concat (map (repr_byte q) bs) @ [q])"

section \<open>Percent-encoding\<close>

definition is_alpha :: "nat \<Rightarrow> bool" where
  "is_alpha c \<longleftrightarrow> (65 \<le> c \<and> c \<le> 90) \<or> (97 \<le> c \<and> c \<le> 122)"

text \<open>Letters, digits, and \<open>_ . - ~\<close> are never escaped.\<close>

definition always_safe :: "nat \<Rightarrow> bool" where
  "always_safe c \<longleftrightarrow> is_alpha c \<or> is_digit c \<or> c = 95 \<or> c = 46 \<or> c = 45 \<or> c = 126"

definition quote_byte :: "pystr \<Rightarrow> nat \<Rightarrow> pystr" where
  "quote_byte safe b =
     (if always_safe b \<or> (b < 128 \<and> b \<in> set safe) then [b]
      else [37, hex_digit True (b div 16 mod 16), hex_digit True (b mod 16)])"

text \<open>\<open>quote(s, safe=...)\<close>; \<open>None\<close> is the \<open>UnicodeEncodeError\<close> of a lone surrogate.\<close>

definition quote :: "pystr \<Rightarrow> pystr \<Rightarrow> pystr option" where
  "quote safe s = map_option (\<lambda>bs. concat (map (quote_byte safe) bs)) (utf8_encode s)"

fun unquote_bytes :: "pystr \<Rightarrow> pybytes" where
  "unquote_bytes (c # h # l # r) =
     (if c = 37 then
        (case (hex_value h, hex_value l) of
           (Some a, Some b) \<Rightarrow> (16 * a + b) # unquote_bytes r
         | _ \<Rightarrow> c # unquote_bytes (h # l # r))
      else c # unquote_bytes (h # l # r))"
| "unquote_bytes s = s"

definition unquote :: "pystr \<Rightarrow> pystr option" where
  "unquote s = utf8_decode (unquote_bytes s)"

lemma unquote_bytes_plain: "c \<noteq> 37 \<Longrightarrow> unquote_bytes (c # s) = c # unquote_bytes s"
proof (cases s)
  case (Cons h s')
  then show "c \<noteq> 37 \<Longrightarrow> ?thesis" by (cases s') auto
qed simp

lemma unquote_quote_byte:
  assumes "b < 256" and "37 \<notin> set safe"
  shows "unquote_bytes (quote_byte safe b @ s) = b # unquote_bytes s"
proof (cases "always_safe b \<or> (b < 128 \<and> b \<in> set safe)")
  case True
  then have "b \<noteq> 37" using assms(2) by (auto simp: always_safe_def is_alpha_def is_digit_def)
  with True show ?thesis by (simp add: quote_byte_def unquote_bytes_plain)
next
  case False
  then have "quote_byte safe b = [37, hex_digit True (b div 16 mod 16), hex_digit True (b mod 16)]"
    by (simp add: quote_byte_def)
  then show ?thesis using assms(1) by simp
qed

lemma unquote_bytes_quote:
  assumes "list_all (\<lambda>b. b < 256) bs" and "37 \<notin> set safe"
  shows "unquote_bytes (concat (map (quote_byte safe) bs)) = bs"
  using assms by (induction bs) (simp_all add: unquote_quote_byte)

theorem unquote_quote:
  assumes "quote safe s = Some q" and "37 \<notin> set safe"
  shows "unquote q = Some s"
  using assms
  by (auto simp: quote_def unquote_def unquote_bytes_quote utf8_encode_bytes utf8_decode_encode)

text \<open>What \<open>quote\<close> can leave in its result.\<close>

lemma quote_byte_chars:
  "c \<in> set (quote_byte safe b) \<Longrightarrow> always_safe c \<or> c = 37 \<or> (c < 128 \<and> c \<in> set safe)"
proof -
  have "always_safe (hex_digit True n)" if "n < 16" for n
    using that by (auto simp: hex_digit_def always_safe_def is_digit_def is_alpha_def)
  then show "c \<in> set (quote_byte safe b) \<Longrightarrow> always_safe c \<or> c = 37 \<or> (c < 128 \<and> c \<in> set safe)"
    by (auto simp: quote_byte_def split: if_splits)
qed

lemma quote_chars:
  "quote safe s = Some q \<Longrightarrow> c \<in> set q \<Longrightarrow> always_safe c \<or> c = 37 \<or> (c < 128 \<and> c \<in> set safe)"
  using quote_byte_chars by (fastforce simp: quote_def)

end
