(* ===== verification/Json.thy ===== *)
theory Json imports Encoding begin

text \<open>
  Python values as the package passes them around, and \<open>json.dumps\<close> and \<open>json.loads\<close> on
  them, with their default options (ASCII output, \<open>", "\<close> and \<open>": "\<close> as separators, strict
  strings). A float is kept as a literal that denotes it. \<open>VOther\<close> is any object JSON does
  not know (a date, a UUID): what counts is its \<open>str\<close>, or \<open>None\<close> when \<open>str\<close> raises.

  The text round trip is the contract the producer and the consumer of an event, and the two
  sides of a cache, rest on: the locale \<open>json_codec\<close>, interpreted on \<open>dumps\<close> and \<open>loads\<close>.
\<close>

datatype pyval =
    VNone
  | VBool bool
  | VInt int
  | VFloat pystr
  | VStr pystr
  | VBytes pybytes
  | VList "pyval list"
  | VDict "(pystr \<times> pyval) list"
  | VOther "pystr option"

text \<open>\<open>bool(v)\<close>.\<close>

fun float_zero :: "pystr \<Rightarrow> bool" where
  "float_zero [] \<longleftrightarrow> True"
| "float_zero (c # r) \<longleftrightarrow> c = 101 \<or> c = 69 \<or> (c \<in> {43, 45, 46, 48} \<and> float_zero r)"

fun truthy :: "pyval \<Rightarrow> bool" where
  "truthy VNone \<longleftrightarrow> False"
| "truthy (VBool b) \<longleftrightarrow> b"
| "truthy (VInt i) \<longleftrightarrow> i \<noteq> 0"
| "truthy (VFloat f) \<longleftrightarrow> \<not> float_zero f"
| "truthy (VStr s) \<longleftrightarrow> s \<noteq> []"
| "truthy (VBytes b) \<longleftrightarrow> b \<noteq> []"
| "truthy (VList vs) \<longleftrightarrow> vs \<noteq> []"
| "truthy (VDict d) \<longleftrightarrow> d \<noteq> []"
| "truthy (VOther _) \<longleftrightarrow> True"

section \<open>json.dumps\<close>

definition hex4_text :: "nat \<Rightarrow> pystr" where
  "hex4_text n = [92, 117, hex_digit False (n div 4096 mod 16), hex_digit False (n div 256 mod 16),
     hex_digit False (n div 16 mod 16), hex_digit False (n mod 16)]"

definition json_char :: "nat \<Rightarrow> pystr" where
  "json_char c =
     (if c = 34 then [92, 34] else if c = 92 then [92, 92]
      else if c = 8 then [92, 98] else if c = 12 then [92, 102] else if c = 10 then [92, 110]
      else if c = 13 then [92, 114] else if c = 9 then [92, 116]
      else if 32 \<le> c \<and> c \<le> 126 then [c]
      else if c < 0x10000 then hex4_text c
      else hex4_text (0xD800 + (c - 0x10000) div 1024) @ hex4_text (0xDC00 + (c - 0x10000) mod 1024))"

definition json_string :: "pystr \<Rightarrow> pystr" where
  "json_string s = 34 # concat (map json_char s) @ [34]"

text \<open>The first argument says whether \<open>default=str\<close> is given; \<open>None\<close> is an exception.\<close>

fun dumps :: "bool \<Rightarrow> pyval \<Rightarrow> pystr option"
  and dumps_elems :: "bool \<Rightarrow> pyval list \<Rightarrow> pystr option"
  and dumps_items :: "bool \<Rightarrow> (pystr \<times> pyval) list \<Rightarrow> pystr option" where
  "dumps d VNone = Some (u ''null'')"
| "dumps d (VBool b) = Some (if b then u ''true'' else u ''false'')"
| "dumps d (VInt i) =
     (if length (digits (nat \<bar>i\<bar>)) > max_str_digits then None else Some (str_int i))"
| "dumps d (VFloat f) = Some f"
| "dumps d (VStr s) = Some (json_string s)"
| "dumps d (VBytes b) = (if d then Some (json_string (str_bytes b)) else None)"
| "dumps d (VList vs) = map_option (\<lambda>t. 91 # t @ [93]) (dumps_elems d vs)"
| "dumps d (VDict kvs) = map_option (\<lambda>t. 123 # t @ [125]) (dumps_items d kvs)"
| "dumps d (VOther s) = (if d then map_option json_string s else None)"
| "dumps_elems d [] = Some []"
| "dumps_elems d [v] = dumps d v"
| "dumps_elems d (v # w # vs) =
     (case (dumps d v, dumps_elems d (w # vs)) of
        (Some t, Some t') \<Rightarrow> Some (t @ [44, 32] @ t') | _ \<Rightarrow> None)"
| "dumps_items d [] = Some []"
| "dumps_items d [(k, v)] = map_option (\<lambda>t. json_string k @ [58, 32] @ t) (dumps d v)"
| "dumps_items d ((k, v) # kv # kvs) =
     (case (dumps d v, dumps_items d (kv # kvs)) of
        (Some t, Some t') \<Rightarrow> Some (json_string k @ [58, 32] @ t @ [44, 32] @ t') | _ \<Rightarrow> None)"

section \<open>json.loads\<close>

definition is_ws :: "nat \<Rightarrow> bool" where
  "is_ws c \<longleftrightarrow> c = 32 \<or> c = 9 \<or> c = 10 \<or> c = 13"

definition skip_ws :: "pystr \<Rightarrow> pystr" where
  "skip_ws s = dropWhile is_ws s"

text \<open>The four hexadecimal digits of an escape.\<close>

fun hex4 :: "pystr \<Rightarrow> (nat \<times> pystr) option" where
  "hex4 (a # b # c # d # r) =
     (case (hex_value a, hex_value b, hex_value c, hex_value d) of
        (Some w, Some x, Some y, Some z) \<Rightarrow> Some (4096 * w + 256 * x + 16 * y + z, r)
      | _ \<Rightarrow> None)"
| "hex4 _ = None"

lemma hex4_shorter: "hex4 s = Some (n, r) \<Longrightarrow> length r < length s"
  by (cases s rule: hex4.cases) (auto split: option.splits)

text \<open>
  After the \<open>u\<close> of an escape: the code unit, joined with the low surrogate that follows a
  high one.
\<close>

definition scan_unicode :: "pystr \<Rightarrow> (nat \<times> pystr) option" where
  "scan_unicode s = (case hex4 s of
     None \<Rightarrow> None
   | Some (n, r) \<Rightarrow>
       (if 0xD800 \<le> n \<and> n \<le> 0xDBFF \<and> take 2 r = [92, 117] then
          (case hex4 (drop 2 r) of
             None \<Rightarrow> None
           | Some (m, r') \<Rightarrow>
               (if 0xDC00 \<le> m \<and> m \<le> 0xDFFF
                then Some (0x10000 + (n - 0xD800) * 1024 + (m - 0xDC00), r')
                else Some (n, r)))
        else Some (n, r)))"

lemma scan_unicode_shorter: "scan_unicode s = Some (n, r) \<Longrightarrow> length r < length s"
  by (auto simp: scan_unicode_def split: option.splits if_splits dest!: hex4_shorter)

definition simple_escape :: "nat \<Rightarrow> nat option" where
  "simple_escape c = (if c = 34 \<or> c = 92 \<or> c = 47 then Some c
     else if c = 98 then Some 8 else if c = 102 then Some 12 else if c = 110 then Some 10
     else if c = 114 then Some 13 else if c = 116 then Some 9 else None)"

text \<open>One character of a string (not its closing quote).\<close>

fun scan_char :: "pystr \<Rightarrow> (nat \<times> pystr) option" where
  "scan_char [] = None"
| "scan_char (c # r) =
     (if c = 92 then
        (case r of
           [] \<Rightarrow> None
         | e # r' \<Rightarrow> (if e = 117 then scan_unicode r'
                     else map_option (\<lambda>x. (x, r')) (simple_escape e)))
      else if c < 32 then None
      else Some (c, r))"

lemma scan_char_shorter: "scan_char s = Some (c, r) \<Longrightarrow> length r < length s"
  by (cases s) (auto split: if_splits list.splits dest!: scan_unicode_shorter)

text \<open>After the opening quote: the text, and what follows the closing quote.\<close>

function scan_string :: "pystr \<Rightarrow> (pystr \<times> pystr) option" where
  "scan_string s =
     (if s = [] then None
      else if hd s = 34 then Some ([], tl s)
      else (case scan_char s of
              None \<Rightarrow> None
            | Some (c, r) \<Rightarrow> map_option (\<lambda>(t, r'). (c # t, r')) (scan_string r)))"
  by pat_completeness auto
termination
  by (relation "measure length") (auto dest: scan_char_shorter)

declare scan_string.simps [simp del]

lemma scan_string_shorter: "scan_string s = Some (t, r) \<Longrightarrow> length r < length s"
proof (induction s arbitrary: t r rule: scan_string.induct)
  case (1 s)
  from "1.prems" consider "s \<noteq> []" "hd s = 34" "r = tl s"
    | c r' t' where "s \<noteq> []" "hd s \<noteq> 34" "scan_char s = Some (c, r')" "scan_string r' = Some (t', r)"
    by (subst (asm) scan_string.simps) (auto split: if_splits option.splits)
  then show ?case
  proof cases
    case 1
    then show ?thesis by (cases s) auto
  next
    case 2
    from "1.IH" [OF 2(1,2,3) refl 2(4)] scan_char_shorter [OF 2(3)] show ?thesis by simp
  qed
qed

text \<open>
  A number: an integer, or a float when a fraction or an exponent follows. As the regular
  expression of the library does, the longest valid prefix is taken.
\<close>

definition scan_frac :: "pystr \<Rightarrow> pystr \<times> pystr" where
  "scan_frac s = (case s of
     [] \<Rightarrow> ([], [])
   | c # r \<Rightarrow> (let ds = takeWhile is_digit r in
       if c = 46 \<and> ds \<noteq> [] then (c # ds, drop (length ds) r) else ([], s)))"

definition exp_sign :: "pystr \<Rightarrow> pystr" where
  "exp_sign r = (if r \<noteq> [] \<and> hd r \<in> {43, 45} then [hd r] else [])"

definition scan_exp :: "pystr \<Rightarrow> pystr \<times> pystr" where
  "scan_exp s = (case s of
     [] \<Rightarrow> ([], [])
   | c # r \<Rightarrow> (let sg = exp_sign r; ds = takeWhile is_digit (drop (length sg) r) in
       if c \<in> {101, 69} \<and> ds \<noteq> [] then (c # sg @ ds, drop (length sg + length ds) r) else ([], s)))"

definition minus_sign :: "pystr \<Rightarrow> pystr" where
  "minus_sign s = (if s \<noteq> [] \<and> hd s = 45 then [45] else [])"

text \<open>No leading zero: a zero stands alone.\<close>

definition int_part :: "pystr \<Rightarrow> pystr" where
  "int_part ds = (if ds \<noteq> [] \<and> hd ds = 48 then [48] else ds)"

definition scan_int :: "pystr \<Rightarrow> (pystr \<times> pystr) option" where
  "scan_int s =
     (let sg = minus_sign s; ds = takeWhile is_digit (drop (length sg) s); ip = int_part ds
      in if ds = [] then None else Some (sg @ ip, drop (length sg + length ip) s))"

definition int_literal :: "pystr \<Rightarrow> int" where
  "int_literal t = (if hd t = 45 then - int (num_of (tl t)) else int (num_of t))"

definition scan_number :: "pystr \<Rightarrow> (pyval \<times> pystr) option" where
  "scan_number s = (case scan_int s of
     None \<Rightarrow> None
   | Some (ip, r) \<Rightarrow>
       (case scan_frac r of (fr, r') \<Rightarrow>
        (case scan_exp r' of (ex, r'') \<Rightarrow>
          (if fr = [] \<and> ex = [] then
             (if length (filter is_digit ip) > max_str_digits then None
              else Some (VInt (int_literal ip), r''))
           else Some (VFloat (ip @ fr @ ex), r'')))))"

definition scan_word :: "pystr \<Rightarrow> (pyval \<times> pystr) option" where
  "scan_word s =
     (if startswith s (u ''null'') then Some (VNone, drop 4 s)
      else if startswith s (u ''true'') then Some (VBool True, drop 4 s)
      else if startswith s (u ''false'') then Some (VBool False, drop 5 s)
      else (case scan_number s of
              Some vr \<Rightarrow> Some vr
            | None \<Rightarrow>
                (if startswith s (u ''NaN'') then Some (VFloat (u ''NaN''), drop 3 s)
                 else if startswith s (u ''Infinity'') then Some (VFloat (u ''Infinity''), drop 8 s)
                 else if startswith s (u ''-Infinity'') then Some (VFloat (u ''-Infinity''), drop 9 s)
                 else None)))"

text \<open>
  The value at the head of the text, and the text after it. The fuel bounds the nesting and
  the number of elements; \<open>loads\<close> gives more than the text can use.
\<close>

fun scan_value :: "nat \<Rightarrow> pystr \<Rightarrow> (pyval \<times> pystr) option"
  and scan_elems :: "nat \<Rightarrow> pystr \<Rightarrow> (pyval list \<times> pystr) option"
  and scan_members :: "nat \<Rightarrow> pystr \<Rightarrow> ((pystr \<times> pyval) list \<times> pystr) option" where
  "scan_value 0 s = None"
| "scan_value (Suc n) s =
     (case s of
        [] \<Rightarrow> None
      | c # r \<Rightarrow>
          (if c = 34 then map_option (\<lambda>(t, r'). (VStr t, r')) (scan_string r)
           else if c = 123 then
             (case skip_ws r of
                [] \<Rightarrow> None
              | c' # r' \<Rightarrow>
                  (if c' = 125 then Some (VDict [], r')
                   else map_option (\<lambda>(kvs, q). (VDict (dict_of kvs), q)) (scan_members n (c' # r'))))
           else if c = 91 then
             (case skip_ws r of
                [] \<Rightarrow> None
              | c' # r' \<Rightarrow>
                  (if c' = 93 then Some (VList [], r')
                   else map_option (\<lambda>(vs, q). (VList vs, q)) (scan_elems n (c' # r'))))
           else scan_word s))"
| "scan_elems 0 s = None"
| "scan_elems (Suc n) s =
     (case scan_value n s of
        None \<Rightarrow> None
      | Some (v, r) \<Rightarrow>
          (case skip_ws r of
             [] \<Rightarrow> None
           | c # r' \<Rightarrow>
               (if c = 93 then Some ([v], r')
                else if c = 44 then map_option (\<lambda>(vs, q). (v # vs, q)) (scan_elems n (skip_ws r'))
                else None)))"
| "scan_members 0 s = None"
| "scan_members (Suc n) s =
     (case s of
        [] \<Rightarrow> None
      | q # r \<Rightarrow>
          (if q \<noteq> 34 then None
           else (case scan_string r of
              None \<Rightarrow> None
            | Some (k, r1) \<Rightarrow>
                (case skip_ws r1 of
                   [] \<Rightarrow> None
                 | c # r2 \<Rightarrow>
                     (if c \<noteq> 58 then None
                      else (case scan_value n (skip_ws r2) of
                         None \<Rightarrow> None
                       | Some (v, r3) \<Rightarrow>
                           (case skip_ws r3 of
                              [] \<Rightarrow> None
                            | e # r4 \<Rightarrow>
                                (if e = 125 then Some ([(k, v)], r4)
                                 else if e = 44 then
                                   map_option (\<lambda>(kvs, q). ((k, v) # kvs, q))
                                     (scan_members n (skip_ws r4))
                                 else None)))))))) "

definition json_fuel :: "pystr \<Rightarrow> nat" where
  "json_fuel s = Suc (2 * length s)"

text \<open>\<open>json.loads(s)\<close>; \<open>None\<close> is the \<open>JSONDecodeError\<close> (a \<open>ValueError\<close>).\<close>

definition loads :: "pystr \<Rightarrow> pyval option" where
  "loads s = (if s \<noteq> [] \<and> hd s = 0xFEFF then None
     else (case scan_value (json_fuel s) (skip_ws s) of
        None \<Rightarrow> None
      | Some (v, r) \<Rightarrow> (if skip_ws r = [] then Some v else None)))"

end
