(* ===== verification/JsonCodec.thy ===== *)
theory JsonCodec imports Json begin

text \<open>
  What is written by \<open>json.dumps\<close> is read back by \<open>json.loads\<close>. The contract is the locale
  \<open>json_codec\<close>, which the event envelope and the caches use; it is interpreted here on the
  model of the two functions.
\<close>

section \<open>What survives the round trip\<close>

text \<open>
  Objects JSON does not know come back as their text. A value is \<open>json_ok\<close> when its texts are
  Unicode (no lone surrogate, which would join its neighbour), its dictionaries have distinct
  keys and its floats are literals.
\<close>

fun json_norm :: "pyval \<Rightarrow> pyval" where
  "json_norm (VBytes b) = VStr (str_bytes b)"
| "json_norm (VOther (Some s)) = VStr s"
| "json_norm (VList vs) = VList (map json_norm vs)"
| "json_norm (VDict kvs) = VDict (map (\<lambda>(k, v). (k, json_norm v)) kvs)"
| "json_norm v = v"

definition float_literal :: "pystr \<Rightarrow> bool" where
  "float_literal f \<longleftrightarrow> scan_word f = Some (VFloat f, [])"

fun json_ok :: "pyval \<Rightarrow> bool" where
  "json_ok (VFloat f) \<longleftrightarrow> float_literal f"
| "json_ok (VStr s) \<longleftrightarrow> scalar_text s"
| "json_ok (VBytes b) \<longleftrightarrow> list_all (\<lambda>x. x < 256) b"
| "json_ok (VOther s) \<longleftrightarrow> (case s of None \<Rightarrow> True | Some t \<Rightarrow> scalar_text t)"
| "json_ok (VList vs) \<longleftrightarrow> (\<forall>v \<in> set vs. json_ok v)"
| "json_ok (VDict kvs) \<longleftrightarrow> dict_wf kvs \<and> (\<forall>kv \<in> set kvs. scalar_text (fst kv) \<and> json_ok (snd kv))"
| "json_ok _ \<longleftrightarrow> True"

text \<open>A JSON value proper: nothing in it changes.\<close>

fun json_plain :: "pyval \<Rightarrow> bool" where
  "json_plain (VBytes _) \<longleftrightarrow> False"
| "json_plain (VOther _) \<longleftrightarrow> False"
| "json_plain (VList vs) \<longleftrightarrow> (\<forall>v \<in> set vs. json_plain v)"
| "json_plain (VDict kvs) \<longleftrightarrow> (\<forall>kv \<in> set kvs. json_plain (snd kv))"
| "json_plain _ \<longleftrightarrow> True"

lemma json_norm_plain: "json_plain v \<Longrightarrow> json_norm v = v"
  by (induction v rule: json_norm.induct) (auto intro!: map_idI)

section \<open>Strings\<close>

lemma hex4_hex4_text:
  assumes "n < 0x10000"
  shows "hex4 (drop 2 (hex4_text n) @ r) = Some (n, r)"
proof -
  have "n div 4096 < 16" using assms by auto
  moreover have "4096 * (n div 4096) + 256 * (n div 256 mod 16) + 16 * (n div 16 mod 16) + n mod 16 = n"
  proof -
    have "n div 4096 * 16 + n div 256 mod 16 = n div 256"
      using div_mult_mod_eq [of "n div 256" 16] by (simp add: div_mult2_eq [symmetric])
    moreover have "n div 256 * 16 + n div 16 mod 16 = n div 16"
      using div_mult_mod_eq [of "n div 16" 16] by (simp add: div_mult2_eq [symmetric])
    moreover have "n div 16 * 16 + n mod 16 = n" by (rule div_mult_mod_eq)
    ultimately show ?thesis by linarith
  qed
  ultimately show ?thesis by (simp add: hex4_text_def)
qed

lemma hex4_text_shape: "hex4_text n = 92 # 117 # drop 2 (hex4_text n)"
  by (simp add: hex4_text_def)

lemma scan_char_unicode:
  assumes "n < 0x10000"
  shows "scan_char (hex4_text n @ r) = scan_unicode (drop 2 (hex4_text n) @ r)"
  by (subst hex4_text_shape) simp

lemma scan_char_json_char:
  assumes "is_scalar c"
  shows "scan_char (json_char c @ r) = Some (c, r)"
proof -
  have "json_char c = (if c < 0x10000 then hex4_text c
      else hex4_text (0xD800 + (c - 0x10000) div 1024) @ hex4_text (0xDC00 + (c - 0x10000) mod 1024))"
    if "\<not> (c = 34 \<or> c = 92 \<or> c = 8 \<or> c = 12 \<or> c = 10 \<or> c = 13 \<or> c = 9 \<or> (32 \<le> c \<and> c \<le> 126))"
    using that by (auto simp: json_char_def)
  then consider "c = 34 \<or> c = 92 \<or> c = 8 \<or> c = 12 \<or> c = 10 \<or> c = 13 \<or> c = 9 \<or> (32 \<le> c \<and> c \<le> 126)"
    | "json_char c = hex4_text c" "c < 0x10000"
    | "json_char c = hex4_text (0xD800 + (c - 0x10000) div 1024) @ hex4_text (0xDC00 + (c - 0x10000) mod 1024)"
      "0x10000 \<le> c"
    by (meson linorder_not_le)
  then show ?thesis
  proof cases
    case 1
    then show ?thesis by (elim disjE) (simp_all add: json_char_def simple_escape_def)
  next
    case 2
    with assms show ?thesis
      by (auto simp: scan_char_unicode scan_unicode_def hex4_hex4_text is_scalar_def is_surrogate_def)
  next
    case 3
    obtain h l where hl: "h = 0xD800 + (c - 0x10000) div 1024" "l = 0xDC00 + (c - 0x10000) mod 1024"
      by blast
    have lt: "(c - 0x10000) div 1024 < 1024" using assms by (auto simp: is_scalar_def)
    then have h: "0xD800 \<le> h" "h \<le> 0xDBFF" and l: "0xDC00 \<le> l" "l \<le> 0xDFFF" by (auto simp: hl)
    have sum: "0x10000 + (h - 0xD800) * 1024 + (l - 0xDC00) = c"
      using 3(2) by (simp add: hl)
    have "take 2 (hex4_text l @ r) = [92, 117]" "drop 2 (hex4_text l @ r) = drop 2 (hex4_text l) @ r"
      by (simp_all add: hex4_text_def)
    with h l sum have "scan_unicode (drop 2 (hex4_text h) @ hex4_text l @ r) = Some (c, r)"
      by (simp add: scan_unicode_def hex4_hex4_text)
    moreover have "json_char c @ r = hex4_text h @ (hex4_text l @ r)" using 3(1) by (simp add: hl)
    ultimately show ?thesis using h by (simp add: scan_char_unicode)
  qed
qed

lemma json_char_head: "json_char c \<noteq> [] \<and> hd (json_char c) \<noteq> 34"
proof -
  have hex: "hex4_text n @ t \<noteq> [] \<and> hd (hex4_text n @ t) \<noteq> 34" for n t by (simp add: hex4_text_def)
  show ?thesis
    unfolding json_char_def using hex [of _ "[]"] hex by (simp split del: if_split) (simp split: if_split)
qed

lemma scan_string_json:
  "scalar_text s \<Longrightarrow> scan_string (concat (map json_char s) @ 34 # r) = Some (s, r)"
proof (induction s)
  case Nil
  show ?case by (subst scan_string.simps) simp
next
  case (Cons c s)
  let ?rest = "concat (map json_char s) @ 34 # r"
  have "is_scalar c" and rest: "scan_string ?rest = Some (s, r)"
    using Cons by (simp_all add: scalar_text_def)
  then have "scan_char (json_char c @ ?rest) = Some (c, ?rest)" by (simp add: scan_char_json_char)
  with rest show ?case
    by (subst scan_string.simps) (simp add: json_char_head)
qed

section \<open>Numbers and words\<close>

definition stops :: "pystr \<Rightarrow> bool" where
  "stops r \<longleftrightarrow> r = [] \<or> hd r \<in> {44, 93, 125}"

lemma stops_simps [simp]: "stops []" "stops (44 # r)" "stops (93 # r)" "stops (125 # r)"
  by (simp_all add: stops_def)

lemma stops_not:
  "stops r \<Longrightarrow> r \<noteq> [] \<Longrightarrow> \<not> is_digit (hd r) \<and> hd r \<notin> {46, 43, 45, 101, 69}"
  by (auto simp: stops_def is_digit_def)

lemma takeWhile_append_stop:
  "(r \<noteq> [] \<Longrightarrow> \<not> P (hd r)) \<Longrightarrow> takeWhile P (a @ r) = takeWhile P a"
  by (induction a) (cases r, auto)+

lemma takeWhile_digit_stops: "stops r \<Longrightarrow> takeWhile is_digit (a @ r) = takeWhile is_digit a"
  by (rule takeWhile_append_stop) (auto dest: stops_not)

lemma length_takeWhile_drop: "length (takeWhile P (drop n s)) \<le> length s - n"
  by (metis length_drop length_takeWhile_le)

lemma scan_int_append:
  assumes "scan_int s = Some (ip, q)" and "stops r"
  shows "scan_int (s @ r) = Some (ip, q @ r)"
proof -
  from assms(1) have ne: "s \<noteq> []" by (auto simp: scan_int_def)
  then have sg: "minus_sign (s @ r) = minus_sign s" by (simp add: minus_sign_def)
  have le: "length (minus_sign s) \<le> length s" using ne by (cases s) (auto simp: minus_sign_def)
  let ?ds = "takeWhile is_digit (drop (length (minus_sign s)) s)"
  have ds: "takeWhile is_digit (drop (length (minus_sign s)) (s @ r)) = ?ds"
    using le takeWhile_digit_stops [OF assms(2), of "drop (length (minus_sign s)) s"] by simp
  have "length (int_part ?ds) \<le> length ?ds" by (cases ?ds) (auto simp: int_part_def)
  then have len: "length (minus_sign s) + length (int_part ?ds) \<le> length s"
    using length_takeWhile_drop [of is_digit "length (minus_sign s)" s] le by linarith
  from assms(1) len show ?thesis
    unfolding scan_int_def sg Let_def ds by (auto split: if_splits)
qed

lemma scan_frac_append: "scan_frac s = (fr, q) \<Longrightarrow> stops r \<Longrightarrow> scan_frac (s @ r) = (fr, q @ r)"
proof (cases s)
  case Nil
  assume "scan_frac s = (fr, q)" "stops r"
  with Nil show ?thesis by (auto simp: scan_frac_def Let_def split: list.splits dest: stops_not)
next
  case (Cons c t)
  assume "scan_frac s = (fr, q)" "stops r"
  moreover have "length (takeWhile is_digit t) \<le> length t" by (rule length_takeWhile_le)
  ultimately show ?thesis
    using Cons by (auto simp: scan_frac_def Let_def takeWhile_digit_stops split: if_splits)
qed

lemma scan_exp_append: "scan_exp s = (ex, q) \<Longrightarrow> stops r \<Longrightarrow> scan_exp (s @ r) = (ex, q @ r)"
proof (cases s)
  case Nil
  assume "scan_exp s = (ex, q)" "stops r"
  with Nil show ?thesis by (auto simp: scan_exp_def Let_def split: list.splits dest: stops_not)
next
  case (Cons c t)
  assume ex: "scan_exp s = (ex, q)" and r: "stops r"
  have sg: "exp_sign (t @ r) = exp_sign t"
    using r by (cases t) (auto simp: exp_sign_def dest: stops_not)
  have le: "length (exp_sign t) \<le> length t" by (cases t) (auto simp: exp_sign_def)
  then have ds: "takeWhile is_digit (drop (length (exp_sign t)) (t @ r)) =
      takeWhile is_digit (drop (length (exp_sign t)) t)"
    using takeWhile_digit_stops [OF r, of "drop (length (exp_sign t)) t"] by simp
  have len: "length (exp_sign t) + length (takeWhile is_digit (drop (length (exp_sign t)) t)) \<le> length t"
    using length_takeWhile_drop [of is_digit "length (exp_sign t)" t] le by linarith
  from ex len show ?thesis
    unfolding scan_exp_def Cons append_Cons list.case sg Let_def ds
    by (auto split: if_splits)
qed

lemma scan_number_append:
  assumes n: "scan_number s = Some (v, q)" and r: "stops r"
  shows "scan_number (s @ r) = Some (v, q @ r)"
proof -
  from n obtain ip q1 where i: "scan_int s = Some (ip, q1)"
    by (auto simp: scan_number_def split: option.splits)
  obtain fr q2 where f: "scan_frac q1 = (fr, q2)" by (cases "scan_frac q1")
  obtain ex q3 where e: "scan_exp q2 = (ex, q3)" by (cases "scan_exp q2")
  from n i f e show ?thesis
    using scan_int_append [OF i r] scan_frac_append [OF f r] scan_exp_append [OF e r]
    by (auto simp: scan_number_def split: if_splits)
qed

section \<open>Values\<close>

lemma scan_word_append:
  assumes "float_literal f" and "stops r"
  shows "scan_word (f @ r) = Some (VFloat f, r)"
proof -
  have f: "scan_word f = Some (VFloat f, [])" using assms(1) by (simp add: float_literal_def)
  show ?thesis
  proof (cases "scan_number f")
    case None
    with f consider "f = u ''NaN''" | "f = u ''Infinity''" | "f = u ''-Infinity''"
      by (auto simp: scan_word_def split: if_splits)
    then show ?thesis
      by cases (simp_all add: scan_word_def startswith_def u_def scan_number_def scan_int_def minus_sign_def
          is_digit_def)
  next
    case (Some vq)
    with f have n: "scan_number f = Some (VFloat f, [])"
      by (auto simp: scan_word_def split: if_splits)
    then obtain c t where ct: "f = c # t" "c = 45 \<or> is_digit c"
      by (cases f) (auto simp: scan_number_def scan_int_def minus_sign_def split: option.splits if_splits)
    then have "\<not> startswith (f @ r) (u ''null'')" "\<not> startswith (f @ r) (u ''true'')"
      "\<not> startswith (f @ r) (u ''false'')"
      by (auto simp: startswith_def u_def is_digit_def)
    with scan_number_append [OF n assms(2)] show ?thesis by (simp add: scan_word_def)
  qed
qed

lemma scan_int_digits:
  assumes "stops r"
  shows "scan_int (str_int i @ r) = Some (str_int i, r)"
proof -
  have ip: "int_part (digits n) = digits n" for n
    by (cases "n = 0") (simp_all add: int_part_def hd_digits)
  have tw: "takeWhile is_digit (digits n @ r) = digits n" for n
    using takeWhile_digit_stops [OF assms] digits_are_digits [of n]
    by (simp add: takeWhile_eq_all_conv list_all_iff)
  have "hd (digits n) \<noteq> 45" for n
    using digits_are_digits [of n] by (cases "digits n") (auto simp: is_digit_def)
  with ip tw show ?thesis
    by (simp add: str_int_def scan_int_def minus_sign_def)
qed

lemma scan_word_int:
  assumes "length (digits (nat \<bar>i\<bar>)) \<le> max_str_digits" and "stops r"
  shows "scan_word (str_int i @ r) = Some (VInt i, r)"
proof -
  have d: "is_digit (hd (digits n))" "hd (digits n) \<noteq> 45" for n
    using digits_are_digits [of n] by (cases "digits n"; auto simp: is_digit_def)+
  obtain c t where ct: "str_int i = c # t" "c = 45 \<or> is_digit c"
    using d(1) [of "nat i"] by (cases "str_int i") (auto simp: str_int_def split: if_splits)
  have stop: "scan_frac r = ([], r)" "scan_exp r = ([], r)"
    using stops_not [OF assms(2)] by (cases r; auto simp: scan_frac_def scan_exp_def Let_def)+
  have "filter is_digit (str_int i) = digits (nat \<bar>i\<bar>)"
    using digits_are_digits by (auto simp: str_int_def filter_id_conv list_all_iff is_digit_def [of 45])
  moreover have "int_literal (str_int i) = i"
    using d(2) by (auto simp: int_literal_def str_int_def)
  ultimately have "scan_number (str_int i @ r) = Some (VInt i, r)"
    using assms stop by (simp add: scan_number_def scan_int_digits)
  moreover have "\<not> startswith (str_int i @ r) (u ''null'')" "\<not> startswith (str_int i @ r) (u ''true'')"
    "\<not> startswith (str_int i @ r) (u ''false'')"
    using ct by (auto simp: startswith_def u_def is_digit_def)
  ultimately show ?thesis by (simp add: scan_word_def)
qed

lemma str_int_head: "hd (str_int i) = 45 \<or> (48 \<le> hd (str_int i) \<and> hd (str_int i) \<le> 57)"
  using digits_are_digits [of "nat i"]
  by (cases "digits (nat i)") (auto simp: str_int_def is_digit_def)

text \<open>How the text of a value begins.\<close>

definition value_head :: "pystr \<Rightarrow> bool" where
  "value_head t \<longleftrightarrow> t \<noteq> [] \<and> \<not> is_ws (hd t) \<and> hd t \<noteq> 93 \<and> hd t \<noteq> 125"

lemma value_head_append [simp]: "value_head t \<Longrightarrow> value_head (t @ r)"
  by (simp add: value_head_def)

lemma skip_ws_head: "value_head t \<Longrightarrow> skip_ws (t @ r) = t @ r"
  by (cases t) (auto simp: value_head_def skip_ws_def)

lemma scan_word_head: "scan_word f = Some (v, q) \<Longrightarrow> f \<noteq> [] \<and> hd f \<in> {110, 116, 102, 78, 73, 45} \<union> {48..57}"
  by (cases f)
    (auto simp: scan_word_def startswith_def u_def scan_number_def scan_int_def minus_sign_def is_digit_def
      split: if_splits option.splits)

lemma dumps_head:
  assumes "dumps d v = Some t" and "json_ok v"
  shows "value_head t"
proof (cases v)
  case (VInt i)
  have "value_head (digits n)" for n
    using digits_are_digits [of n] by (cases "digits n") (auto simp: is_digit_def value_head_def is_ws_def)
  moreover have "value_head (45 # s)" for s by (simp add: value_head_def is_ws_def)
  ultimately have "value_head (str_int i)" by (simp add: str_int_def)
  with VInt assms show ?thesis by (simp split: if_splits)
next
  case (VFloat f)
  with assms scan_word_head [of f "VFloat f" "[]"] show ?thesis
    by (auto simp: float_literal_def value_head_def is_ws_def)
qed (use assms in \<open>auto simp: value_head_def is_ws_def u_def json_string_def split: if_splits\<close>)

text \<open>A value that is not a string, a list or a dictionary is read as a word.\<close>

lemma scan_value_word:
  assumes "scan_word (t @ r) = Some (v, r)" and "t \<noteq> []" and "hd t \<notin> {34, 91, 123}"
  shows "scan_value (Suc n) (t @ r) = Some (v, r)"
  using assms by (cases t) auto

lemma scan_value_string:
  "scalar_text s \<Longrightarrow> scan_value (Suc n) (json_string s @ r) = Some (VStr s, r)"
  by (simp add: json_string_def scan_string_json)

lemma str_bytes_scalar:
  assumes "list_all (\<lambda>x. x < 256) bs"
  shows "scalar_text (str_bytes bs)"
proof -
  have "is_scalar c" if "c \<in> set (repr_byte q b)" "b < 256" "q < 256" for c q b
    using that by (intro is_scalar_small) (auto simp: repr_byte_def hex_digit_def split: if_splits)
  with assms show ?thesis
    by (auto simp: str_bytes_def Let_def scalar_text_def list_all_iff intro: is_scalar_small)
qed

lemma json_string_head [simp]: "value_head (json_string s @ r)" "value_head (json_string s)"
  by (simp_all add: json_string_def value_head_def is_ws_def)

lemma skip_ws_simps [simp]:
  "\<not> is_ws c \<Longrightarrow> skip_ws (c # r) = c # r"
  "is_ws c \<Longrightarrow> skip_ws (c # r) = skip_ws r"
  "skip_ws [] = []"
  by (simp_all add: skip_ws_def)

lemma is_ws_marks [simp]:
  "is_ws 32" "\<not> is_ws 34" "\<not> is_ws 44" "\<not> is_ws 58" "\<not> is_ws 91" "\<not> is_ws 93" "\<not> is_ws 123" "\<not> is_ws 125"
  by (simp_all add: is_ws_def)

lemma skip_ws_scan_string: "skip_ws (json_string s @ r) = json_string s @ r"
  by (simp add: skip_ws_head)

definition reads_value :: "pyval \<Rightarrow> pystr \<Rightarrow> bool" where
  "reads_value v t \<longleftrightarrow>
     (\<forall>n r. Suc (2 * length t) \<le> n \<longrightarrow> stops r \<longrightarrow> scan_value n (t @ r) = Some (json_norm v, r))"

lemma reads_valueI:
  assumes "\<And>n r. stops r \<Longrightarrow> 2 * length t \<le> n \<Longrightarrow> scan_value (Suc n) (t @ r) = Some (json_norm v, r)"
  shows "reads_value v t"
  unfolding reads_value_def by (metis Suc_le_D Suc_le_mono assms)

lemma reads_valueD:
  "reads_value v t \<Longrightarrow> Suc (2 * length t) \<le> n \<Longrightarrow> stops r \<Longrightarrow> scan_value n (t @ r) = Some (json_norm v, r)"
  by (simp add: reads_value_def)

definition reads_elems :: "pyval list \<Rightarrow> pystr \<Rightarrow> bool" where
  "reads_elems vs t \<longleftrightarrow> vs \<noteq> [] \<longrightarrow> value_head t \<and>
     (\<forall>n r. 2 * length t + 2 \<le> n \<longrightarrow> scan_elems n (t @ 93 # r) = Some (map json_norm vs, r))"

definition reads_items :: "(pystr \<times> pyval) list \<Rightarrow> pystr \<Rightarrow> bool" where
  "reads_items kvs t \<longleftrightarrow> kvs \<noteq> [] \<longrightarrow> value_head t \<and>
     (\<forall>n r. 2 * length t + 2 \<le> n \<longrightarrow>
       scan_members n (t @ 125 # r) = Some (map (\<lambda>(k, v). (k, json_norm v)) kvs, r))"

lemma reads_elems_one:
  assumes "reads_value v t" and "value_head t"
  shows "reads_elems [v] t"
proof -
  have "scan_elems n (t @ 93 # r) = Some ([json_norm v], r)" if "2 * length t + 2 \<le> n" for n r
  proof -
    from that obtain m where n: "n = Suc m" "Suc (2 * length t) \<le> m" by (cases n) auto
    then show ?thesis using reads_valueD [OF assms(1) n(2), of "93 # r"] by simp
  qed
  with assms(2) show ?thesis by (simp add: reads_elems_def)
qed

lemma reads_elems_more:
  assumes "reads_value v t" and "value_head t" and "reads_elems (w # vs) t'"
  shows "reads_elems (v # w # vs) (t @ [44, 32] @ t')"
proof -
  from assms(3) have t': "value_head t'"
    and el: "\<And>n r. 2 * length t' + 2 \<le> n \<Longrightarrow>
        scan_elems n (t' @ 93 # r) = Some (map json_norm (w # vs), r)"
    by (auto simp: reads_elems_def)
  have "scan_elems n ((t @ [44, 32] @ t') @ 93 # r) = Some (map json_norm (v # w # vs), r)"
    if "2 * length (t @ [44, 32] @ t') + 2 \<le> n" for n r
  proof -
    from that obtain m where n: "n = Suc m" "Suc (2 * length t) \<le> m" "2 * length t' + 2 \<le> m"
      by (cases n) auto
    then show ?thesis
      using reads_valueD [OF assms(1) n(2), of "44 # 32 # t' @ 93 # r"] el [OF n(3), of r]
      by (simp add: skip_ws_head t')
  qed
  with assms(2) show ?thesis by (simp add: reads_elems_def)
qed

lemma reads_items_one:
  assumes "reads_value v t" and "value_head t" and "scalar_text k"
  shows "reads_items [(k, v)] (json_string k @ [58, 32] @ t)"
proof -
  have "scan_members n ((json_string k @ [58, 32] @ t) @ 125 # r) = Some ([(k, json_norm v)], r)"
    if "2 * length (json_string k @ [58, 32] @ t) + 2 \<le> n" for n r
  proof -
    from that obtain m where n: "n = Suc m" "Suc (2 * length t) \<le> m" by (cases n) auto
    then show ?thesis
      using reads_valueD [OF assms(1) n(2), of "125 # r"] scan_string_json [OF assms(3)]
      by (simp add: json_string_def skip_ws_head assms(2))
  qed
  then show ?thesis by (simp add: reads_items_def)
qed

lemma reads_items_more:
  assumes "reads_value v t" and "value_head t" and "scalar_text k" and "reads_items (kv # kvs) t'"
  shows "reads_items ((k, v) # kv # kvs) (json_string k @ [58, 32] @ t @ [44, 32] @ t')"
proof -
  from assms(4) have t': "value_head t'"
    and el: "\<And>n r. 2 * length t' + 2 \<le> n \<Longrightarrow>
        scan_members n (t' @ 125 # r) = Some (map (\<lambda>(k, v). (k, json_norm v)) (kv # kvs), r)"
    by (auto simp: reads_items_def)
  have "scan_members n ((json_string k @ [58, 32] @ t @ [44, 32] @ t') @ 125 # r) =
      Some (map (\<lambda>(k, v). (k, json_norm v)) ((k, v) # kv # kvs), r)"
    if "2 * length (json_string k @ [58, 32] @ t @ [44, 32] @ t') + 2 \<le> n" for n r
  proof -
    from that obtain m where n: "n = Suc m" "Suc (2 * length t) \<le> m" "2 * length t' + 2 \<le> m"
      by (cases n) auto
    then show ?thesis
      using reads_valueD [OF assms(1) n(2), of "44 # 32 # t' @ 125 # r"] el [OF n(3), of r]
        scan_string_json [OF assms(3)]
      by (simp add: json_string_def skip_ws_head t' assms(2))
  qed
  then show ?thesis by (simp add: reads_items_def)
qed

lemma dict_of_map_values:
  "dict_wf kvs \<Longrightarrow> dict_of (map (\<lambda>(k, v). (k, f v)) kvs) = map (\<lambda>(k, v). (k, f v)) kvs"
  by (rule dict_of_distinct) (simp add: dict_wf_def comp_def case_prod_beta)

lemma reads_value_list:
  assumes "reads_elems vs t"
  shows "reads_value (VList vs) (91 # (if vs = [] then [] else t) @ [93])"
proof (cases "vs = []")
  case True
  then show ?thesis by (intro reads_valueI) simp
next
  case False
  with assms have t: "value_head t"
    and el: "\<And>n r. 2 * length t + 2 \<le> n \<Longrightarrow> scan_elems n (t @ 93 # r) = Some (map json_norm vs, r)"
    by (auto simp: reads_elems_def)
  from t obtain c t0 where ct: "t = c # t0" "c \<noteq> 93" by (cases t) (auto simp: value_head_def)
  show ?thesis
  proof (rule reads_valueI)
    fix n r assume "2 * length (91 # (if vs = [] then [] else t) @ [93]) \<le> n"
    then have "2 * length t + 2 \<le> n" using False by simp
    from el [OF this, of r] ct skip_ws_head [OF t, of "93 # r"] False
    show "scan_value (Suc n) ((91 # (if vs = [] then [] else t) @ [93]) @ r) = Some (json_norm (VList vs), r)"
      by simp
  qed
qed

lemma reads_value_dict:
  assumes "reads_items kvs t" and "dict_wf kvs"
  shows "reads_value (VDict kvs) (123 # (if kvs = [] then [] else t) @ [125])"
proof (cases "kvs = []")
  case True
  then show ?thesis by (intro reads_valueI) simp
next
  case False
  with assms have t: "value_head t"
    and el: "\<And>n r. 2 * length t + 2 \<le> n \<Longrightarrow>
      scan_members n (t @ 125 # r) = Some (map (\<lambda>(k, v). (k, json_norm v)) kvs, r)"
    by (auto simp: reads_items_def)
  from t obtain c t0 where ct: "t = c # t0" "c \<noteq> 125" by (cases t) (auto simp: value_head_def)
  show ?thesis
  proof (rule reads_valueI)
    fix n r assume "2 * length (123 # (if kvs = [] then [] else t) @ [125]) \<le> n"
    then have "2 * length t + 2 \<le> n" using False by simp
    from el [OF this, of r] ct skip_ws_head [OF t, of "125 # r"] False dict_of_map_values [OF assms(2)]
    show "scan_value (Suc n) ((123 # (if kvs = [] then [] else t) @ [125]) @ r) = Some (json_norm (VDict kvs), r)"
      by simp
  qed
qed

lemma dumps_elems_Nil_iff: "dumps_elems d [] = Some t \<longleftrightarrow> t = []" "dumps_items d [] = Some t \<longleftrightarrow> t = []"
  by auto

lemma dumps_reads:
  "dumps d v = Some t \<Longrightarrow> json_ok v \<Longrightarrow> reads_value v t"
  "dumps_elems d vs = Some t \<Longrightarrow> (\<forall>v \<in> set vs. json_ok v) \<Longrightarrow> reads_elems vs t"
  "dumps_items d kvs = Some t \<Longrightarrow> (\<forall>kv \<in> set kvs. scalar_text (fst kv) \<and> json_ok (snd kv)) \<Longrightarrow> reads_items kvs t"
proof (induction d v and d vs and d kvs arbitrary: t and t and t rule: dumps_dumps_elems_dumps_items.induct)
  case (1 d)
  then show ?case by (intro reads_valueI) (auto simp: scan_word_def startswith_def u_def)
next
  case (2 d b)
  then show ?case by (intro reads_valueI) (auto simp: scan_word_def startswith_def u_def)
next
  case (3 d i)
  then have len: "length (digits (nat \<bar>i\<bar>)) \<le> max_str_digits" and t: "t = str_int i"
    by (auto split: if_splits)
  have "value_head t" using dumps_head [OF "3.prems"] .
  moreover have "hd t \<notin> {34, 91, 123}"
    using str_int_head [of i] by (auto simp: t)
  ultimately show ?case
    by (intro reads_valueI) (simp add: t scan_value_word value_head_def scan_word_int [OF len] del: scan_value.simps)
next
  case (4 d f)
  then have f: "float_literal f" and t: "t = f" by auto
  have "value_head t" using dumps_head [OF "4.prems"] .
  moreover have "hd t \<notin> {34, 91, 123}"
    using f scan_word_head [of f "VFloat f" "[]"] by (auto simp: float_literal_def t)
  ultimately show ?case
    by (intro reads_valueI) (simp add: t scan_value_word value_head_def scan_word_append [OF f] del: scan_value.simps)
next
  case (5 d s)
  then show ?case by (intro reads_valueI) (auto simp: scan_value_string simp del: scan_value.simps)
next
  case (6 d b)
  then show ?case by (intro reads_valueI) (auto simp: scan_value_string str_bytes_scalar simp del: scan_value.simps split: if_splits)
next
  case (7 d vs)
  then obtain t0 where t0: "dumps_elems d vs = Some t0" and t: "t = 91 # t0 @ [93]" by auto
  have "reads_elems vs t0" using "7.IH" t0 "7.prems" by simp
  from reads_value_list [OF this] t0 show ?case by (cases "vs = []") (auto simp: t)
next
  case (8 d kvs)
  then obtain t0 where t0: "dumps_items d kvs = Some t0" and t: "t = 123 # t0 @ [125]" by auto
  have "reads_items kvs t0" using "8.IH" t0 "8.prems" by simp
  from reads_value_dict [OF this] t0 "8.prems" show ?case by (cases "kvs = []") (auto simp: t)
next
  case (9 d s)
  then show ?case by (intro reads_valueI) (auto simp: scan_value_string simp del: scan_value.simps split: if_splits)
next
  case (10 d)
  then show ?case by (simp add: reads_elems_def)
next
  case (11 d v)
  then show ?case by (auto intro: reads_elems_one dumps_head)
next
  case (12 d v w vs)
  then obtain t1 t2 where "dumps d v = Some t1" "dumps_elems d (w # vs) = Some t2" "t = t1 @ [44, 32] @ t2"
    by (auto split: option.splits)
  with 12 show ?case using reads_elems_more [of v t1 w vs t2] by (auto intro: dumps_head)
next
  case (13 d)
  then show ?case by (simp add: reads_items_def)
next
  case (14 d k v)
  then obtain t1 where "dumps d v = Some t1" "t = json_string k @ [58, 32] @ t1" by auto
  with 14 show ?case using reads_items_one [of v t1 k] by (auto intro: dumps_head)
next
  case (15 d k v kv kvs)
  then obtain t1 t2 where "dumps d v = Some t1" "dumps_items d (kv # kvs) = Some t2"
      "t = json_string k @ [58, 32] @ t1 @ [44, 32] @ t2"
    by (auto split: option.splits)
  with 15 show ?case using reads_items_more [of v t1 k kv kvs t2] by (auto intro: dumps_head)
qed

theorem loads_dumps:
  assumes "dumps d v = Some t" and "json_ok v"
  shows "loads t = Some (json_norm v)"
proof -
  have t: "value_head t" by (rule dumps_head [OF assms])
  have "hd t \<noteq> 0xFEFF"
  proof (cases v)
    case (VInt i)
    then show ?thesis using assms str_int_head [of i] by (auto split: if_splits)
  next
    case (VFloat f)
    then show ?thesis
      using assms scan_word_head [of f "VFloat f" "[]"] by (auto simp: float_literal_def)
  qed (use assms in \<open>auto simp: u_def json_string_def split: if_splits\<close>)
  moreover have "scan_value (json_fuel t) (skip_ws t) = Some (json_norm v, [])"
    using reads_valueD [OF dumps_reads(1) [OF assms], of "json_fuel t" "[]"] skip_ws_head [OF t, of "[]"]
    by (simp add: json_fuel_def)
  ultimately show ?thesis by (simp add: loads_def)
qed

section \<open>The fuel of the reader is enough\<close>

lemma skip_ws_length: "length (skip_ws s) \<le> length s"
  by (simp add: skip_ws_def length_dropWhile_le)

lemma skip_ws_Cons: "skip_ws r = c # r' \<Longrightarrow> length r' < length r"
  using skip_ws_length [of r] by simp

lemma scan_number_shorter: "scan_number s = Some (v, r) \<Longrightarrow> length r < length s"
proof -
  have i: "length q < length s" if "scan_int s = Some (ip, q)" for ip q
    using that by (cases s) (auto simp: scan_int_def minus_sign_def int_part_def Let_def split: if_splits)
  have f: "length q \<le> length s" if "scan_frac s = (fr, q)" for s fr q
    using that by (auto simp: scan_frac_def Let_def split: list.splits if_splits)
  have e: "length q \<le> length s" if "scan_exp s = (ex, q)" for s ex q
    using that by (auto simp: scan_exp_def Let_def split: list.splits if_splits)
  show "scan_number s = Some (v, r) \<Longrightarrow> length r < length s"
    by (auto simp: scan_number_def split: option.splits prod.splits if_splits dest!: i f e)
qed

lemma scan_word_shorter: "scan_word s = Some (v, r) \<Longrightarrow> length r < length s"
  by (cases s) (auto simp: scan_word_def startswith_def u_def split: if_splits option.splits
      dest: scan_number_shorter)

lemma scan_shorter:
  "scan_value n s = Some (v, r) \<Longrightarrow> length r < length s"
  "scan_elems n s = Some (vs, r) \<Longrightarrow> length r < length s"
  "scan_members n s = Some (kvs, r) \<Longrightarrow> length r < length s"
proof (induction n s and n s and n s arbitrary: v r and vs r and kvs r
    rule: scan_value_scan_elems_scan_members.induct)
  case (2 n s)
  then show ?case
    by (auto split: list.splits if_splits dest: scan_string_shorter scan_word_shorter)
      (metis (no_types) skip_ws_Cons Suc_lessD le_less_trans less_Suc_eq less_imp_le length_Cons)+
next
  case (4 n s)
  then show ?case
    by (auto split: list.splits option.splits if_splits)
      (meson skip_ws_Cons skip_ws_length le_less_trans less_trans)+
next
  case (6 n s)
  from "6.prems" obtain r0 where s: "s = 34 # r0"
    by (auto split: list.splits if_splits)
  with "6.prems" obtain k r1 where k: "scan_string r0 = Some (k, r1)"
    by (auto split: option.splits)
  with "6.prems" s obtain r2 where c: "skip_ws r1 = 58 # r2"
    by (auto split: list.splits if_splits)
  with "6.prems" s k obtain v r3 where v: "scan_value n (skip_ws r2) = Some (v, r3)"
    by (auto split: option.splits)
  with "6.prems" s k c obtain e r4 where e: "skip_ws r3 = e # r4"
      "r = r4 \<or> (e = 44 \<and> (\<exists>kvs'. scan_members n (skip_ws r4) = Some (kvs', r)))"
    by (auto split: list.splits if_splits)
  have "length r3 < length (skip_ws r2)"
    by (rule "6.IH"(1) [OF s _ k refl c _ v]) simp_all
  then have "length r4 < length s"
    using s scan_string_shorter [OF k] skip_ws_Cons [OF c] skip_ws_length [of r2] skip_ws_Cons [OF e(1)]
    by simp
  moreover have "length r \<le> length r4"
  proof (cases "r = r4")
    case False
    with e(2) obtain kvs' where m: "e = 44" "scan_members n (skip_ws r4) = Some (kvs', r)" by auto
    have "length r < length (skip_ws r4)"
      by (rule "6.IH"(2) [OF s _ k refl c _ v refl e(1) _ _ m(2)]) (simp_all add: m(1))
    with skip_ws_length [of r4] show ?thesis by simp
  qed simp
  ultimately show ?case by simp
qed auto

lemma scan_fuel_step:
  "Suc (2 * length s) \<le> n \<Longrightarrow> scan_value (Suc n) s = scan_value n s"
  "2 * length s + 2 \<le> n \<Longrightarrow> scan_elems (Suc n) s = scan_elems n s"
  "2 * length s + 2 \<le> n \<Longrightarrow> scan_members (Suc n) s = scan_members n s"
proof (induction n arbitrary: s and s and s)
  case 0
  { case 1 then show ?case by simp }
  { case 2 then show ?case by simp }
  { case 3 then show ?case by simp }
next
  case (Suc n)
  {
    case 1
    have "scan_members (Suc n) (skip_ws r) = scan_members n (skip_ws r)"
      "scan_elems (Suc n) (skip_ws r) = scan_elems n (skip_ws r)" if "s = c # r" for c r
      using Suc.IH(2,3) [of "skip_ws r"] 1 that skip_ws_length [of r] by simp_all
    then show ?case
      by (cases s) (auto split: list.splits)
  next
    case 2
    have "scan_elems (Suc n) (skip_ws r') = scan_elems n (skip_ws r')"
      if "scan_value n s = Some (v, r)" "skip_ws r = c # r'" for v r c r'
      using Suc.IH(2) [of "skip_ws r'"] 2 scan_shorter(1) [OF that(1)] skip_ws_Cons [OF that(2)]
        skip_ws_length [of r'] by simp
    with Suc.IH(1) [of s] 2 show ?case
      by (auto split: option.splits list.splits)
  next
    case 3
    have *: "scan_value (Suc n) (skip_ws r2) = scan_value n (skip_ws r2)"
      if "s = 34 # r0" "scan_string r0 = Some (k, r1)" "skip_ws r1 = c # r2" for r0 k r1 c r2
      using Suc.IH(1) [of "skip_ws r2"] 3 that(1) scan_string_shorter [OF that(2)] skip_ws_Cons [OF that(3)]
        skip_ws_length [of r2] by simp
    have "scan_members (Suc n) (skip_ws r4) = scan_members n (skip_ws r4)"
      if "s = 34 # r0" "scan_string r0 = Some (k, r1)" "skip_ws r1 = c # r2"
        "scan_value n (skip_ws r2) = Some (v, r3)" "skip_ws r3 = e # r4" for r0 k r1 c r2 v r3 e r4
      using Suc.IH(3) [of "skip_ws r4"] 3 that(1) scan_string_shorter [OF that(2)] skip_ws_Cons [OF that(3)]
        skip_ws_length [of r2] scan_shorter(1) [OF that(4)] skip_ws_Cons [OF that(5)] skip_ws_length [of r4]
      by simp
    with * show ?case
      by (simp del: skip_ws_simps split: option.split list.split)
  }
qed

text \<open>With the fuel \<open>loads\<close> gives, the result does not depend on the fuel any more.\<close>

theorem json_fuel_enough: "json_fuel s \<le> n \<Longrightarrow> scan_value n s = scan_value (json_fuel s) s"
proof (induction n rule: dec_induct)
  case (step n)
  then show ?case using scan_fuel_step(1) [of s n] by (simp add: json_fuel_def)
qed simp

section \<open>The contract\<close>

text \<open>
  What the clients of JSON rely on: a text that was written reads back as the same value, up
  to the objects that were written as their text.
\<close>

locale json_codec =
  fixes encode :: "pyval \<Rightarrow> pystr option"
    and decode :: "pystr \<Rightarrow> pyval option"
    and good :: "pyval \<Rightarrow> bool"
    and norm :: "pyval \<Rightarrow> pyval"
  assumes decode_encode: "encode v = Some t \<Longrightarrow> good v \<Longrightarrow> decode t = Some (norm v)"
begin

lemma encode_inj: "encode v = Some t \<Longrightarrow> encode w = Some t \<Longrightarrow> good v \<Longrightarrow> good w \<Longrightarrow> norm v = norm w"
  by (metis decode_encode option.inject)

end

interpretation json_str: json_codec "dumps True" loads json_ok json_norm
  by unfold_locales (rule loads_dumps)

interpretation json_strict: json_codec "dumps False" loads json_ok json_norm
  by unfold_locales (rule loads_dumps)

end
