(* ===== verification/Exceptions.thy ===== *)
theory Exceptions imports Json begin

text \<open>
  The exceptions of \<open>exceptions.py\<close> and those of the libraries the package tells apart, and
  the HTTP answers \<open>fastapi_utils.py\<close> gives for them.
\<close>

section \<open>Exceptions\<close>

text \<open>
  \<open>AtsigError\<close> and its subclasses carry a message; an \<open>UpstreamError\<close> a status too. Other
  exceptions of the standard library or of a client library are \<open>Builtin\<close>: their class name
  and their text. \<open>CancelledError\<close> is the one that is not an \<open>Exception\<close>.
\<close>

datatype exn =
    AtsigError pystr
  | NotFoundError pystr
  | ForbiddenError pystr
  | UnauthorizedError pystr
  | BadRequestError pystr
  | ConflictError pystr
  | UpstreamError pystr int
  | ServiceUnavailableError pystr
  | NonRetryableError pystr
  | InvalidMessageError pystr
  | HTTPException int pystr "(pystr, pystr) dict"
  | Builtin string pystr
  | CancelledError

definition is_Exception :: "exn \<Rightarrow> bool" where
  "is_Exception e \<longleftrightarrow> e \<noteq> CancelledError"

lemma is_Exception_simps [simp]:
  "is_Exception (AtsigError m)" "is_Exception (NotFoundError m)" "is_Exception (ForbiddenError m)"
  "is_Exception (UnauthorizedError m)" "is_Exception (BadRequestError m)" "is_Exception (ConflictError m)"
  "is_Exception (UpstreamError m i)" "is_Exception (ServiceUnavailableError m)"
  "is_Exception (NonRetryableError m)" "is_Exception (InvalidMessageError m)"
  "is_Exception (HTTPException i m h)" "is_Exception (Builtin n m)" "\<not> is_Exception CancelledError"
  by (simp_all add: is_Exception_def)

lemma is_Exception_iff: "\<not> is_Exception e \<longleftrightarrow> e = CancelledError"
  by (simp add: is_Exception_def)

text \<open>A program that raises nothing but an \<open>Exception\<close>: it is not cancelled.\<close>

definition raises_exceptions :: "('s, exn, 'a) prog \<Rightarrow> bool" where
  "raises_exceptions m \<longleftrightarrow> (\<forall>s e s'. m s = (Inl e, s') \<longrightarrow> is_Exception e)"

lemma raises_exceptions_intros [triple_intros]:
  "raises_exceptions (ret a)" "raises_exceptions (getM f)" "raises_exceptions (modifyM g)"
  "is_Exception e \<Longrightarrow> raises_exceptions (raise e)"
  "(\<And>e. r = Inl e \<Longrightarrow> is_Exception e) \<Longrightarrow> raises_exceptions (liftE r)"
  by (simp_all add: raises_exceptions_def prog_defs)

lemma raises_exceptions_bind:
  "raises_exceptions m \<Longrightarrow> (\<And>a. raises_exceptions (f a)) \<Longrightarrow> raises_exceptions (bindM m f)"
  unfolding raises_exceptions_def bindM_def by (fastforce split: prod.splits sum.splits)

lemma raises_exceptions_then: "raises_exceptions m \<Longrightarrow> raises_exceptions n \<Longrightarrow> raises_exceptions (thenM m n)"
  unfolding thenM_def by (rule raises_exceptions_bind)

lemma caught_returns:
  assumes "raises_exceptions m" and "catchM is_Exception m (\<lambda>_. ret a) s = (r, s')"
  shows "\<exists>v. r = Inr v"
  using assms unfolding raises_exceptions_def catchM_def ret_def
  by (fastforce split: prod.splits sum.splits if_splits)

text \<open>\<open>type(e).__name__\<close> and \<open>str(e)\<close>.\<close>

fun exn_name :: "exn \<Rightarrow> pystr" where
  "exn_name (AtsigError _) = u ''AtsigError''"
| "exn_name (NotFoundError _) = u ''NotFoundError''"
| "exn_name (ForbiddenError _) = u ''ForbiddenError''"
| "exn_name (UnauthorizedError _) = u ''UnauthorizedError''"
| "exn_name (BadRequestError _) = u ''BadRequestError''"
| "exn_name (ConflictError _) = u ''ConflictError''"
| "exn_name (UpstreamError _ _) = u ''UpstreamError''"
| "exn_name (ServiceUnavailableError _) = u ''ServiceUnavailableError''"
| "exn_name (NonRetryableError _) = u ''NonRetryableError''"
| "exn_name (InvalidMessageError _) = u ''InvalidMessageError''"
| "exn_name (HTTPException _ _ _) = u ''HTTPException''"
| "exn_name (Builtin n _) = u n"
| "exn_name CancelledError = u ''CancelledError''"

fun exn_text :: "exn \<Rightarrow> pystr" where
  "exn_text (AtsigError m) = m"
| "exn_text (NotFoundError m) = m"
| "exn_text (ForbiddenError m) = m"
| "exn_text (UnauthorizedError m) = m"
| "exn_text (BadRequestError m) = m"
| "exn_text (ConflictError m) = m"
| "exn_text (UpstreamError m _) = m"
| "exn_text (ServiceUnavailableError m) = m"
| "exn_text (NonRetryableError m) = m"
| "exn_text (InvalidMessageError m) = m"
| "exn_text (HTTPException i m _) = str_int i @ u '': '' @ m"
| "exn_text (Builtin _ m) = m"
| "exn_text CancelledError = []"

text \<open>The defaults of the constructors.\<close>

definition atsig_default :: pystr where
  "atsig_default = u ''An error occurred''"

definition upstream_message :: pystr where
  "upstream_message =
     u ''A service this one depends on did not answer correctly. Please try again later.''"

definition upstream_default :: exn where
  "upstream_default = UpstreamError upstream_message 502"

section \<open>The answers of the exception handlers\<close>

record response =
  status :: int
  content :: pyval
  resp_headers :: "(pystr, pystr) dict"

definition json_detail :: "int \<Rightarrow> pystr \<Rightarrow> response" where
  "json_detail code m = \<lparr>status = code, content = VDict [(u ''detail'', VStr m)], resp_headers = []\<rparr>"

text \<open>
  The handler of the most specific class answers; \<open>None\<close> is an exception that none of the
  registered handlers is for.
\<close>

fun atsig_handler :: "exn \<Rightarrow> response option" where
  "atsig_handler (AtsigError m) = Some (json_detail 500 m)"
| "atsig_handler (NotFoundError m) = Some (json_detail 404 m)"
| "atsig_handler (ForbiddenError m) = Some (json_detail 403 m)"
| "atsig_handler (UnauthorizedError m) = Some (json_detail 401 m)"
| "atsig_handler (BadRequestError m) = Some (json_detail 400 m)"
| "atsig_handler (ConflictError m) = Some (json_detail 409 m)"
| "atsig_handler (ServiceUnavailableError m) =
     Some ((json_detail 503 m)\<lparr>resp_headers := [(u ''Retry-After'', u ''5'')]\<rparr>)"
| "atsig_handler (UpstreamError m code) = Some (json_detail code m)"
| "atsig_handler _ = None"

text \<open>\<open>error.get(k)\<close>, and \<open>list(error.get("loc", ()))\<close> for a location given as a list.\<close>

definition get_or_none :: "(pystr, pyval) dict \<Rightarrow> pystr \<Rightarrow> pyval" where
  "get_or_none d k = (case map_of d k of None \<Rightarrow> VNone | Some v \<Rightarrow> v)"

definition loc_of :: "(pystr, pyval) dict \<Rightarrow> pyval" where
  "loc_of d = (case map_of d (u ''loc'') of None \<Rightarrow> VList [] | Some v \<Rightarrow> v)"

definition validation_entry :: "(pystr, pyval) dict \<Rightarrow> pyval" where
  "validation_entry e =
     VDict [(u ''type'', get_or_none e (u ''type'')), (u ''loc'', loc_of e), (u ''msg'', get_or_none e (u ''msg''))]"

definition validation_handler :: "(pystr, pyval) dict list \<Rightarrow> response" where
  "validation_handler errors =
     \<lparr>status = 422, content = VDict [(u ''detail'', VList (map validation_entry errors))], resp_headers = []\<rparr>"

text \<open>Two errors that differ only in what the client sent look the same in the answer.\<close>

definition same_problem :: "(pystr, pyval) dict \<Rightarrow> (pystr, pyval) dict \<Rightarrow> bool" where
  "same_problem e f \<longleftrightarrow> (\<forall>k \<in> {u ''type'', u ''loc'', u ''msg''}. map_of e k = map_of f k)"

lemma validation_entry_same: "same_problem e f \<Longrightarrow> validation_entry e = validation_entry f"
  by (simp add: same_problem_def validation_entry_def get_or_none_def loc_of_def)

lemma validation_handler_same:
  "list_all2 same_problem es fs \<Longrightarrow> validation_handler es = validation_handler fs"
  unfolding validation_handler_def
  by (induction rule: list_all2_induct) (auto simp: validation_entry_same)

lemma atsig_handler_status:
  assumes "atsig_handler e = Some r"
  shows "status r \<in> {400, 401, 403, 404, 409, 500, 503} \<or> (\<exists>m. e = UpstreamError m (status r))"
  using assms by (cases e) (auto simp: json_detail_def)

end
