(* ===== verification/RequestContext.thy ===== *)
theory RequestContext imports JsonCodec Exceptions begin

text \<open>
  The request id and the other context variables of the logs: \<open>logger/context.py\<close>, the
  formatter of \<open>logger/config.py\<close> and the middleware of \<open>logger/middleware.py\<close>.
\<close>

section \<open>Request ids\<close>

definition no_request_id :: pystr where
  "no_request_id = u ''-''"

definition is_id_char :: "nat \<Rightarrow> bool" where
  "is_id_char c \<longleftrightarrow> is_alpha c \<or> is_digit c \<or> c = 46 \<or> c = 95 \<or> c = 45"

text \<open>A full match of the pattern \<open>[A-Za-z0-9._-]{1,64}\<close>.\<close>

definition request_id_pattern :: "pystr \<Rightarrow> bool" where
  "request_id_pattern s \<longleftrightarrow> 1 \<le> length s \<and> length s \<le> 64 \<and> list_all is_id_char s"

fun is_valid_request_id :: "pyval \<Rightarrow> bool" where
  "is_valid_request_id (VStr s) \<longleftrightarrow> s \<noteq> no_request_id \<and> request_id_pattern s"
| "is_valid_request_id _ \<longleftrightarrow> False"

lemmas valid_id_iff = is_valid_request_id.simps(1)

declare is_valid_request_id.simps [simp del]

definition current_request_id :: "pystr \<Rightarrow> pystr option" where
  "current_request_id rid = (if is_valid_request_id (VStr rid) then Some rid else None)"

text \<open>\<open>resolve_request_id\<close>: \<open>fresh\<close> is the generated id, eight hexadecimal digits.\<close>

definition resolve_request_id :: "pystr option \<Rightarrow> pystr \<Rightarrow> pystr" where
  "resolve_request_id incoming fresh = (case incoming of
     None \<Rightarrow> fresh
   | Some s \<Rightarrow> (if is_valid_request_id (VStr s) then s else fresh))"

definition hex8 :: "pystr \<Rightarrow> bool" where
  "hex8 s \<longleftrightarrow> length s = 8 \<and> list_all (\<lambda>c. is_digit c \<or> (97 \<le> c \<and> c \<le> 102)) s"

lemma hex8_valid: "hex8 s \<Longrightarrow> is_valid_request_id (VStr s)"
  by (auto simp: valid_id_iff hex8_def request_id_pattern_def no_request_id_def list_all_iff is_id_char_def is_alpha_def u_def)

lemma resolve_request_id_valid: "hex8 fresh \<Longrightarrow> is_valid_request_id (VStr (resolve_request_id incoming fresh))"
  by (auto simp: resolve_request_id_def hex8_valid split: option.split)

text \<open>A valid id is safe in a log line, a header and JSON: nothing in it needs an escape.\<close>

lemma valid_id_chars:
  assumes "is_valid_request_id (VStr s)" and "c \<in> set s"
  shows "33 \<le> c \<and> c \<le> 126 \<and> c \<noteq> 34 \<and> c \<noteq> 92"
  using assms
  by (auto simp: valid_id_iff request_id_pattern_def list_all_iff is_id_char_def is_alpha_def is_digit_def)

lemma valid_id_scalar: "is_valid_request_id (VStr s) \<Longrightarrow> scalar_text s"
  by (fastforce simp: scalar_text_def list_all_iff intro: is_scalar_small dest: valid_id_chars)

lemma valid_id_nonempty: "is_valid_request_id (VStr s) \<Longrightarrow> s \<noteq> []"
  by (auto simp: valid_id_iff request_id_pattern_def)

section \<open>The log line\<close>

record log_context =
  request_id :: pystr
  user_id :: "pystr option"
  user_email :: "pystr option"

text \<open>\<open>v or default\<close> for an optional string.\<close>

definition or_default :: "pystr option \<Rightarrow> string \<Rightarrow> pystr" where
  "or_default v d = (case v of None \<Rightarrow> u d | Some s \<Rightarrow> (if s = [] then u d else s))"

record log_record =
  timestamp :: pystr
  levelname :: pystr
  logger_name :: pystr
  message :: pystr
  exc_text :: "pystr option"

text \<open>\<open>UnifiedFormatter.format\<close>, up to the last step that writes the dictionary as JSON.\<close>

definition log_fields :: "bool \<Rightarrow> log_context \<Rightarrow> log_record \<Rightarrow> (pystr, pystr) dict" where
  "log_fields include_user_email ctx r =
     (let d = [(u ''timestamp'', timestamp r), (u ''level'', levelname r),
               (u ''request_id'', request_id ctx),
               (u ''user_id'', or_default (user_id ctx) ''anonymous''),
               (u ''user_email'', or_default (user_email ctx) ''no-email''),
               (u ''logger'', logger_name r), (u ''message'', message r)];
          d = (if include_user_email then d else AList.delete (u ''user_email'') d)
      in (case exc_text r of None \<Rightarrow> d | Some t \<Rightarrow> AList.update (u ''exception'') t d))"

lemma log_fields_no_email:
  "log_fields False (ctx\<lparr>user_email := e\<rparr>) r = log_fields False ctx r"
  by (cases "exc_text r") (simp_all add: log_fields_def Let_def u_def)

section \<open>The middleware\<close>

text \<open>
  The request as far as the middleware reads it; \<open>route\<close> is the template of the matched
  route, set by the router while the request is handled.
\<close>

record http_request =
  http_method :: pystr
  path :: pystr
  h_request_id :: "pystr option"
  h_authorization :: "pystr option"
  client_host :: "pystr option"

definition loggable_path :: "pystr option \<Rightarrow> http_request \<Rightarrow> pystr" where
  "loggable_path route rq = (case route of
     Some t \<Rightarrow> (if t \<noteq> [] then t else take 200 (path rq))
   | None \<Rightarrow> take 200 (path rq))"

text \<open>
  The claims the token names, read without verification (\<open>jwt.decode\<close>, a parameter): the
  second part of the header, when it starts with \<open>Bearer \<close>. An exception leaves both unset.
\<close>

type_synonym jwt_peek = "pystr \<Rightarrow> (exn + ((pystr option) \<times> (pystr option)))"

definition bearer_user :: "jwt_peek \<Rightarrow> bool \<Rightarrow> pystr option \<Rightarrow> pystr option \<times> pystr option" where
  "bearer_user peek include_user_email auth = (case auth of
     None \<Rightarrow> (None, None)
   | Some h \<Rightarrow>
       (if startswith h (u ''Bearer '') then
          (case peek (split_on 32 h ! 1) of
             Inl _ \<Rightarrow> (None, None)
           | Inr (sub, email) \<Rightarrow> (sub, if include_user_email then email else None))
        else (None, None)))"

text \<open>The separator is in the header, so the second part exists.\<close>

lemma bearer_split: "startswith h (u ''Bearer '') \<Longrightarrow> 2 \<le> length (split_on 32 h)"
proof -
  assume "startswith h (u ''Bearer '')"
  then obtain t where "h = u ''Bearer'' @ 32 # t"
    by (auto simp: startswith_iff u_def)
  then have "split_on 32 h = split_on 32 (u ''Bearer'') @ split_on 32 t"
    by (simp only: split_on_append)
  moreover have "1 \<le> length (split_on 32 s)" for s
    by (cases "split_on 32 s") auto
  ultimately show ?thesis by (metis add_mono length_append one_add_one)
qed

text \<open>
  \<open>dispatch\<close>. The rest of the application is \<open>call_next\<close>: it runs in the context the
  middleware set, may change it, and answers (status and headers) with the route it matched, or
  raises. The lines written to the access log are kept in the state.
\<close>

record 'w mstate =
  mworld :: 'w
  ctx :: log_context
  log_lines :: "(log_context \<times> pystr) list"

type_synonym 'w endpoint =
  "('w mstate, exn, int \<times> (pystr, pystr) dict) prog"

definition access_line :: "http_request \<Rightarrow> pystr option \<Rightarrow> int \<Rightarrow> pystr \<Rightarrow> pystr" where
  "access_line rq route code elapsed =
     (case client_host rq of None \<Rightarrow> u ''unknown'' | Some h \<Rightarrow> h) @ u '' - '' @
     [34] @ http_method rq @ [32] @ loggable_path route rq @ [34, 32] @ str_int code @ u '' ('' @ elapsed @ u ''s)''"

definition dispatch ::
  "jwt_peek \<Rightarrow> bool \<Rightarrow> pystr \<Rightarrow> pystr \<Rightarrow> http_request \<Rightarrow> pystr option \<Rightarrow> 'w endpoint
   \<Rightarrow> ('w mstate, exn, int \<times> (pystr, pystr) dict) prog" where
  "dispatch peek include_user_email fresh elapsed rq route call_next = (\<lambda>s.
     let rid = resolve_request_id (h_request_id rq) fresh;
         (uid, email) = bearer_user peek include_user_email (h_authorization rq);
         old = ctx s;
         s1 = s\<lparr>ctx := \<lparr>request_id = rid, user_id = uid, user_email = email\<rparr>\<rparr>
     in finallyM
          (catchM is_Exception
            (bindM call_next (\<lambda>(code, hs).
               thenM (modifyM (\<lambda>s. s\<lparr>log_lines := log_lines s @ [(ctx s, access_line rq route code elapsed)]\<rparr>))
                 (ret (code, AList.update (u ''x-request-id'') rid hs))))
            (\<lambda>e. thenM (modifyM (\<lambda>s. s\<lparr>log_lines := log_lines s @ [(ctx s,
                 u ''Unhandled exception during '' @ http_method rq @ [32] @ loggable_path route rq)]\<rparr>))
               (raise e)))
          (modifyM (\<lambda>s. s\<lparr>ctx := old\<rparr>)) s1)"

lemma dispatch_restores_ctx: "ctx (snd (dispatch peek inc fresh el rq route call_next s)) = ctx s"
  by (simp add: dispatch_def Let_def finallyM_def modifyM_def split: prod.split)


text \<open>A request of a client that sent its own id.\<close>

definition example_request :: http_request where
  "example_request = \<lparr>http_method = u ''GET'', path = u ''/calls'', h_request_id = Some (u ''req-1''),
     h_authorization = None, client_host = None\<rparr>"


text \<open>
  With \<open>include_user_email\<close> off, a log line does not depend on the email of the user at all.
\<close>

theorem log_line_without_email:
  "log_fields False (c\<lparr>user_email := e\<rparr>) r = log_fields False (c\<lparr>user_email := e'\<rparr>) r"
  by (simp only: log_fields_no_email)

end
