(* ===== verification/Numbers.thy ===== *)
theory Numbers imports Exceptions Complex_Main begin

text \<open>
  The numbers of the retry delays: a Python number is an \<open>int\<close> without bound or a \<open>float\<close>,
  and the product with a power of two behaves differently for the two. The contract of a
  growing delay is the locale \<open>backoff\<close>.
\<close>

section \<open>Numbers\<close>

text \<open>
  A float is kept as its exact value. Scaling by a power of two is exact, or overflows to an
  infinity, which compares with a finite limit as the exact product does.
\<close>

datatype pynum = PInt int | PFloat rat

fun num_value :: "pynum \<Rightarrow> rat" where
  "num_value (PInt i) = of_int i"
| "num_value (PFloat q) = q"

text \<open>The value of a float literal other than \<open>NaN\<close> and the infinities.\<close>

definition float_value :: "pystr \<Rightarrow> rat" where
  "float_value f = (case scan_int f of None \<Rightarrow> 0 | Some (ip, r) \<Rightarrow>
     (case scan_frac r of (fr, r') \<Rightarrow> (case scan_exp r' of (ex, _) \<Rightarrow>
        (let m = of_nat (num_of (filter is_digit (ip @ fr))) :: rat; k = num_of (filter is_digit ex);
             v = (if 45 \<in> set ex then m / 10 ^ k else m * 10 ^ k) / 10 ^ (length fr - 1)
         in if ip \<noteq> [] \<and> hd ip = 45 then - v else v))))"

text \<open>
  \<open>x * 2 ** k\<close>: the power is an \<open>int\<close>; multiplied with a float it is converted first, which
  raises when it does not fit.
\<close>

fun scale_pow2 :: "pynum \<Rightarrow> nat \<Rightarrow> exn + pynum" where
  "scale_pow2 (PInt i) k = Inr (PInt (i * 2 ^ k))"
| "scale_pow2 (PFloat q) k =
     (if 1024 \<le> k then Inl (Builtin ''OverflowError'' (u ''int too large to convert to float''))
      else Inr (PFloat (q * 2 ^ k)))"

lemma scale_pow2_value: "scale_pow2 x k = Inr y \<Longrightarrow> num_value y = num_value x * 2 ^ k"
  by (cases x) (auto split: if_splits)

lemma scale_pow2_error: "scale_pow2 x k = Inl e \<Longrightarrow> is_Exception e \<and> 1024 \<le> k"
  by (cases x) (auto split: if_splits)

lemma scale_pow2_ok: "k < 1024 \<Longrightarrow> \<exists>y. scale_pow2 x k = Inr y"
  by (cases x) auto

text \<open>\<open>min(a, b)\<close>: the first of two equal values.\<close>

definition py_min :: "pynum \<Rightarrow> pynum \<Rightarrow> pynum" where
  "py_min a b = (if num_value b < num_value a then b else a)"

lemma num_value_py_min [simp]: "num_value (py_min a b) = min (num_value a) (num_value b)"
  by (simp add: py_min_def min_def)

section \<open>Delays that grow\<close>

text \<open>
  The contract of the delays between attempts: the first is \<open>base\<close> at most, they never shrink, and
  each is at most twice the one before.
\<close>

locale backoff =
  fixes wait :: "'c \<Rightarrow> nat \<Rightarrow> rat"
    and base :: "'c \<Rightarrow> rat"
    and ok :: "'c \<Rightarrow> bool"
  assumes wait_first: "ok c \<Longrightarrow> 0 \<le> wait c 0 \<and> wait c 0 \<le> base c"
    and wait_grows: "ok c \<Longrightarrow> wait c n \<le> wait c (Suc n)"
    and wait_doubles: "ok c \<Longrightarrow> wait c (Suc n) \<le> 2 * wait c n"
begin

lemma wait_mono: "ok c \<Longrightarrow> m \<le> n \<Longrightarrow> wait c m \<le> wait c n"
  by (rule lift_Suc_mono_le [of "wait c"]) (auto intro: wait_grows)

lemma wait_nonneg: "ok c \<Longrightarrow> 0 \<le> wait c n"
  using wait_first [of c] wait_mono [of c 0 n] by simp

lemma wait_bound: "ok c \<Longrightarrow> wait c n \<le> base c * 2 ^ n"
proof (induction n)
  case 0
  then show ?case using wait_first by simp
next
  case (Suc n)
  then show ?case using wait_doubles [of c n] by simp
qed

lemma wait_total: "ok c \<Longrightarrow> (\<Sum>i<n. wait c i) \<le> base c * (2 ^ n - 1)"
proof (induction n)
  case (Suc n)
  then show ?case using wait_bound [of c n] by (simp add: algebra_simps)
qed simp

end

text \<open>The doubled delay of \<open>emit\<close>, and the one of \<open>run\<close>, which stops growing at a limit.\<close>

definition doubling :: "rat \<Rightarrow> nat \<Rightarrow> rat" where
  "doubling d n = d * 2 ^ n"

fun capped_doubling :: "rat \<times> rat \<Rightarrow> nat \<Rightarrow> rat" where
  "capped_doubling (d, m) n = min (d * 2 ^ n) m"

interpretation emit_delay: backoff doubling "\<lambda>d. d" "\<lambda>d. 0 \<le> d"
  by unfold_locales (auto simp: doubling_def mult_left_mono)

lemma min_twice: "0 \<le> (m :: rat) \<Longrightarrow> min (2 * x) m \<le> 2 * min x m"
  by (simp add: min_def)

interpretation loop_delay: backoff capped_doubling fst "\<lambda>(d, m). 0 \<le> d \<and> 0 \<le> m"
proof unfold_locales
  fix c :: "rat \<times> rat" and n :: nat
  obtain d m where c: "c = (d, m)" by (cases c)
  assume "case c of (d, m) \<Rightarrow> 0 \<le> d \<and> 0 \<le> m"
  with c have dm: "0 \<le> d" "0 \<le> m" by simp_all
  show "0 \<le> capped_doubling c 0 \<and> capped_doubling c 0 \<le> fst c"
    using dm by (simp add: c)
  show "capped_doubling c (Suc n) \<le> 2 * capped_doubling c n"
    using min_twice [OF dm(2), of "d * 2 ^ n"] by (simp add: c mult.left_commute)
  have "d * 2 ^ n \<le> d * 2 ^ Suc n"
    using dm by (simp add: mult_left_mono)
  then show "capped_doubling c n \<le> capped_doubling c (Suc n)"
    by (simp add: c min.coboundedI1)
qed

lemma capped_doubling_le: "capped_doubling c n \<le> snd c"
  by (cases c) simp

end
