(* ===== verification/Tasks.thy ===== *)
theory Tasks imports RequestContext Numbers begin

text \<open>
  Coroutines. A coroutine of the worker is a tree: it returns, raises, or does one
  operation and goes on with the reply. Every await is an operation, and so are the reads and
  writes of what coroutines share (the running flag, the semaphore) and of the context
  variable with the request id. A \<open>while\<close> loop gets a bound on its turns; the theorems say
  when it is enough.

  \<open>holds\<close> is the weakest precondition of a tree over every reply the operations can give, with an
  invariant of its history; the theory of the machine lifts it to every interleaving.
\<close>

section \<open>Operations and replies\<close>

text \<open>What the Redis client returns for a text: bytes, or a string when it decodes.\<close>

datatype rtext = RStr pystr | RBytes pybytes

type_synonym fields = "(rtext, rtext) dict"

text \<open>A coroutine passed to \<open>asyncio.gather\<close>: the call that made it.\<close>

datatype job =
    HandleMessage pystr fields
  | DeadLetterReclaimed pystr fields int

datatype op =
    XGroupCreate pystr pystr pystr bool
  | XAdd pystr "(pystr, pyval) dict" "int option"
  | XAck pystr pystr pystr
  | XPendingRange pystr pystr pystr pystr int
  | XAutoclaim pystr pystr pystr int rtext int
  | XReadGroup pystr pystr pystr int int
  | ProcessMessage pystr pystr "(pystr, pyval) dict"
  | Sleep pynum
  | Monotonic
  | Acquire
  | Release
  | SetRid pystr
  | ResetRid pystr
  | GetRunning
  | SetRunning bool
  | Gather "job list"

datatype reply =
    RNone
  | RExn exn
  | RText pystr
  | RBool bool
  | RTime rat
  | RRows "int list"
  | RClaim rtext "(pystr \<times> fields option) list"
  | RRead "(pystr \<times> (pystr \<times> fields) list) list"

text \<open>
  The operations that do not await are answered by the interpreter, always in the same way.
  Waiting for the semaphore or for the other coroutines can only be cancelled.
\<close>

fun possible :: "op \<Rightarrow> reply \<Rightarrow> bool" where
  "possible Monotonic r \<longleftrightarrow> (\<exists>t. r = RTime t)"
| "possible Release r \<longleftrightarrow> r = RNone"
| "possible (SetRid _) r \<longleftrightarrow> (\<exists>t. r = RText t)"
| "possible (ResetRid _) r \<longleftrightarrow> r = RNone"
| "possible GetRunning r \<longleftrightarrow> (\<exists>b. r = RBool b)"
| "possible (SetRunning _) r \<longleftrightarrow> r = RNone"
| "possible Acquire r \<longleftrightarrow> r = RNone \<or> r = RExn CancelledError"
| "possible (Gather _) r \<longleftrightarrow> r = RNone \<or> r = RExn CancelledError"
| "possible _ r \<longleftrightarrow> True"

text \<open>A server may answer anything: \<open>fit\<close> makes its answer one the operation can give.\<close>

fun fit :: "op \<Rightarrow> reply \<Rightarrow> reply" where
  "fit Monotonic r = (case r of RTime t \<Rightarrow> r | _ \<Rightarrow> RTime 0)"
| "fit Release r = RNone"
| "fit (SetRid _) r = (case r of RText t \<Rightarrow> r | _ \<Rightarrow> RText no_request_id)"
| "fit (ResetRid _) r = RNone"
| "fit GetRunning r = (case r of RBool b \<Rightarrow> r | _ \<Rightarrow> RBool False)"
| "fit (SetRunning _) r = RNone"
| "fit Acquire r = (case r of RExn e \<Rightarrow> RExn CancelledError | _ \<Rightarrow> RNone)"
| "fit (Gather _) r = (case r of RExn e \<Rightarrow> RExn CancelledError | _ \<Rightarrow> RNone)"
| "fit _ r = r"

lemma possible_fit [simp]: "possible op (fit op r)"
  by (cases op) (auto split: reply.split)

lemma fit_possible: "possible op r \<Longrightarrow> fit op r = r"
  by (cases op) auto

section \<open>Trees\<close>

datatype 'a io =
    Return 'a
  | Throw exn
  | Call op "reply \<Rightarrow> 'a io"

primrec bindI :: "'a io \<Rightarrow> ('a \<Rightarrow> 'b io) \<Rightarrow> 'b io" where
  "bindI (Return a) f = f a"
| "bindI (Throw e) f = Throw e"
| "bindI (Call op k) f = Call op (\<lambda>r. bindI (k r) f)"

abbreviation thenI :: "'a io \<Rightarrow> 'b io \<Rightarrow> 'b io" where
  "thenI m n \<equiv> bindI m (\<lambda>_. n)"

text \<open>\<open>try: m / except p: h\<close>.\<close>

primrec catchI :: "(exn \<Rightarrow> bool) \<Rightarrow> 'a io \<Rightarrow> (exn \<Rightarrow> 'a io) \<Rightarrow> 'a io" where
  "catchI p (Return a) h = Return a"
| "catchI p (Throw e) h = (if p e then h e else Throw e)"
| "catchI p (Call op k) h = Call op (\<lambda>r. catchI p (k r) h)"

text \<open>\<open>try: m / finally: f\<close>.\<close>

primrec finallyI :: "'a io \<Rightarrow> unit io \<Rightarrow> 'a io" where
  "finallyI (Return a) f = thenI f (Return a)"
| "finallyI (Throw e) f = thenI f (Throw e)"
| "finallyI (Call op k) f = Call op (\<lambda>r. finallyI (k r) f)"

definition liftI :: "exn + 'a \<Rightarrow> 'a io" where
  "liftI r = (case r of Inl e \<Rightarrow> Throw e | Inr a \<Rightarrow> Return a)"

text \<open>A reply of a kind the caller can not use is a type error there.\<close>

definition wrong_reply :: exn where
  "wrong_reply = Builtin ''TypeError'' (u ''unexpected reply'')"

text \<open>An operation whose result is not used, and the ones whose result is.\<close>

definition do_op :: "op \<Rightarrow> unit io" where
  "do_op op = Call op (\<lambda>r. case r of RExn e \<Rightarrow> Throw e | _ \<Rightarrow> Return ())"

definition do_text :: "op \<Rightarrow> pystr io" where
  "do_text op = Call op (\<lambda>r. case r of RExn e \<Rightarrow> Throw e | RText t \<Rightarrow> Return t | _ \<Rightarrow> Throw wrong_reply)"

definition do_value :: "op \<Rightarrow> reply io" where
  "do_value op = Call op (\<lambda>r. case r of RExn e \<Rightarrow> Throw e | _ \<Rightarrow> Return r)"

definition do_time :: "rat io" where
  "do_time = Call Monotonic (\<lambda>r. case r of RTime t \<Rightarrow> Return t | _ \<Rightarrow> Throw wrong_reply)"

definition do_rows :: "op \<Rightarrow> int list io" where
  "do_rows op = Call op (\<lambda>r. case r of RExn e \<Rightarrow> Throw e | RRows ns \<Rightarrow> Return ns
     | RNone \<Rightarrow> Return [] | _ \<Rightarrow> Throw wrong_reply)"

definition do_claim :: "op \<Rightarrow> (rtext \<times> (pystr \<times> fields option) list) io" where
  "do_claim op = Call op (\<lambda>r. case r of RExn e \<Rightarrow> Throw e | RClaim n c \<Rightarrow> Return (n, c)
     | _ \<Rightarrow> Throw wrong_reply)"

definition do_read :: "op \<Rightarrow> (pystr \<times> (pystr \<times> fields) list) list io" where
  "do_read op = Call op (\<lambda>r. case r of RExn e \<Rightarrow> Throw e | RRead c \<Rightarrow> Return c
     | RNone \<Rightarrow> Return [] | _ \<Rightarrow> Throw wrong_reply)"

definition is_running :: "bool io" where
  "is_running = Call GetRunning (\<lambda>r. Return (r = RBool True))"

type_synonym history = "(op \<times> reply) list"

section \<open>Properties of histories\<close>

text \<open>\<open>always P h\<close>: every event of \<open>h\<close> satisfies \<open>P\<close> with the history before it.\<close>

primrec always_from :: "(history \<Rightarrow> op \<times> reply \<Rightarrow> bool) \<Rightarrow> history \<Rightarrow> history \<Rightarrow> bool" where
  "always_from P h [] \<longleftrightarrow> True"
| "always_from P h (e # es) \<longleftrightarrow> P h e \<and> always_from P (h @ [e]) es"

definition always :: "(history \<Rightarrow> op \<times> reply \<Rightarrow> bool) \<Rightarrow> history \<Rightarrow> bool" where
  "always P h \<longleftrightarrow> always_from P [] h"

lemma always_Nil [simp]: "always P []"
  by (simp add: always_def)

lemma always_from_append: "always_from P g (h @ es) \<longleftrightarrow> always_from P g h \<and> always_from P (g @ h) es"
  by (induction h arbitrary: g) auto

lemma always_append [simp]: "always P (h @ es) \<longleftrightarrow> always P h \<and> always_from P h es"
  by (simp add: always_def always_from_append)

lemma always_single [simp]: "always P [e] \<longleftrightarrow> P [] e"
  by (simp add: always_def)

lemma always_conj: "always (\<lambda>h e. P h e \<and> R h e) h \<longleftrightarrow> always P h \<and> always R h"
proof -
  have "always_from (\<lambda>h e. P h e \<and> R h e) g h \<longleftrightarrow> always_from P g h \<and> always_from R g h" for g
    by (induction h arbitrary: g) auto
  then show ?thesis by (simp add: always_def)
qed

lemma always_mono:
  assumes "\<And>h e. P h e \<Longrightarrow> R h e" shows "always P h \<Longrightarrow> always R h"
proof -
  have "always_from P g h \<Longrightarrow> always_from R g h" for g
    by (induction h arbitrary: g) (auto intro: assms)
  then show "always P h \<Longrightarrow> always R h" by (simp add: always_def)
qed

text \<open>An operation failed: its reply is an exception.\<close>

definition failed :: "op \<times> reply \<Rightarrow> bool" where
  "failed ev \<longleftrightarrow> (case snd ev of RExn _ \<Rightarrow> True | _ \<Rightarrow> False)"

lemma failed_simps [simp]:
  "failed (op, RExn e)" "failed (op, r) \<longleftrightarrow> (\<exists>e. r = RExn e)"
  by (simp_all add: failed_def split: reply.split)

definition number :: "(op \<Rightarrow> bool) \<Rightarrow> history \<Rightarrow> nat" where
  "number p h = length (filter (\<lambda>ev. p (fst ev)) h)"

lemma number_simps [simp]:
  "number p [] = 0"
  "number p ((op, r) # h) = (if p op then 1 else 0) + number p h"
  "number p (h @ h') = number p h + number p h'"
  by (simp_all add: number_def)

text \<open>Kinds of operations.\<close>

fun is_process :: "op \<Rightarrow> bool" where
  "is_process (ProcessMessage _ _ _) = True"
| "is_process _ = False"

fun is_sleep :: "op \<Rightarrow> bool" where
  "is_sleep (Sleep _) = True"
| "is_sleep _ = False"

fun is_xadd :: "op \<Rightarrow> bool" where
  "is_xadd (XAdd _ _ _) = True"
| "is_xadd _ = False"

fun is_var :: "op \<Rightarrow> bool" where
  "is_var (SetRid _) = True"
| "is_var (ResetRid _) = True"
| "is_var _ = False"

section \<open>Weakest preconditions\<close>

text \<open>
  \<open>holds I h t Q\<close>: after the history \<open>h\<close>, whatever the operations reply, every further
  history of \<open>t\<close> satisfies \<open>I\<close>, and the tree ends with a result and a history in \<open>Q\<close>.
\<close>

primrec holds :: "(history \<Rightarrow> bool) \<Rightarrow> 'a io \<Rightarrow> history \<Rightarrow> (exn + 'a \<Rightarrow> history \<Rightarrow> bool) \<Rightarrow> bool" where
  "holds I (Return a) h Q \<longleftrightarrow> Q (Inr a) h"
| "holds I (Throw e) h Q \<longleftrightarrow> Q (Inl e) h"
| "holds I (Call op k) h Q \<longleftrightarrow>
     (\<forall>r. possible op r \<longrightarrow> I (h @ [(op, r)]) \<and> holds I (k r) (h @ [(op, r)]) Q)"

lemma holds_mono:
  "holds I m h Q \<Longrightarrow> (\<And>x h'. Q x h' \<Longrightarrow> Q' x h') \<Longrightarrow> holds I m h Q'"
  by (induction m arbitrary: h) auto

lemma holds_bind [simp]:
  "holds I (bindI m f) h Q \<longleftrightarrow>
     holds I m h (\<lambda>x h'. case x of Inl e \<Rightarrow> Q (Inl e) h' | Inr a \<Rightarrow> holds I (f a) h' Q)"
  by (induction m arbitrary: h) auto

lemma holds_catch [simp]:
  "holds I (catchI p m f) h Q \<longleftrightarrow>
     holds I m h (\<lambda>x h'. case x of
       Inl e \<Rightarrow> (if p e then holds I (f e) h' Q else Q (Inl e) h') | Inr a \<Rightarrow> Q (Inr a) h')"
  by (induction m arbitrary: h) auto

lemma holds_finally [simp]:
  "holds I (finallyI m f) h Q \<longleftrightarrow>
     holds I m h (\<lambda>x h'. holds I f h' (\<lambda>y h''. case y of Inl e \<Rightarrow> Q (Inl e) h'' | Inr _ \<Rightarrow> Q x h''))"
  by (induction m arbitrary: h) (auto elim!: holds_mono split: sum.splits)

lemma holds_lift [simp]: "holds I (liftI r) h Q \<longleftrightarrow> Q r h"
  by (cases r) (simp_all add: liftI_def)

lemma holds_inv: "holds I m h Q \<Longrightarrow> I h \<Longrightarrow> holds I m h (\<lambda>x h'. Q x h' \<and> I h')"
  by (induction m arbitrary: h) auto

lemma holds_conj: "holds I m h Q \<Longrightarrow> holds J m h R \<Longrightarrow> holds (\<lambda>h. I h \<and> J h) m h (\<lambda>x h'. Q x h' \<and> R x h')"
  by (induction m arbitrary: h) auto

text \<open>The rule of an operation: what its reply may be, and where the tree goes from there.\<close>

lemma holds_do_op:
  "(\<And>r. possible op r \<Longrightarrow> I (h @ [(op, r)])) \<Longrightarrow>
   (\<And>e. possible op (RExn e) \<Longrightarrow> Q (Inl e) (h @ [(op, RExn e)])) \<Longrightarrow>
   (\<And>r. possible op r \<Longrightarrow> (\<forall>e. r \<noteq> RExn e) \<Longrightarrow> Q (Inr ()) (h @ [(op, r)])) \<Longrightarrow>
   holds I (do_op op) h Q"
  by (auto simp: do_op_def split: reply.split)

section \<open>The number of operations\<close>

text \<open>\<open>uses p t n\<close>: the tree does at most \<open>n\<close> operations of the kind \<open>p\<close>.\<close>

primrec uses :: "(op \<Rightarrow> bool) \<Rightarrow> 'a io \<Rightarrow> nat \<Rightarrow> bool" where
  "uses p (Return a) n \<longleftrightarrow> True"
| "uses p (Throw e) n \<longleftrightarrow> True"
| "uses p (Call op k) n \<longleftrightarrow>
     (if p op then 0 < n \<and> (\<forall>r. uses p (k r) (n - 1)) else \<forall>r. uses p (k r) n)"

abbreviation ends_in :: "'a io \<Rightarrow> nat \<Rightarrow> bool" where
  "ends_in \<equiv> uses (\<lambda>_. True)"

lemma uses_mono: "uses p t m \<Longrightarrow> m \<le> n \<Longrightarrow> uses p t n"
proof (induction t arbitrary: m n)
  case (Call op k)
  show ?case
  proof (cases "p op")
    case True
    with Call.prems Call.IH [OF rangeI, of _ "m - 1" "n - 1"] show ?thesis by simp
  next
    case False
    with Call.prems Call.IH [OF rangeI, of _ m n] show ?thesis by simp
  qed
qed simp_all

lemma uses_add: "uses p t b \<Longrightarrow> uses p t (a + b)"
  by (erule uses_mono) simp

lemma uses_Call_add:
  assumes "uses p (Call op k) a" and "\<And>r a. uses p (k r) a \<Longrightarrow> uses p (l r) (a + b)"
  shows "uses p (Call op l) (a + b)"
proof (cases "p op")
  case True
  with assms(1) obtain a' where "a = Suc a'" "\<forall>r. uses p (k r) a'" by (cases a) auto
  with True assms(2) show ?thesis by simp
next
  case False
  with assms show ?thesis by simp
qed

lemma uses_bind:
  "uses p m a \<Longrightarrow> (\<And>x. uses p (f x) b) \<Longrightarrow> uses p (bindI m f) (a + b)"
proof (induction m arbitrary: a)
  case (Call op k)
  from Call.prems(1) show ?case
    unfolding bindI.simps by (rule uses_Call_add) (rule Call.IH [OF rangeI _ Call.prems(2)])
qed (auto intro: uses_add)

lemma uses_catch:
  "uses p m a \<Longrightarrow> (\<And>e. uses p (f e) b) \<Longrightarrow> uses p (catchI q m f) (a + b)"
proof (induction m arbitrary: a)
  case (Call op k)
  from Call.prems(1) show ?case
    unfolding catchI.simps by (rule uses_Call_add) (rule Call.IH [OF rangeI _ Call.prems(2)])
qed (auto intro: uses_add)

lemma uses_finally: "uses p m a \<Longrightarrow> uses p f b \<Longrightarrow> uses p (finallyI m f) (a + b)"
proof (induction m arbitrary: a)
  case (Return x)
  then show ?case using uses_bind [of p f b "\<lambda>_. Return x" 0] by (auto intro: uses_add)
next
  case (Throw e)
  then show ?case using uses_bind [of p f b "\<lambda>_. Throw e" 0] by (auto intro: uses_add)
next
  case (Call op k)
  from Call.prems(1) show ?case
    unfolding finallyI.simps by (rule uses_Call_add) (rule Call.IH [OF rangeI _ Call.prems(2)])
qed

lemma uses_op:
  "uses p (do_op op) (if p op then 1 else 0)" "uses p (do_text op) (if p op then 1 else 0)"
  "uses p (do_value op) (if p op then 1 else 0)" "uses p (do_rows op) (if p op then 1 else 0)"
  "uses p (do_claim op) (if p op then 1 else 0)" "uses p (do_read op) (if p op then 1 else 0)"
  by (auto simp: do_op_def do_text_def do_value_def do_rows_def do_claim_def do_read_def
      split: reply.split)

lemma uses_local: "uses p do_time (if p Monotonic then 1 else 0)" "uses p is_running (if p GetRunning then 1 else 0)"
  by (auto simp: do_time_def is_running_def split: reply.split)

lemma uses_lift: "uses p (liftI r) 0"
  by (cases r) (simp_all add: liftI_def)

section \<open>Runs against a server\<close>

text \<open>\<open>answer f t s\<close> runs the tree against a server \<open>f\<close> with a state \<open>s\<close>.\<close>

primrec answer :: "('s \<Rightarrow> op \<Rightarrow> reply \<times> 's) \<Rightarrow> 'a io \<Rightarrow> 's \<Rightarrow> (exn + 'a) \<times> history \<times> 's" where
  "answer f (Return a) s = (Inr a, [], s)"
| "answer f (Throw e) s = (Inl e, [], s)"
| "answer f (Call op k) s = (case f s op of (r, s') \<Rightarrow>
     (case answer f (k (fit op r)) s' of (x, h, s'') \<Rightarrow> (x, (op, fit op r) # h, s'')))"

lemma answer_holds_all:
  assumes "holds I t h Q" and "I h" and "answer f t s = (x, h', s')"
  shows "Q x (h @ h') \<and> I (h @ h')"
  using assms
proof (induction t arbitrary: h s h')
  case (Call op k)
  obtain r s1 where f: "f s op = (r, s1)" by (cases "f s op")
  let ?r = "fit op r"
  obtain h1 where a: "answer f (k ?r) s1 = (x, h1, s')" "h' = (op, ?r) # h1"
    using Call.prems(3) f by (auto split: prod.splits)
  with Call.IH [of "k ?r" "h @ [(op, ?r)]" s1 h1] Call.prems(1) show ?case by simp
qed auto

text \<open>What \<open>holds\<close> says is true against every server.\<close>

lemma answer_holds:
  "holds I t [] Q \<Longrightarrow> I [] \<Longrightarrow> case answer f t s of (x, h, _) \<Rightarrow> Q x h \<and> I h"
  by (auto split: prod.split dest: answer_holds_all)

lemma answer_bind:
  "answer f (bindI m g) s = (case answer f m s of
     (Inl e, h, s') \<Rightarrow> (Inl e, h, s')
   | (Inr a, h, s') \<Rightarrow> (case answer f (g a) s' of (x, h', s'') \<Rightarrow> (x, h @ h', s'')))"
  by (induction m arbitrary: s) (auto split: prod.splits sum.splits)

lemma answer_catch:
  "answer f (catchI p m g) s = (case answer f m s of
     (Inl e, h, s') \<Rightarrow> (if p e then (case answer f (g e) s' of (x, h', s'') \<Rightarrow> (x, h @ h', s''))
                      else (Inl e, h, s'))
   | (Inr a, h, s') \<Rightarrow> (Inr a, h, s'))"
  by (induction m arbitrary: s) (auto split: prod.splits sum.splits)

lemma answer_finally:
  "answer f (finallyI m g) s = (case answer f m s of
     (x, h, s') \<Rightarrow> (case answer f g s' of
        (Inl e, h', s'') \<Rightarrow> (Inl e, h @ h', s'')
      | (Inr _, h', s'') \<Rightarrow> (x, h @ h', s'')))"
  by (induction m arbitrary: s) (auto simp: answer_bind split: prod.splits sum.splits)

lemma answer_uses: "uses p t n \<Longrightarrow> case answer f t s of (x, h, _) \<Rightarrow> number p h \<le> n"
proof (induction t arbitrary: n s)
  case (Call op k)
  obtain r s1 where f: "f s op = (r, s1)" by (cases "f s op")
  have "uses p (k (fit op r)) (if p op then n - 1 else n)" "p op \<longrightarrow> 0 < n"
    using Call.prems by (auto split: if_splits)
  with Call.IH [OF rangeI, of "fit op r" "if p op then n - 1 else n" s1] f show ?case
    by (auto split: prod.splits if_splits)
qed auto

text \<open>Every reply of a run comes from the server.\<close>

lemma answer_replies:
  "answer f t s = (x, h, s') \<Longrightarrow> (op, r) \<in> set h \<Longrightarrow> \<exists>s0. r = fit op (fst (f s0 op))"
proof (induction t arbitrary: s h)
  case (Call op' k)
  obtain r1 s1 where f: "f s op' = (r1, s1)" by (cases "f s op'")
  obtain h1 where h: "answer f (k (fit op' r1)) s1 = (x, h1, s')" "h = (op', fit op' r1) # h1"
    using Call.prems(1) f by (auto split: prod.splits)
  show ?case
  proof (cases "(op, r) \<in> set h1")
    case True
    from Call.IH [OF rangeI h(1) this] show ?thesis .
  next
    case False
    with Call.prems(2) h(2) f have "op = op'" "r = fit op' (fst (f s op'))" by auto
    then show ?thesis by blast
  qed
qed simp_all

lemma number_all: "number (\<lambda>_. True) h = length h"
  by (simp add: number_def)

lemma number_none: "number p h \<le> 0 \<longleftrightarrow> list_all (\<lambda>ev. \<not> p (fst ev)) h"
  by (auto simp: number_def list_all_iff filter_empty_conv)

end
