(* ===== verification/Producer.thy ===== *)
theory Producer imports Tasks "HOL-Library.Sublist" begin

text \<open>
  The event producer: \<open>redis/producer.py\<close>, with the names of \<open>events/schemas.py\<close> it uses.
  A producer is the pair of its two defaults; \<open>emit\<close> is a coroutine over the operations
  \<open>XAdd\<close> and \<open>Sleep\<close>. The result of \<open>xadd\<close> is passed on as it is.
\<close>

section \<open>Streams\<close>

definition DLQ_SUFFIX :: pystr where
  "DLQ_SUFFIX = u ''_dlq''"

definition dlq_name :: "pystr \<Rightarrow> pystr" where
  "dlq_name stream_name = stream_name @ DLQ_SUFFIX"

lemma dlq_name_inject [simp]: "dlq_name a = dlq_name b \<longleftrightarrow> a = b"
  by (simp add: dlq_name_def)

lemma dlq_name_not_stream: "dlq_name a \<noteq> a"
  by (simp add: dlq_name_def DLQ_SUFFIX_def)

section \<open>emit\<close>

record producer =
  default_maxlen :: "int option"
  default_retries :: int

text \<open>The fields of the entry: \<open>rid\<close> is what the context variable holds.\<close>

definition stream_data :: "pystr \<Rightarrow> pystr \<Rightarrow> (pystr, pyval) dict \<Rightarrow> exn + (pystr, pyval) dict" where
  "stream_data rid action payload = (case dumps True (VDict payload) of
     None \<Rightarrow> Inl (Builtin ''TypeError'' (u ''not serializable''))
   | Some data \<Rightarrow>
       (let flds = [(u ''action'', VStr action), (u ''data'', VStr data)]
        in case current_request_id rid of
             None \<Rightarrow> Inr flds
           | Some req_id \<Rightarrow>
               (if req_id = [] then Inr flds
                else (case dumps False (VDict [(u ''request_id'', VStr req_id)]) of
                        None \<Rightarrow> Inl (Builtin ''TypeError'' (u ''not serializable''))
                      | Some meta \<Rightarrow> Inr (flds @ [(u ''meta'', VStr meta)])))))"

text \<open>
  The loop over the attempts; with no attempt at all \<open>message_id\<close> is never bound.
\<close>

definition unbound_message_id :: exn where
  "unbound_message_id = Builtin ''UnboundLocalError''
     (u ''cannot access local variable message_id where it is not associated with a value'')"

fun emit_tries :: "op \<Rightarrow> pynum \<Rightarrow> nat \<Rightarrow> nat list \<Rightarrow> reply io" where
  "emit_tries xadd retry_delay attempts [] = Throw unbound_message_id"
| "emit_tries xadd retry_delay attempts (attempt # later) =
     catchI is_Exception (do_value xadd)
       (\<lambda>e. if attempt = attempts then Throw e
            else bindI (liftI (scale_pow2 retry_delay (attempt - 1)))
              (\<lambda>d. thenI (do_op (Sleep d)) (emit_tries xadd retry_delay attempts later)))"

definition emit_limit :: "producer \<Rightarrow> int option \<Rightarrow> int option" where
  "emit_limit p maxlen = (case maxlen of None \<Rightarrow> default_maxlen p | Some n \<Rightarrow> Some n)"

definition emit_attempts :: "producer \<Rightarrow> bool \<Rightarrow> int option \<Rightarrow> int" where
  "emit_attempts p pipe retries =
     (let retries = (case retries of None \<Rightarrow> default_retries p | Some n \<Rightarrow> n)
      in (if pipe then 0 else retries) + 1)"

definition emit ::
  "producer \<Rightarrow> pystr \<Rightarrow> pystr \<Rightarrow> pystr \<Rightarrow> (pystr, pyval) dict \<Rightarrow> bool \<Rightarrow> int option \<Rightarrow> int option
   \<Rightarrow> pynum \<Rightarrow> reply io" where
  "emit p rid stream_name action payload pipe maxlen retries retry_delay =
     bindI (liftI (stream_data rid action payload)) (\<lambda>flds.
       (let attempts = nat (emit_attempts p pipe retries)
        in emit_tries (XAdd stream_name flds (emit_limit p maxlen)) retry_delay attempts
             [1..<attempts + 1]))"

definition emit_safe ::
  "producer \<Rightarrow> pystr \<Rightarrow> pystr \<Rightarrow> pystr \<Rightarrow> (pystr, pyval) dict \<Rightarrow> int option \<Rightarrow> int \<Rightarrow> pynum \<Rightarrow> reply io" where
  "emit_safe p rid stream_name action payload maxlen retries retry_delay =
     catchI is_Exception
       (emit p rid stream_name action payload False maxlen (Some retries) retry_delay)
       (\<lambda>_. Return RNone)"

section \<open>The entry\<close>

lemma meta_serializable: "\<exists>t. dumps False (VDict [(u ''request_id'', VStr r)]) = Some t"
  by simp

text \<open>
  The entry has the action, the JSON of the payload and, exactly when the context holds a real
  request id, the JSON of the id.
\<close>

lemma stream_data_fields:
  assumes "stream_data rid action payload = Inr flds"
  shows "map_of flds (u ''action'') = Some (VStr action)"
    and "\<exists>t. dumps True (VDict payload) = Some t \<and> map_of flds (u ''data'') = Some (VStr t)"
    and "(\<exists>m. map_of flds (u ''meta'') = Some m) \<longleftrightarrow> is_valid_request_id (VStr rid)"
    and "dict_wf flds"
  using assms
  by (auto simp: stream_data_def current_request_id_def Let_def dict_wf_def valid_id_nonempty
      split: option.splits if_splits)

section \<open>The attempts\<close>

text \<open>
  The operations of a run of \<open>n\<close> attempts in which every attempt fails: an XADD and a sleep, by turns.
\<close>

fun emit_pattern :: "op \<Rightarrow> pynum \<Rightarrow> nat \<Rightarrow> nat \<Rightarrow> op list" where
  "emit_pattern xadd d i 0 = []"
| "emit_pattern xadd d i (Suc n) = xadd # (if n = 0 then [] else
     (case scale_pow2 d i of Inl _ \<Rightarrow> [] | Inr w \<Rightarrow> Sleep w # emit_pattern xadd d (Suc i) n))"

text \<open>
  How the loop over \<open>m\<close> attempts ends: it returns what the last XADD replied; or it raises what the
  last operation raised, or an overflow of a float delay.
\<close>

fun emit_ended :: "op \<Rightarrow> pynum \<Rightarrow> nat \<Rightarrow> exn + reply \<Rightarrow> history \<Rightarrow> bool" where
  "emit_ended xadd d m (Inr r) h \<longleftrightarrow> h \<noteq> [] \<and> last h = (xadd, r) \<and> \<not> failed (last h)"
| "emit_ended xadd d m (Inl e) h \<longleftrightarrow> h \<noteq> [] \<and> failed (last h) \<and>
     (snd (last h) = RExn e \<or> (1024 < m \<and> (\<exists>q. d = PFloat q) \<and> is_Exception e))"

lemma fit_XAdd [simp]: "fit (XAdd a b c) r = r" and fit_Sleep [simp]: "fit (Sleep d) r = r"
  by simp_all

definition earlier_failed :: "op \<Rightarrow> history \<Rightarrow> bool" where
  "earlier_failed xadd h \<longleftrightarrow> list_all (\<lambda>ev. fst ev = xadd \<longrightarrow> failed ev) (butlast h)"

text \<open>
  When the loop of \<open>m\<close> attempts, of which \<open>i\<close> are behind it, may raise: in its last attempt, or before that when an
  operation is cancelled, a sleep raises, or a float delay overflows, which takes more than 1024 attempts. A failure
  of Redis in an earlier attempt is not among them.
\<close>

fun emit_raised_late :: "pynum \<Rightarrow> nat \<Rightarrow> nat \<Rightarrow> exn + reply \<Rightarrow> history \<Rightarrow> bool" where
  "emit_raised_late d i m (Inr r) h \<longleftrightarrow> True"
| "emit_raised_late d i m (Inl e) h \<longleftrightarrow>
     i + number is_xadd h = m \<or> \<not> is_Exception e \<or> is_sleep (fst (last h)) \<or>
     (1024 < i + number is_xadd h \<and> (\<exists>q. d = PFloat q))"

lemma emit_tries_Suc:
  "answer f (emit_tries (XAdd a b c) d m (k # ks)) s =
     (case f s (XAdd a b c) of
        (RExn e, s1) \<Rightarrow>
          (if \<not> is_Exception e \<or> k = m then (Inl e, [(XAdd a b c, RExn e)], s1)
           else (case scale_pow2 d (k - 1) of
              Inl e' \<Rightarrow> (Inl e', [(XAdd a b c, RExn e)], s1)
            | Inr w \<Rightarrow> (case f s1 (Sleep w) of
                 (RExn e', s2) \<Rightarrow> (Inl e', [(XAdd a b c, RExn e), (Sleep w, RExn e')], s2)
               | (r, s2) \<Rightarrow> (case answer f (emit_tries (XAdd a b c) d m ks) s2 of
                   (x, h, s3) \<Rightarrow> (x, (XAdd a b c, RExn e) # (Sleep w, r) # h, s3)))))
      | (r, s1) \<Rightarrow> (Inr r, [(XAdd a b c, r)], s1))"
  by (simp add: answer_catch answer_bind do_value_def do_op_def liftI_def
      split: prod.split reply.split sum.split)

lemma emit_tries_run:
  assumes "answer f (emit_tries (XAdd a b c) d (i + Suc n) [Suc i..<Suc (i + Suc n)]) s = (x, h, s')"
  shows "prefix (map fst h) (emit_pattern (XAdd a b c) d i (Suc n)) \<and>
    emit_ended (XAdd a b c) d (i + Suc n) x h \<and> earlier_failed (XAdd a b c) h \<and>
    emit_raised_late d i (i + Suc n) x h"
  using assms
proof (induction n arbitrary: i s h)
  case 0
  then show ?case
    by (auto simp: upt_conv_Cons emit_tries_Suc earlier_failed_def simp del: emit_tries.simps upt_Suc
        split: prod.splits reply.splits)
next
  case (Suc n)
  have upt: "[Suc i..<Suc (i + Suc (Suc n))] = Suc i # [Suc (Suc i)..<Suc (Suc i + Suc n)]"
    by (simp add: upt_conv_Cons del: upt_Suc)
  show ?case
  proof (cases "f s (XAdd a b c)")
    case (Pair r s1)
    show ?thesis
    proof (cases "\<exists>e. r = RExn e \<and> is_Exception e")
      case False
      with Suc.prems show ?thesis
        unfolding upt emit_tries_Suc Pair
        by (auto simp: earlier_failed_def split: reply.splits)
    next
      case True
      then obtain e where r: "r = RExn e" "is_Exception e" by auto
      show ?thesis
      proof (cases "scale_pow2 d i")
        case (Inl e')
        then have "1024 \<le> i" "\<exists>q. d = PFloat q" "is_Exception e'"
          by (cases d; auto split: if_splits)+
        with Suc.prems Inl r show ?thesis
          unfolding upt emit_tries_Suc Pair by (auto simp: earlier_failed_def)
      next
        case (Inr w)
        obtain q s2 where q: "f s1 (Sleep w) = (q, s2)" by (cases "f s1 (Sleep w)")
        show ?thesis
        proof (cases "\<exists>e'. q = RExn e'")
          case True
          with Suc.prems Inr r q show ?thesis
            unfolding upt emit_tries_Suc Pair by (auto simp: earlier_failed_def)
        next
          case False
          with Suc.prems Inr r q obtain h1 where
            "answer f (emit_tries (XAdd a b c) d (Suc i + Suc n) [Suc (Suc i)..<Suc (Suc i + Suc n)]) s2 = (x, h1, s')"
            and h: "h = (XAdd a b c, RExn e) # (Sleep w, q) # h1"
            unfolding upt emit_tries_Suc Pair by (auto split: reply.splits prod.splits)
          from Suc.IH [OF this(1)] h Inr False show ?thesis
            by (cases x) (auto simp: earlier_failed_def)
        qed
      qed
    qed
  qed
qed

text \<open>
  C27. \<open>emit\<close> with at least one attempt, against any server: the operations it does are the first
  ones of the pattern XADD, sleep, XADD, ... of its attempts, always with the same entry, the sleeps
  doubling; every XADD before the last operation failed. It returns only what the last XADD replied, so at the first
  success; and it raises only what the last operation raised (or the overflow of a float delay), after all its attempts:
  before them only a cancellation, a sleep that raises or that overflow ends it, never a failure of Redis.
\<close>

theorem emit_run:
  assumes "stream_data rid action payload = Inr flds"
    and "0 < emit_attempts p pipe retries"
    and "answer f (emit p rid stream action payload pipe maxlen retries d) s = (x, h, s')"
  shows "prefix (map fst h)
      (emit_pattern (XAdd stream flds (emit_limit p maxlen)) d 0 (nat (emit_attempts p pipe retries))) \<and>
    emit_ended (XAdd stream flds (emit_limit p maxlen)) d (nat (emit_attempts p pipe retries)) x h \<and>
    earlier_failed (XAdd stream flds (emit_limit p maxlen)) h \<and>
    emit_raised_late d 0 (nat (emit_attempts p pipe retries)) x h"
proof -
  obtain n where n: "nat (emit_attempts p pipe retries) = Suc n"
    using assms(2) by (cases "nat (emit_attempts p pipe retries)") auto
  have "answer f (emit_tries (XAdd stream flds (emit_limit p maxlen)) d (0 + Suc n) [Suc 0..<Suc (0 + Suc n)]) s
      = (x, h, s')"
    using assms(1,3) by (simp add: emit_def liftI_def n Let_def del: upt_Suc)
  from emit_tries_run [OF this] show ?thesis by (simp add: n)
qed

lemma emit_pattern_length: "length (emit_pattern xadd d i n) \<le> 2 * n - 1"
proof (induction xadd d i n rule: emit_pattern.induct)
  case (2 xadd d i n)
  then show ?case by (cases n) (auto split: sum.split)
qed simp

text \<open>Without an attempt (a negative number of retries) nothing is sent and a Python error is raised.\<close>

lemma emit_no_attempt:
  assumes "stream_data rid action payload = Inr flds"
    and "emit_attempts p pipe retries \<le> 0"
  shows "answer f (emit p rid stream action payload pipe maxlen retries d) s = (Inl unbound_message_id, [], s)"
  using assms by (simp add: emit_def liftI_def Let_def)

lemma emit_pipe_once: "emit_attempts p True retries = 1"
  by (simp add: emit_attempts_def)

lemma emit_safe_no_exception:
  "case fst (answer f (emit_safe p rid stream action payload maxlen retries d) s) of
     Inl e \<Rightarrow> e = CancelledError | Inr _ \<Rightarrow> True"
  by (auto simp: emit_safe_def answer_catch is_Exception_def split: prod.split sum.split)

section \<open>A server that recovers\<close>

text \<open>A server that refuses the next \<open>n\<close> entries with \<open>err\<close>.\<close>

fun flaky :: "exn \<Rightarrow> reply \<Rightarrow> nat \<Rightarrow> op \<Rightarrow> reply \<times> nat" where
  "flaky err ok n (XAdd a b c) = (if 0 < n then (RExn err, n - 1) else (ok, 0))"
| "flaky err ok n _ = (RNone, n)"

fun times_pow2 :: "pynum \<Rightarrow> nat \<Rightarrow> pynum" where
  "times_pow2 (PInt i) k = PInt (i * 2 ^ k)"
| "times_pow2 (PFloat q) k = PFloat (q * 2 ^ k)"

lemma scale_pow2_times: "k < 1024 \<Longrightarrow> scale_pow2 d k = Inr (times_pow2 d k)"
  by (cases d) auto

lemma num_value_times [simp]: "num_value (times_pow2 d k) = doubling (num_value d) k"
  by (cases d) (auto simp: doubling_def)

text \<open>What happens while the server refuses \<open>k\<close> times.\<close>

fun retry_history :: "op \<Rightarrow> pynum \<Rightarrow> exn \<Rightarrow> reply \<Rightarrow> nat \<Rightarrow> nat \<Rightarrow> history" where
  "retry_history xadd d err ok i 0 = [(xadd, ok)]"
| "retry_history xadd d err ok i (Suc k) =
     (xadd, RExn err) # (Sleep (times_pow2 d i), RNone) # retry_history xadd d err ok (Suc i) k"

definition slept :: "history \<Rightarrow> rat" where
  "slept h = (\<Sum>(op, r)\<leftarrow>h. case op of Sleep d \<Rightarrow> num_value d | _ \<Rightarrow> 0)"

lemma slept_simps [simp]:
  "slept [] = 0"
  "slept ((op, r) # h) = (case op of Sleep d \<Rightarrow> num_value d | _ \<Rightarrow> 0) + slept h"
  by (simp_all add: slept_def)

lemma slept_retry: "slept (retry_history (XAdd a b c) d err ok i k) = (\<Sum>j<k. doubling (num_value d) (i + j))"
  by (induction k arbitrary: i) (auto simp: sum.lessThan_Suc_shift simp del: sum.lessThan_Suc)

lemma emit_tries_flaky:
  assumes "k \<le> n" and "i + k \<le> 1024" and "is_Exception err" and "\<forall>e. ok \<noteq> RExn e"
  shows "answer (flaky err ok) (emit_tries (XAdd a b c) d (i + Suc n) [Suc i..<Suc (i + Suc n)]) k =
    (Inr ok, retry_history (XAdd a b c) d err ok i k, 0)"
  using assms
proof (induction k arbitrary: i n)
  case 0
  then show ?case
    by (auto simp: upt_conv_Cons emit_tries_Suc simp del: upt_Suc emit_tries.simps split: reply.splits)
next
  case (Suc k)
  then obtain m where n: "n = Suc m" by (cases n) auto
  have upt: "[Suc i..<Suc (i + Suc n)] = Suc i # [Suc (Suc i)..<Suc (Suc i + Suc m)]"
    by (simp add: n upt_conv_Cons del: upt_Suc)
  from Suc.prems Suc.IH [of m "Suc i"] show ?case
    unfolding upt emit_tries_Suc by (simp add: n scale_pow2_times del: upt_Suc)
qed

text \<open>
  When Redis refuses an entry \<open>k\<close> times and then takes it, \<open>emit\<close> with at least \<open>k\<close> retries returns
  the id Redis gave: it did exactly \<open>k + 1\<close> XADDs of the same entry and slept
  \<open>d, 2d, 4d, ...\<close> in between, at most \<open>d * (2 ^ k - 1)\<close> seconds in total.
\<close>

theorem emit_recovers:
  assumes "stream_data rid action payload = Inr flds"
    and "int k < emit_attempts p pipe retries" and "k \<le> 1024" and "0 \<le> num_value d"
    and "is_Exception err" and "\<forall>e. ok \<noteq> RExn e"
  shows "\<exists>h. answer (flaky err ok) (emit p rid stream action payload pipe maxlen retries d) k = (Inr ok, h, 0) \<and>
    h = retry_history (XAdd stream flds (emit_limit p maxlen)) d err ok 0 k \<and>
    slept h \<le> num_value d * (2 ^ k - 1)"
proof -
  obtain n where n: "nat (emit_attempts p pipe retries) = Suc n" "k \<le> n"
    using assms(2) by (cases "nat (emit_attempts p pipe retries)") auto
  have "answer (flaky err ok) (emit p rid stream action payload pipe maxlen retries d) k =
      (Inr ok, retry_history (XAdd stream flds (emit_limit p maxlen)) d err ok 0 k, 0)"
    using emit_tries_flaky [of k n 0 err ok stream flds "emit_limit p maxlen" d] n assms
    by (simp add: emit_def liftI_def Let_def del: upt_Suc)
  moreover have "slept (retry_history (XAdd stream flds (emit_limit p maxlen)) d err ok 0 k) \<le> num_value d * (2 ^ k - 1)"
    using emit_delay.wait_total [OF assms(4), of k] by (simp add: slept_retry)
  ultimately show ?thesis by blast
qed

section \<open>Example\<close>

lemmas text_eval = u_def str_int_def json_string_def json_char_def is_digit_def is_alpha_def scalar_text_def
  is_scalar_def is_surrogate_def

lemma no_request_id_invalid: "current_request_id no_request_id = None"
  by (simp add: current_request_id_def valid_id_iff)

lemma stream_data_empty: "stream_data no_request_id a [] =
    Inr [(u ''action'', VStr a), (u ''data'', VStr (u ''{}''))]"
  by (simp add: stream_data_def no_request_id_invalid u_def)

definition example_producer :: producer where
  "example_producer = \<lparr>default_maxlen = None, default_retries = 2\<rparr>"

text \<open>Redis is down: two sleeps, and the error after the third attempt.\<close>

fun refusing :: "exn \<Rightarrow> unit \<Rightarrow> op \<Rightarrow> reply \<times> unit" where
  "refusing err s (XAdd a b c) = (RExn err, ())"
| "refusing err s _ = (RNone, ())"

theorem emit_run_witness:
  "\<exists>e h s'. answer (refusing (Builtin ''ConnectionError'' []))
       (emit example_producer no_request_id (u ''s'') (u ''sync'') [] False None None (PInt 1)) () = (Inl e, h, s') \<and>
     e = Builtin ''ConnectionError'' [] \<and> number is_xadd h = 3 \<and>
     prefix (map fst h) (emit_pattern (XAdd (u ''s'')
       [(u ''action'', VStr (u ''sync'')), (u ''data'', VStr (u ''{}''))] None) (PInt 1) 0 3)"
proof -
  obtain x h s' where a: "answer (refusing (Builtin ''ConnectionError'' []))
       (emit example_producer no_request_id (u ''s'') (u ''sync'') [] False None None (PInt 1)) () = (x, h, s')"
    by (metis prod_cases3)
  have "0 < emit_attempts example_producer False None"
    by (simp add: emit_attempts_def example_producer_def)
  note emitted = emit_run [OF stream_data_empty this a]
  have n: "nat (emit_attempts example_producer False None) = 3" "emit_limit example_producer None = None"
    by (simp_all add: emit_attempts_def emit_limit_def example_producer_def)
  have replies: "(op, RExn e) \<in> set h \<Longrightarrow> e = Builtin ''ConnectionError'' [] \<and> is_xadd op" for op e
    using answer_replies [OF a, of op "RExn e"] by (cases op) auto
  have "(XAdd b c d, r) \<in> set h \<Longrightarrow> r = RExn (Builtin ''ConnectionError'' [])" for b c d r
    using answer_replies [OF a, of "XAdd b c d" r] by auto
  note xadds = this
  obtain e where x: "x = Inl e"
  proof (cases x)
    case (Inr r)
    with emitted obtain b c d where "h \<noteq> []" "last h = (XAdd b c d, r)" "\<forall>e. r \<noteq> RExn e" by auto
    with xadds [of b c d r] last_in_set [of h] show ?thesis by simp
  qed
  with emitted have "h \<noteq> []" "snd (last h) = RExn e" by (auto simp: n)
  with replies have e: "e = Builtin ''ConnectionError'' []" "is_xadd (fst (last h))"
    using last_in_set [of h] by (metis prod.collapse)+
  then have "\<not> is_sleep (fst (last h))" by (cases "fst (last h)") auto
  with emitted x e have "number is_xadd h = 3" by (simp add: n is_Exception_def)
  with emitted a x e n show ?thesis by auto
qed

theorem emit_no_attempt_witness:
  "answer (flaky (Builtin ''ConnectionError'' []) RNone)
     (emit example_producer no_request_id (u ''s'') (u ''sync'') [] False None (Some (-1)) (PInt 1)) 0 =
     (Inl unbound_message_id, [], 0)"
  by (rule emit_no_attempt [OF stream_data_empty]) (simp add: emit_attempts_def)

theorem emit_recovers_witness:
  "\<exists>h. answer (flaky (Builtin ''ConnectionError'' []) (RText (u ''1-0'')))
       (emit example_producer no_request_id (u ''s'') (u ''sync'') [] False None None (PInt 1)) 2 =
     (Inr (RText (u ''1-0'')), h, 0) \<and> slept h \<le> 3"
  using emit_recovers [OF stream_data_empty, of 2 example_producer False None "PInt 1" "Builtin ''ConnectionError'' []" "RText (u ''1-0'')" "u ''s''" "u ''sync''" None]
  by (auto simp: emit_attempts_def example_producer_def)

end
