(* ===== verification/Consumer.thy ===== *)
theory Consumer imports Producer begin

text \<open>
  One message of the consumer: \<open>redis/consumer.py\<close> up to \<open>_handle_entry\<close>. The envelope of an
  entry is pure; the life of a message is a coroutine that decodes it, tries to
  process it, and sends it to the dead letter stream when that fails.
\<close>

section \<open>Configuration\<close>

record config =
  stream_name :: pystr
  group_name :: pystr
  consumer_name :: pystr
  block_ms :: int
  batch_size :: int
  max_retries :: int
  retry_delay :: pynum
  concurrency :: nat
  group_start_id :: pystr
  dlq_maxlen :: "int option"
  max_loop_failures :: int
  loop_error_delay :: pynum
  loop_error_max_delay :: pynum
  reclaim_idle_ms :: int
  reclaim_interval_s :: rat
  max_deliveries :: int

text \<open>The constructor with its defaults; \<open>hex6\<close> is the start of a fresh uuid.\<close>

definition init_config :: "pystr \<Rightarrow> pystr \<Rightarrow> pystr \<Rightarrow> pystr option \<Rightarrow> pystr \<Rightarrow> config" where
  "init_config stream grp pre name hex6 =
     \<lparr>stream_name = stream, group_name = grp,
      consumer_name = (case name of None \<Rightarrow> pre @ [95] @ hex6
                       | Some n \<Rightarrow> (if n = [] then pre @ [95] @ hex6 else n)),
      block_ms = 5000, batch_size = 10, max_retries = 3, retry_delay = PInt 2, concurrency = 10,
      group_start_id = u ''0'', dlq_maxlen = None, max_loop_failures = 20,
      loop_error_delay = PInt 5, loop_error_max_delay = PInt 60,
      reclaim_idle_ms = 120000, reclaim_interval_s = 60, max_deliveries = 5\<rparr>"

definition consumer_name_from_hostname :: "pystr \<Rightarrow> pystr \<Rightarrow> pystr" where
  "consumer_name_from_hostname hostname pre = pre @ [95] @ hostname"

section \<open>The envelope\<close>

fun decode_text :: "rtext \<Rightarrow> exn + pystr" where
  "decode_text (RBytes b) = (case utf8_decode b of
     None \<Rightarrow> Inl (Builtin ''UnicodeDecodeError'' (u ''invalid utf-8'')) | Some s \<Rightarrow> Inr s)"
| "decode_text (RStr s) = Inr s"

fun decode_items :: "fields \<Rightarrow> exn + (pystr \<times> pystr) list" where
  "decode_items [] = Inr []"
| "decode_items ((k, v) # kvs) = (case decode_text k of Inl e \<Rightarrow> Inl e | Inr k' \<Rightarrow>
     (case decode_text v of Inl e \<Rightarrow> Inl e | Inr v' \<Rightarrow>
        (case decode_items kvs of Inl e \<Rightarrow> Inl e | Inr r \<Rightarrow> Inr ((k', v') # r))))"

definition decode_fields :: "fields \<Rightarrow> exn + (pystr, pystr) dict" where
  "decode_fields raw = map_sum id dict_of (decode_items raw)"

text \<open>A word between single quotes, as in the texts of the errors.\<close>

definition quoted :: "string \<Rightarrow> pystr" where
  "quoted w = [39] @ u w @ [39]"

definition parse_envelope :: "(pystr, pystr) dict \<Rightarrow> exn + pystr \<times> (pystr, pyval) dict" where
  "parse_envelope payload = (case (map_of payload (u ''action''), map_of payload (u ''data'')) of
     (Some action, Some raw_data) \<Rightarrow>
       (case loads raw_data of
          None \<Rightarrow> Inl (InvalidMessageError (quoted ''data'' @ u '' is not valid JSON''))
        | Some (VDict d) \<Rightarrow> Inr (action, d)
        | Some _ \<Rightarrow> Inl (InvalidMessageError (quoted ''data'' @ u '' is not a JSON object'')))
   | _ \<Rightarrow> Inl (InvalidMessageError (u ''missing '' @ quoted ''action'' @ u '' or '' @ quoted ''data'')))"

definition request_id_of :: "fields \<Rightarrow> pystr option" where
  "request_id_of raw = (case decode_fields raw of
     Inl _ \<Rightarrow> None
   | Inr meta \<Rightarrow>
       (let t = (case map_of meta (u ''meta'') of None \<Rightarrow> u ''{}'' | Some t \<Rightarrow> (if t = [] then u ''{}'' else t))
        in case loads t of
             Some (VDict d) \<Rightarrow> (case map_of d (u ''request_id'') of
                Some (VStr r) \<Rightarrow> (if is_valid_request_id (VStr r) then Some r else None)
              | _ \<Rightarrow> None)
           | _ \<Rightarrow> None))"

section \<open>The dead letter stream\<close>

text \<open>\<open>{str(key): value}\<close>: the text of a bytes key is its literal.\<close>

fun str_key :: "rtext \<Rightarrow> pystr" where
  "str_key (RStr s) = s"
| "str_key (RBytes b) = str_bytes b"

fun raw_value :: "rtext \<Rightarrow> pyval" where
  "raw_value (RStr s) = VStr s"
| "raw_value (RBytes b) = VBytes b"

definition raw_payload :: "fields \<Rightarrow> (pystr, pyval) dict" where
  "raw_payload raw = dict_of (map (\<lambda>(k, v). (str_key k, raw_value v)) raw)"

definition error_value :: "pystr option \<Rightarrow> pyval" where
  "error_value e = (case e of None \<Rightarrow> VNone | Some m \<Rightarrow> VStr m)"

definition dlq_fields :: "config \<Rightarrow> pystr \<Rightarrow> pystr \<Rightarrow> pystr option \<Rightarrow> (pystr, pyval) dict" where
  "dlq_fields cfg message_id payload error_msg =
     [(u ''original_message_id'', VStr message_id), (u ''payload'', VStr payload),
      (u ''error'', error_value error_msg), (u ''consumer_group'', VStr (group_name cfg))]"

definition send_to_dlq :: "config \<Rightarrow> pystr \<Rightarrow> (pystr, pyval) dict \<Rightarrow> pystr option \<Rightarrow> unit io" where
  "send_to_dlq cfg message_id payload error_msg = (case dumps True (VDict payload) of
     None \<Rightarrow> Throw (Builtin ''TypeError'' (u ''not serializable''))
   | Some t \<Rightarrow> do_op (XAdd (dlq_name (stream_name cfg)) (dlq_fields cfg message_id t error_msg) (dlq_maxlen cfg)))"

definition xack :: "config \<Rightarrow> pystr \<Rightarrow> unit io" where
  "xack cfg message_id = do_op (XAck (stream_name cfg) (group_name cfg) message_id)"

definition reject_invalid_message :: "config \<Rightarrow> pystr \<Rightarrow> fields \<Rightarrow> pystr \<Rightarrow> unit io" where
  "reject_invalid_message cfg message_id raw reason =
     thenI (send_to_dlq cfg message_id (raw_payload raw) (Some (u ''Invalid message: '' @ reason)))
       (xack cfg message_id)"

section \<open>The life of a message\<close>

text \<open>What is stored in the dead letter stream of an error: its text only when it may be stored.\<close>

fun error_of :: "exn \<Rightarrow> pystr" where
  "error_of (NonRetryableError m) = m"
| "error_of e = exn_name e"

fun non_retryable :: "exn \<Rightarrow> bool" where
  "non_retryable (NonRetryableError _) = True"
| "non_retryable _ = False"

text \<open>\<open>async with semaphore\<close>: the slot is given back however the attempt ends.\<close>

definition one_attempt :: "config \<Rightarrow> pystr \<Rightarrow> pystr \<Rightarrow> (pystr, pyval) dict \<Rightarrow> unit io" where
  "one_attempt cfg message_id action payload =
     thenI (do_op Acquire)
       (finallyI (thenI (do_op (ProcessMessage message_id action payload)) (xack cfg message_id))
          (do_op Release))"

text \<open>The loop over the attempts: \<open>None\<close> when one succeeded, else the last error.\<close>

fun attempts :: "config \<Rightarrow> pystr \<Rightarrow> pystr \<Rightarrow> (pystr, pyval) dict \<Rightarrow> pystr option \<Rightarrow> nat list
    \<Rightarrow> pystr option option io" where
  "attempts cfg message_id action payload last_error [] = Return (Some last_error)"
| "attempts cfg message_id action payload last_error (attempt # later) =
     bindI (catchI is_Exception
              (thenI (one_attempt cfg message_id action payload) (Return None))
              (\<lambda>e. Return (Some e)))
       (\<lambda>x. case x of
          None \<Rightarrow> Return None
        | Some e \<Rightarrow>
            (if non_retryable e then Return (Some (Some (error_of e)))
             else if int attempt < max_retries cfg then
               thenI (do_op (Sleep (retry_delay cfg)))
                 (attempts cfg message_id action payload (Some (error_of e)) later)
             else attempts cfg message_id action payload (Some (error_of e)) later))"

fun envelope_reason :: "exn \<Rightarrow> pystr" where
  "envelope_reason (InvalidMessageError m) = m"
| "envelope_reason e = u ''unreadable entry ('' @ exn_name e @ u '')''"

definition open_envelope :: "fields \<Rightarrow> exn + (pystr, pystr) dict \<times> pystr \<times> (pystr, pyval) dict" where
  "open_envelope raw = (case decode_fields raw of
     Inl e \<Rightarrow> Inl e
   | Inr payload \<Rightarrow> (case parse_envelope payload of Inl e \<Rightarrow> Inl e | Inr ap \<Rightarrow> Inr (payload, ap)))"

definition text_dict :: "(pystr, pystr) dict \<Rightarrow> (pystr, pyval) dict" where
  "text_dict d = map (\<lambda>(k, v). (k, VStr v)) d"

definition handle_entry :: "config \<Rightarrow> pystr \<Rightarrow> fields \<Rightarrow> unit io" where
  "handle_entry cfg message_id raw =
     catchI is_Exception
       (case open_envelope raw of
          Inl e \<Rightarrow> reject_invalid_message cfg message_id raw (envelope_reason e)
        | Inr (payload, action, data) \<Rightarrow>
            bindI (attempts cfg message_id action data None [1..<nat (max_retries cfg) + 1])
              (\<lambda>x. case x of
                 None \<Rightarrow> Return ()
               | Some last_error \<Rightarrow>
                   thenI (send_to_dlq cfg message_id (text_dict payload) last_error) (xack cfg message_id)))
       (\<lambda>_. Return ())"

definition handle_message :: "config \<Rightarrow> pystr \<Rightarrow> fields \<Rightarrow> unit io" where
  "handle_message cfg message_id raw =
     bindI (do_text (SetRid (case request_id_of raw of None \<Rightarrow> message_id | Some r \<Rightarrow> r)))
       (\<lambda>token. finallyI (handle_entry cfg message_id raw) (do_op (ResetRid token)))"

definition dead_letter_reclaimed :: "config \<Rightarrow> pystr \<Rightarrow> fields \<Rightarrow> int \<Rightarrow> unit io" where
  "dead_letter_reclaimed cfg message_id raw deliveries =
     thenI (send_to_dlq cfg message_id (raw_payload raw)
              (Some (u ''Delivery limit reached ('' @ str_int deliveries @ u '' deliveries)'')))
       (xack cfg message_id)"

section \<open>Example\<close>

definition example_config :: config where
  "example_config = init_config (u ''calls_events'') (u ''applications'') (u ''worker'') None (u ''0a1b2c'')"

lemma example_simps: "max_retries example_config = 3" "stream_name example_config = u ''calls_events''"
    "max_loop_failures example_config = 20" "loop_error_delay example_config = PInt 5"
    "loop_error_max_delay example_config = PInt 60" "concurrency example_config = 10" "max_deliveries example_config = 5"
  by (simp_all add: example_config_def init_config_def)

text \<open>An entry with no data.\<close>

definition example_entry :: "pystr \<Rightarrow> fields" where
  "example_entry action = [(RStr (u ''action''), RStr action), (RStr (u ''data''), RStr (u ''{}''))]"

lemma loads_empty_object: "loads (u ''{}'') = Some (VDict [])"
  using loads_dumps [of False "VDict []" "u ''{}''"] by (simp add: u_def dict_wf_def)

lemma open_example: "open_envelope (example_entry a) = Inr ([(u ''action'', a), (u ''data'', u ''{}'')], a, [])"
  by (simp add: open_envelope_def decode_fields_def example_entry_def parse_envelope_def loads_empty_object
      dict_of_def)

end
