(* ===== verification/MessageLife.thy ===== *)
theory MessageLife imports Consumer begin

text \<open>
  What holds of the life of a message, whatever Redis, the handler of the service
  and cancellation do: no message is acknowledged without a reason, a slot of the semaphore is
  held exactly while an attempt runs, no exception escapes, the attempts are bounded.
\<close>

section \<open>Acknowledgements\<close>

text \<open>
  What allows to acknowledge a message: it was processed, it was written to the dead letter
  stream, or Redis reported that the entry itself is gone.
\<close>

fun justifies :: "config \<Rightarrow> pystr \<Rightarrow> op \<times> reply \<Rightarrow> bool" where
  "justifies cfg mid (ProcessMessage m a p, r) \<longleftrightarrow> m = mid \<and> \<not> failed (ProcessMessage m a p, r)"
| "justifies cfg mid (XAdd s fs l, r) \<longleftrightarrow> s = dlq_name (stream_name cfg) \<and>
     map_of fs (u ''original_message_id'') = Some (VStr mid) \<and> \<not> failed (XAdd s fs l, r)"
| "justifies cfg mid (XAutoclaim s g c i st n, RClaim next claimed) \<longleftrightarrow> (mid, None) \<in> set claimed"
| "justifies cfg mid _ \<longleftrightarrow> False"

fun ack_event :: "config \<Rightarrow> history \<Rightarrow> op \<times> reply \<Rightarrow> bool" where
  "ack_event cfg h (XAck s g m, r) \<longleftrightarrow>
     s = stream_name cfg \<and> g = group_name cfg \<and> list_ex (justifies cfg m) h"
| "ack_event cfg h _ \<longleftrightarrow> True"

abbreviation acks_ok :: "config \<Rightarrow> history \<Rightarrow> bool" where
  "acks_ok cfg \<equiv> always (ack_event cfg)"

lemma dlq_fields_id [simp]: "map_of (dlq_fields cfg mid t e) (u ''original_message_id'') = Some (VStr mid)"
  by (simp add: dlq_fields_def)

lemma acks_send_to_dlq:
  "acks_ok cfg h \<Longrightarrow> holds (acks_ok cfg) (send_to_dlq cfg mid p e) h
     (\<lambda>x h'. acks_ok cfg h' \<and> (\<forall>a. x = Inr a \<longrightarrow> list_ex (justifies cfg mid) h'))"
  by (auto simp: send_to_dlq_def split: option.split intro!: holds_do_op)

lemma acks_xack:
  "acks_ok cfg h \<Longrightarrow> list_ex (justifies cfg mid) h \<Longrightarrow>
   holds (acks_ok cfg) (xack cfg mid) h (\<lambda>x h'. acks_ok cfg h')"
  by (auto simp: xack_def intro!: holds_do_op)

lemma acks_dead_letter:
  "acks_ok cfg h \<Longrightarrow> holds (acks_ok cfg) (thenI (send_to_dlq cfg mid p e) (xack cfg mid)) h (\<lambda>x h'. acks_ok cfg h')"
  by (auto intro!: holds_mono [OF acks_send_to_dlq] acks_xack split: sum.split)

lemma acks_one_attempt:
  "acks_ok cfg h \<Longrightarrow> holds (acks_ok cfg) (one_attempt cfg mid a p) h (\<lambda>x h'. acks_ok cfg h')"
  by (auto simp: one_attempt_def xack_def intro!: holds_do_op split: sum.split)

lemma acks_attempts:
  "acks_ok cfg h \<Longrightarrow> holds (acks_ok cfg) (attempts cfg mid a p le ks) h (\<lambda>x h'. acks_ok cfg h')"
proof (induction ks arbitrary: le h)
  case (Cons k ks)
  then show ?case
    by (auto intro!: holds_mono [OF acks_one_attempt] holds_do_op split: sum.split)
qed simp

lemma acks_handle_entry:
  "acks_ok cfg h \<Longrightarrow> holds (acks_ok cfg) (handle_entry cfg mid raw) h (\<lambda>x h'. acks_ok cfg h')"
  by (auto simp: handle_entry_def reject_invalid_message_def split: sum.split option.split
      intro!: holds_mono [OF acks_attempts] holds_mono [OF acks_send_to_dlq] holds_mono [OF acks_xack])

lemma acks_handle_message:
  "acks_ok cfg h \<Longrightarrow> holds (acks_ok cfg) (handle_message cfg mid raw) h (\<lambda>x h'. acks_ok cfg h')"
  by (auto simp: handle_message_def do_text_def do_op_def split: reply.split sum.split
      intro!: holds_mono [OF acks_handle_entry])

lemma acks_dead_letter_reclaimed:
  "acks_ok cfg h \<Longrightarrow> holds (acks_ok cfg) (dead_letter_reclaimed cfg mid raw n) h (\<lambda>x h'. acks_ok cfg h')"
  unfolding dead_letter_reclaimed_def by (rule acks_dead_letter)

section \<open>The semaphore\<close>

text \<open>The slots a coroutine holds, and what it may do with or without one.\<close>

fun slot_change :: "op \<times> reply \<Rightarrow> int" where
  "slot_change (Acquire, r) = (if r = RNone then 1 else 0)"
| "slot_change (Release, r) = -1"
| "slot_change _ = 0"

definition held :: "history \<Rightarrow> int" where
  "held h = sum_list (map slot_change h)"

lemma held_simps [simp]:
  "held [] = 0" "held (e # h) = slot_change e + held h" "held (h @ h') = held h + held h'"
  by (simp_all add: held_def)

fun slot_event :: "history \<Rightarrow> op \<times> reply \<Rightarrow> bool" where
  "slot_event h (ProcessMessage m a p, r) \<longleftrightarrow> held h = 1"
| "slot_event h (Release, r) \<longleftrightarrow> held h = 1"
| "slot_event h (XAck s g m, r) \<longleftrightarrow> True"
| "slot_event h (SetRid t, r) \<longleftrightarrow> True"
| "slot_event h (ResetRid t, r) \<longleftrightarrow> True"
| "slot_event h (op, r) \<longleftrightarrow> held h = 0"

abbreviation "slots_ok \<equiv> always slot_event"

text \<open>\<open>frees t\<close>: started without a slot, \<open>t\<close> keeps to the rules and ends without one.\<close>

definition frees :: "'a io \<Rightarrow> bool" where
  "frees t \<longleftrightarrow> (\<forall>h. slots_ok h \<longrightarrow> held h = 0 \<longrightarrow> holds slots_ok t h (\<lambda>x h'. slots_ok h' \<and> held h' = 0))"

lemma freesD: "frees t \<Longrightarrow> slots_ok h \<Longrightarrow> held h = 0 \<Longrightarrow> holds slots_ok t h (\<lambda>x h'. slots_ok h' \<and> held h' = 0)"
  by (simp add: frees_def)

lemma frees_bind: "frees m \<Longrightarrow> (\<And>a. frees (f a)) \<Longrightarrow> frees (bindI m f)"
  by (force simp: frees_def intro: holds_mono split: sum.split)

lemma frees_catch: "frees m \<Longrightarrow> (\<And>e. frees (f e)) \<Longrightarrow> frees (catchI p m f)"
  by (force simp: frees_def intro: holds_mono split: sum.split)

lemma frees_finally: "frees m \<Longrightarrow> frees f \<Longrightarrow> frees (finallyI m f)"
  by (force simp: frees_def intro: holds_mono split: sum.split)

lemma frees_simple [simp, intro!]:
  "frees (Return a)" "frees (Throw e)" "frees (do_op (Sleep d))" "frees (do_op (XAdd s fs l))"
  "frees (do_op (XAck st g m))" "frees (do_text (SetRid r))" "frees (do_op (ResetRid r))"
  by (auto simp: frees_def do_op_def do_text_def split: reply.split)

lemma frees_one_attempt: "frees (one_attempt cfg mid a p)"
  by (auto simp: frees_def one_attempt_def xack_def do_op_def split: sum.split reply.split)

lemma frees_send_to_dlq: "frees (send_to_dlq cfg mid p e)"
  by (auto simp: send_to_dlq_def split: option.split)

lemma frees_xack: "frees (xack cfg mid)"
  by (simp add: xack_def)

lemmas frees_rules = frees_bind frees_catch frees_finally frees_one_attempt frees_send_to_dlq frees_xack

lemma frees_attempts: "frees (attempts cfg mid a p le ks)"
  by (induction ks arbitrary: le) (auto intro!: frees_rules split: option.split)

lemma frees_handle_message: "frees (handle_message cfg mid raw)"
  by (auto simp: handle_message_def handle_entry_def reject_invalid_message_def
      intro!: frees_rules frees_attempts split: sum.split option.split)

lemma frees_dead_letter_reclaimed: "frees (dead_letter_reclaimed cfg mid raw n)"
  by (auto simp: dead_letter_reclaimed_def intro!: frees_rules)

section \<open>Errors\<close>

lemma holds_true: "holds (\<lambda>_. True) m h (\<lambda>_ _. True)"
  by (induction m arbitrary: h) auto

lemma handle_entry_errors:
  "holds (\<lambda>_. True) (handle_entry cfg mid raw) h (\<lambda>x _. \<forall>e. x = Inl e \<longrightarrow> e = CancelledError)"
  unfolding handle_entry_def holds_catch
  by (rule holds_mono [OF holds_true]) (auto simp: is_Exception_def split: sum.split)

section \<open>Counting operations\<close>

lemma uses_do: "uses p (do_op op) n \<longleftrightarrow> \<not> p op \<or> 0 < n"
  by (auto simp: do_op_def split: reply.split)

lemma uses_xack: "\<not> p (XAck (stream_name cfg) (group_name cfg) mid) \<Longrightarrow> uses p (xack cfg mid) n"
  by (simp add: xack_def uses_do)

abbreviation of_kind :: "(op \<Rightarrow> bool) \<Rightarrow> op \<Rightarrow> nat" where
  "of_kind q op \<equiv> (if q op then 1 else 0)"

text \<open>The most one attempt does, and the loop over the attempts.\<close>

lemma uses_one_attempt:
  "uses q (one_attempt cfg mid a p)
     (of_kind q Acquire + ((of_kind q (ProcessMessage mid a p) +
       of_kind q (XAck (stream_name cfg) (group_name cfg) mid)) + of_kind q Release))"
  unfolding one_attempt_def xack_def by (intro uses_bind uses_finally uses_op)

lemma uses_attempts:
  assumes "uses q (one_attempt cfg mid a p) n"
  shows "uses q (attempts cfg mid a p le ks) ((n + of_kind q (Sleep (retry_delay cfg))) * length ks)"
proof (induction ks arbitrary: le)
  case (Cons k ks)
  let ?s = "of_kind q (Sleep (retry_delay cfg))"
  let ?m = "(n + ?s) * length ks"
  have 1: "uses q (catchI is_Exception (thenI (one_attempt cfg mid a p) (Return None)) (\<lambda>e. Return (Some e))) (n + 0 + 0)"
    by (rule uses_catch, rule uses_bind [OF assms]) simp_all
  have 2: "uses q (thenI (do_op (Sleep (retry_delay cfg))) (attempts cfg mid a p le ks)) (?s + ?m)" for le
    by (rule uses_bind [OF uses_op(1) Cons])
  have 3: "uses q (case y of None \<Rightarrow> Return None
      | Some e \<Rightarrow> (if non_retryable e then Return (Some (Some (error_of e)))
             else if int k < max_retries cfg then
               thenI (do_op (Sleep (retry_delay cfg))) (attempts cfg mid a p (Some (error_of e)) ks)
             else attempts cfg mid a p (Some (error_of e)) ks)) (?s + ?m)" for y
    using 2 uses_add [where a = ?s, OF Cons] by (cases y) simp_all
  have "n + 0 + 0 + (?s + ?m) = (n + ?s) * length (k # ks)"
    by simp
  with uses_bind [OF 1 3] show ?case by (simp only: attempts.simps)
qed simp

lemma uses_send_to_dlq:
  "(\<And>fs. q (XAdd (dlq_name (stream_name cfg)) fs (dlq_maxlen cfg)) \<Longrightarrow> 0 < n) \<Longrightarrow> uses q (send_to_dlq cfg mid p e) n"
  by (auto simp: send_to_dlq_def uses_do split: option.split)

lemma uses_handle_entry:
  assumes "\<And>a p. uses q (one_attempt cfg mid a p) n"
    and "\<And>fs. q (XAdd (dlq_name (stream_name cfg)) fs (dlq_maxlen cfg)) \<Longrightarrow> 0 < d"
  shows "uses q (handle_entry cfg mid raw)
    ((n + of_kind q (Sleep (retry_delay cfg))) * nat (max_retries cfg) +
     (d + of_kind q (XAck (stream_name cfg) (group_name cfg) mid)))"
proof -
  let ?a = "of_kind q (XAck (stream_name cfg) (group_name cfg) mid)"
  have dlq: "uses q (thenI (send_to_dlq cfg mid p e) (xack cfg mid)) (d + ?a)" for p e
    unfolding xack_def by (rule uses_bind [OF uses_send_to_dlq uses_op(1)]) (rule assms(2))
  have "uses q (bindI (attempts cfg mid a p None [1..<nat (max_retries cfg) + 1])
      (\<lambda>x. case x of None \<Rightarrow> Return () | Some e \<Rightarrow> thenI (send_to_dlq cfg mid t e) (xack cfg mid)))
      ((n + of_kind q (Sleep (retry_delay cfg))) * nat (max_retries cfg) + (d + ?a))" for a p t
  proof (rule uses_bind)
    show "uses q (attempts cfg mid a p None [1..<nat (max_retries cfg) + 1])
      ((n + of_kind q (Sleep (retry_delay cfg))) * nat (max_retries cfg))"
      using uses_attempts [OF assms(1), of a p None "[1..<nat (max_retries cfg) + 1]"]
      by (simp del: upt_Suc)
    show "uses q (case x of None \<Rightarrow> Return () | Some e \<Rightarrow> thenI (send_to_dlq cfg mid t e) (xack cfg mid)) (d + ?a)" for x
      using dlq by (cases x) simp_all
  qed
  note run = this
  have "uses q (case open_envelope raw of
          Inl e \<Rightarrow> reject_invalid_message cfg mid raw (envelope_reason e)
        | Inr (payload, action, data) \<Rightarrow>
            bindI (attempts cfg mid action data None [1..<nat (max_retries cfg) + 1])
              (\<lambda>x. case x of None \<Rightarrow> Return ()
               | Some le \<Rightarrow> thenI (send_to_dlq cfg mid (text_dict payload) le) (xack cfg mid)))
     ((n + of_kind q (Sleep (retry_delay cfg))) * nat (max_retries cfg) + (d + ?a))"
    (is "uses q _ ?n")
  proof (cases "open_envelope raw")
    case (Inl e)
    then show ?thesis by (simp only: sum.case reject_invalid_message_def) (rule uses_add [OF dlq])
  next
    case (Inr x)
    obtain payload action data where x: "x = (payload, action, data)" by (cases x) auto
    show ?thesis by (simp only: Inr x sum.case prod.case) (rule run)
  qed
  from uses_catch [OF this, of "\<lambda>_. Return ()" 0 is_Exception] show ?thesis
    by (simp add: handle_entry_def)
qed

end
