(* ===== verification/MessageOutcome.thy ===== *)
theory MessageOutcome imports MessageLife begin

text \<open>
  The contract of one message: bounds of its operations, the context variable, and the
  abstract outcome \<open>settle\<close> that the coroutine refines when Redis is up.
\<close>

section \<open>Bounds\<close>

lemma uses_one:
  "uses is_process (one_attempt cfg mid a p) 1" "uses is_sleep (one_attempt cfg mid a p) 0"
  "uses is_xadd (one_attempt cfg mid a p) 0" "uses is_var (one_attempt cfg mid a p) 0"
  "ends_in (one_attempt cfg mid a p) 4"
  using uses_one_attempt [of is_process cfg mid a p] uses_one_attempt [of is_sleep cfg mid a p]
    uses_one_attempt [of is_xadd cfg mid a p] uses_one_attempt [of is_var cfg mid a p]
    uses_one_attempt [of "\<lambda>_. True" cfg mid a p]
  by (simp_all add: eval_nat_numeral)

lemma uses_handle_message:
  assumes "uses q (handle_entry cfg mid raw) n"
  shows "uses q (handle_message cfg mid raw) ((if \<exists>r. q (SetRid r) then 1 else 0) + (n + (if \<exists>r. q (ResetRid r) then 1 else 0)))"
proof -
  have "uses q (do_text (SetRid r)) (if \<exists>r. q (SetRid r) then 1 else 0)" for r
    by (rule uses_mono [OF uses_op(2)]) auto
  moreover have "uses q (do_op (ResetRid r)) (if \<exists>r. q (ResetRid r) then 1 else 0)" for r
    by (rule uses_mono [OF uses_op(1)]) auto
  ultimately show ?thesis
    unfolding handle_message_def by (intro uses_bind uses_finally assms)
qed

lemma handle_message_processes: "uses is_process (handle_message cfg mid raw) (nat (max_retries cfg))"
  using uses_handle_message [OF uses_handle_entry [where q = is_process and d = 0, OF uses_one(1)]]
  by simp

lemma handle_message_sleeps: "uses is_sleep (handle_message cfg mid raw) (nat (max_retries cfg))"
  using uses_handle_message [OF uses_handle_entry [where q = is_sleep and d = 0, OF uses_one(2)]]
  by simp

lemma handle_message_xadds: "uses is_xadd (handle_message cfg mid raw) 1"
  using uses_handle_message [OF uses_handle_entry [where q = is_xadd and d = 1, OF uses_one(3)]]
  by simp

lemma handle_message_ends: "ends_in (handle_message cfg mid raw) (5 * nat (max_retries cfg) + 4)"
  by (rule uses_mono [OF uses_handle_message [OF uses_handle_entry [where q = "\<lambda>_. True" and d = 1, OF uses_one(5)]]]) auto

lemma dead_letter_ends: "ends_in (dead_letter_reclaimed cfg mid raw n) 2"
  unfolding dead_letter_reclaimed_def xack_def
  by (rule uses_mono, rule uses_bind [where p = "\<lambda>_. True" and a = 1 and b = 1])
    (auto intro: uses_send_to_dlq simp: uses_do)

section \<open>The request id\<close>

lemma handle_entry_no_var: "uses is_var (handle_entry cfg mid raw) 0"
  using uses_handle_entry [where q = is_var and d = 0, OF uses_one(4)] by simp

definition rid_of :: "pystr \<Rightarrow> fields \<Rightarrow> pystr" where
  "rid_of mid raw = (case request_id_of raw of None \<Rightarrow> mid | Some r \<Rightarrow> r)"

lemma handle_message_run:
  assumes "answer f (handle_message cfg mid raw) s = (x, h, s')"
  shows "\<exists>t s1 es s2 r. f s (SetRid (rid_of mid raw)) = (r, s1) \<and> fit (SetRid (rid_of mid raw)) r = RText t \<and>
    answer f (handle_entry cfg mid raw) s1 = (x, es, s2) \<and>
    h = (SetRid (rid_of mid raw), RText t) # es @ [(ResetRid t, RNone)] \<and> s' = snd (f s2 (ResetRid t))"
proof -
  obtain r s1 where f: "f s (SetRid (rid_of mid raw)) = (r, s1)" by (cases "f s (SetRid (rid_of mid raw))")
  have "possible (SetRid (rid_of mid raw)) (fit (SetRid (rid_of mid raw)) r)" by (rule possible_fit)
  then obtain t where t: "fit (SetRid (rid_of mid raw)) r = RText t" by auto
  obtain y es s2 where e: "answer f (handle_entry cfg mid raw) s1 = (y, es, s2)"
    by (cases "answer f (handle_entry cfg mid raw) s1")
  from assms f t e show ?thesis
    by (auto simp: handle_message_def rid_of_def answer_bind answer_finally do_text_def do_op_def split: prod.splits)
qed

text \<open>
  C5. Whatever happens around a message, its coroutine ends by itself with no exception other than a
  cancellation; it does at most \<open>max_retries\<close> attempts, at most one XADD, and
  \<open>5 * max_retries + 4\<close> operations in all; its first operation puts the request id of the entry (or the id
  of the message) in the context, its last one restores what was there, and nothing
  between changes it.
\<close>

theorem handle_message_contract:
  "case answer f (handle_message cfg mid raw) s of (x, h, s') \<Rightarrow>
     (case x of Inl e \<Rightarrow> e = CancelledError | Inr _ \<Rightarrow> True) \<and>
     number is_process h \<le> nat (max_retries cfg) \<and> number is_xadd h \<le> 1 \<and>
     length h \<le> 5 * nat (max_retries cfg) + 4 \<and>
     (\<exists>t es. h = (SetRid (rid_of mid raw), RText t) # es @ [(ResetRid t, RNone)] \<and> number is_var es = 0)"
proof -
  obtain x h s' where a: "answer f (handle_message cfg mid raw) s = (x, h, s')"
    by (cases "answer f (handle_message cfg mid raw) s")
  obtain t s1 es s2 where e: "answer f (handle_entry cfg mid raw) s1 = (x, es, s2)"
    and h: "h = (SetRid (rid_of mid raw), RText t) # es @ [(ResetRid t, RNone)]"
    using handle_message_run [OF a] by blast
  have "case x of Inl e \<Rightarrow> e = CancelledError | Inr _ \<Rightarrow> True"
    using answer_holds [where f = f and s = s1, OF handle_entry_errors [of cfg mid raw "[]"]] e
    by (auto split: sum.splits)
  moreover have "number is_var es = 0"
    using answer_uses [where f = f and s = s1, OF handle_entry_no_var [of cfg mid raw]] e by simp
  moreover have "number is_process h \<le> nat (max_retries cfg)" "number is_xadd h \<le> 1"
      "length h \<le> 5 * nat (max_retries cfg) + 4"
    using answer_uses [where f = f and s = s, OF handle_message_processes [of cfg mid raw]]
      answer_uses [where f = f and s = s, OF handle_message_xadds [of cfg mid raw]]
      answer_uses [where f = f and s = s, OF handle_message_ends [of cfg mid raw]] a
    by (simp_all add: number_all)
  ultimately show ?thesis using a h by auto
qed

section \<open>The outcome\<close>

text \<open>
  What becomes of a message when Redis is up, from the replies of the handler of the service to the
  attempts: acknowledged, to the dead letter stream with an error, or left pending by a cancellation;
  and after how many attempts.
\<close>

datatype verdict = Applied | Dead "pystr option" | Cancelled

fun settle :: "nat \<Rightarrow> pystr option \<Rightarrow> reply list \<Rightarrow> verdict \<times> nat" where
  "settle 0 le outs = (Dead le, 0)"
| "settle (Suc n) le [] = (Applied, 1)"
| "settle (Suc n) le (RExn e # outs) =
     (if e = CancelledError then (Cancelled, 1)
      else if non_retryable e then (Dead (Some (exn_text e)), 1)
      else (case settle n (Some (exn_name e)) outs of (v, k) \<Rightarrow> (v, Suc k)))"
| "settle (Suc n) le (out # outs) = (Applied, 1)"

text \<open>
  A server where Redis is up, except that the dead letter stream answers \<open>dlq\<close>, and the handler of the
  service gives the outcomes of a list (then it succeeds).
\<close>

fun worker :: "reply \<Rightarrow> reply list \<Rightarrow> op \<Rightarrow> reply \<times> reply list" where
  "worker dlq outs (ProcessMessage m a p) = (case outs of [] \<Rightarrow> (RNone, []) | out # later \<Rightarrow> (out, later))"
| "worker dlq outs (XAdd s fs l) = (dlq, outs)"
| "worker dlq outs (SetRid r) = (RText no_request_id, outs)"
| "worker dlq outs _ = (RNone, outs)"

fun is_write :: "op \<Rightarrow> bool" where
  "is_write (XAck _ _ _) = True"
| "is_write (XAdd _ _ _) = True"
| "is_write _ = False"

definition writes :: "history \<Rightarrow> op list" where
  "writes h = filter is_write (map fst h)"

lemma writes_simps [simp]:
  "writes [] = []" "writes ((op, r) # h) = (if is_write op then [op] else []) @ writes h"
  "writes (h @ h') = writes h @ writes h'"
  by (simp_all add: writes_def)

definition acked :: "config \<Rightarrow> pystr \<Rightarrow> op" where
  "acked cfg mid = XAck (stream_name cfg) (group_name cfg) mid"

lemma one_attempt_worker:
  "answer (worker dlq) (one_attempt cfg mid a p) outs =
     (case outs of
        RExn e # later \<Rightarrow> (Inl e, [(Acquire, RNone), (ProcessMessage mid a p, RExn e), (Release, RNone)], later)
      | _ \<Rightarrow> (Inr (), [(Acquire, RNone), (ProcessMessage mid a p, case outs of [] \<Rightarrow> RNone | out # _ \<Rightarrow> out),
                       (acked cfg mid, RNone), (Release, RNone)], tl outs))"
  by (auto simp: one_attempt_def xack_def acked_def do_op_def answer_bind answer_finally
      split: list.split reply.split)

fun verdict_result :: "verdict \<Rightarrow> exn + pystr option option" where
  "verdict_result Applied = Inr None"
| "verdict_result (Dead e) = Inr (Some e)"
| "verdict_result Cancelled = Inl CancelledError"

lemma non_retryable_error: "non_retryable e \<Longrightarrow> error_of e = exn_text e"
  "\<not> non_retryable e \<Longrightarrow> error_of e = exn_name e"
  by (cases e; simp)+

definition attempts_match :: "config \<Rightarrow> pystr \<Rightarrow> verdict \<times> nat \<Rightarrow> (exn + pystr option option) \<times> history \<Rightarrow> bool" where
  "attempts_match cfg mid vk xh = (case (vk, xh) of ((v, k), (x, h)) \<Rightarrow>
     x = verdict_result v \<and> number is_process h = k \<and> number is_sleep h = k - 1 \<and>
     writes h = (if v = Applied then [acked cfg mid] else []))"

lemma settle_bounds: "snd (settle n le outs) \<le> n \<and> (0 < n \<longrightarrow> 0 < snd (settle n le outs))"
proof (induction n arbitrary: le outs)
  case (Suc n)
  show ?case
  proof (cases outs)
    case (Cons r later)
    show ?thesis
    proof (cases r)
      case (RExn e)
      with Cons Suc.IH [of "Some (exn_name e)" later] show ?thesis by (auto split: prod.splits)
    qed (simp_all add: Cons)
  qed simp
qed simp

lemma settle_attempts: "settle (Suc n) le outs = (v, k) \<Longrightarrow> 1 \<le> k \<and> k \<le> Suc n"
  using settle_bounds [of "Suc n" le outs] by simp

lemma attempts_worker:
  "nat (max_retries cfg) = i + n \<Longrightarrow>
   attempts_match cfg mid (settle n le outs)
     (case answer (worker dlq) (attempts cfg mid a p le [Suc i..<Suc (i + n)]) outs of (x, h, _) \<Rightarrow> (x, h))"
proof (induction n arbitrary: i le outs)
  case 0
  then show ?case by (simp add: attempts_match_def)
next
  case (Suc n)
  have upt: "[Suc i..<Suc (i + Suc n)] = Suc i # [Suc (Suc i)..<Suc (Suc i + n)]"
    by (simp add: upt_conv_Cons del: upt_Suc)
  have IH: "attempts_match cfg mid (settle n le' outs')
     (case answer (worker dlq) (attempts cfg mid a p le' [Suc (Suc i)..<Suc (Suc i + n)]) outs' of (x, h, _) \<Rightarrow> (x, h))"
    for le' outs'
    using Suc.prems by (intro Suc.IH) simp
  have last: "n = 0 \<longleftrightarrow> \<not> int (Suc i) < max_retries cfg"
    using Suc.prems by auto
  show ?case
  proof (cases "\<exists>e later. outs = RExn e # later \<and> is_Exception e \<and> \<not> non_retryable e")
    case True
    then obtain e later where o: "outs = RExn e # later" "is_Exception e" "\<not> non_retryable e" by auto
    show ?thesis
    proof (cases n)
      case 0
      with o last show ?thesis
        by (simp add: attempts_match_def upt_conv_Cons answer_bind answer_catch one_attempt_worker
            non_retryable_error is_Exception_def acked_def)
    next
      case (Suc m)
      with o last IH [of "Some (exn_name e)" later] show ?thesis
        unfolding upt
        by (auto dest!: settle_attempts simp: attempts_match_def answer_bind answer_catch one_attempt_worker do_op_def
            non_retryable_error is_Exception_def split: prod.splits simp del: upt_Suc)
    qed
  next
    case False
    then show ?thesis
      unfolding upt
      by (auto simp: attempts_match_def answer_bind answer_catch one_attempt_worker acked_def
          non_retryable_error is_Exception_def split: list.split reply.split simp del: upt_Suc)
  qed
qed

lemma dumps_items_text: "\<exists>t. dumps_items True (map (\<lambda>(k, v). (k, VStr v)) d) = Some t"
proof (induction d)
  case (Cons kv d)
  then show ?case by (cases kv; cases d) auto
qed simp

lemma text_dict_serializable: "\<exists>t. dumps True (VDict (text_dict d)) = Some t"
  using dumps_items_text [of d] by (auto simp: text_dict_def)

lemma dumps_items_raw: "list_all (\<lambda>(k, v). \<exists>r. v = raw_value r) d \<Longrightarrow> \<exists>t. dumps_items True d = Some t"
proof (induction d)
  case (Cons kv d)
  then obtain k r where kv: "kv = (k, raw_value r)" by (cases kv) auto
  have "\<exists>t. dumps True (raw_value r) = Some t" by (cases r) auto
  with kv Cons show ?case by (cases d) auto
qed simp

lemma update_raw:
  "list_all (\<lambda>(k, v). \<exists>r. v = raw_value r) d \<Longrightarrow> list_all (\<lambda>(k, v). \<exists>r. v = raw_value r) (AList.update k (raw_value r) d)"
  by (induction d) auto

lemma fold_update_raw:
  "list_all (\<lambda>(k, v). \<exists>r. v = raw_value r) d \<Longrightarrow>
   list_all (\<lambda>(k, v). \<exists>r. v = raw_value r)
     (fold (\<lambda>(k, v). AList.update k v) (map (\<lambda>(k, v). (str_key k, raw_value v)) raw) d)"
  by (induction raw arbitrary: d) (auto simp: update_raw)

text \<open>What goes to the dead letter stream can always be written as JSON.\<close>

lemma raw_payload_serializable: "\<exists>t. dumps True (VDict (raw_payload raw)) = Some t"
  using dumps_items_raw [OF fold_update_raw [of "[]" raw]] by (auto simp: raw_payload_def dict_of_def)

text \<open>The XADD of the dead letter stream.\<close>

definition dead_letter :: "config \<Rightarrow> pystr \<Rightarrow> (pystr, pyval) dict \<Rightarrow> pystr option \<Rightarrow> op" where
  "dead_letter cfg mid payload e =
     XAdd (dlq_name (stream_name cfg)) (dlq_fields cfg mid (the (dumps True (VDict payload))) e) (dlq_maxlen cfg)"

definition dead_letter_writes :: "config \<Rightarrow> pystr \<Rightarrow> (pystr, pyval) dict \<Rightarrow> pystr option \<Rightarrow> reply \<Rightarrow> op list" where
  "dead_letter_writes cfg mid payload e dlq =
     dead_letter cfg mid payload e # (case dlq of RExn _ \<Rightarrow> [] | _ \<Rightarrow> [acked cfg mid])"

lemma xack_worker: "answer (worker dlq) (xack cfg mid) outs = (Inr (), [(acked cfg mid, RNone)], outs)"
  by (simp add: xack_def acked_def do_op_def)

lemma send_worker:
  assumes "dumps True (VDict payload) = Some t"
  shows "answer (worker dlq) (send_to_dlq cfg mid payload e) outs =
    (case dlq of RExn x \<Rightarrow> Inl x | _ \<Rightarrow> Inr (), [(dead_letter cfg mid payload e, dlq)], outs)"
  by (simp add: assms send_to_dlq_def dead_letter_def do_op_def del: dumps.simps split: reply.split)

lemma attempts_of_outcome:
  assumes "open_envelope raw = Inr (payload, action, data)"
    and "settle (nat (max_retries cfg)) None outs = (v, k)"
    and "answer (worker dlq) (handle_message cfg mid raw) outs = (x, h, s')"
  shows "number is_process h = k \<and> number is_sleep h = k - 1 \<and>
    writes h = (case v of Applied \<Rightarrow> [acked cfg mid]
      | Dead e \<Rightarrow> dead_letter_writes cfg mid (text_dict payload) e dlq
      | Cancelled \<Rightarrow> [])"
proof -
  obtain t where t: "dumps True (VDict (text_dict payload)) = Some t"
    using text_dict_serializable by blast
  obtain r s1 es s2 where es: "answer (worker dlq) (handle_entry cfg mid raw) outs = (x, es, s2)"
    and h: "h = (SetRid (rid_of mid raw), RText r) # es @ [(ResetRid r, RNone)]"
    using handle_message_run [OF assms(3)] by auto
  have "attempts_match cfg mid (v, k)
     (case answer (worker dlq) (attempts cfg mid action data None [1..<nat (max_retries cfg) + 1]) outs of (x, h, _) \<Rightarrow> (x, h))"
    using attempts_worker [of cfg 0 "nat (max_retries cfg)" mid None outs dlq action data] assms(2)
    by (simp del: upt_Suc)
  then obtain g s3 where
    g: "answer (worker dlq) (attempts cfg mid action data None [1..<nat (max_retries cfg) + 1]) outs =
      (verdict_result v, g, s3)" "number is_process g = k" "number is_sleep g = k - 1"
      "writes g = (if v = Applied then [acked cfg mid] else [])"
    by (auto simp: attempts_match_def split: prod.splits)
  have "number is_process es = k \<and> number is_sleep es = k - 1 \<and>
    writes es = (case v of Applied \<Rightarrow> [acked cfg mid]
      | Dead e \<Rightarrow> dead_letter_writes cfg mid (text_dict payload) e dlq
      | Cancelled \<Rightarrow> [])"
    using es g assms(1)
    by (cases v) (auto simp: handle_entry_def answer_catch answer_bind send_worker [OF t] xack_worker
        dead_letter_writes_def dead_letter_def acked_def split: reply.splits if_splits simp del: upt_Suc dumps.simps)
  then show ?thesis by (simp add: h split: verdict.split)
qed

text \<open>
  C2. When Redis acknowledges, a message with a valid envelope ends as \<open>settle\<close> says: one attempt after
  another with a sleep in between, until one succeeds, one fails for good, or none is left. A
  success is acknowledged and nothing else is written; a failure is written to the dead letter stream,
  with the id, the payload and the error, and acknowledged only if that worked; a
  cancelled message stays pending.
\<close>

theorem handle_message_outcome:
  assumes "open_envelope raw = Inr (payload, action, data)"
    and "settle (nat (max_retries cfg)) None outs = (v, k)"
    and "answer (worker dlq) (handle_message cfg mid raw) outs = (x, h, s')"
  shows "number is_process h = k \<and> number is_sleep h = k - 1 \<and>
    writes h = (case v of Applied \<Rightarrow> [acked cfg mid]
      | Dead e \<Rightarrow> dead_letter_writes cfg mid (text_dict payload) e dlq
      | Cancelled \<Rightarrow> [])"
  using assms by (rule attempts_of_outcome)

theorem handle_message_outcome_witness:
  "\<exists>x h s'. answer (worker RNone) (handle_message example_config (u ''1-0'') (example_entry (u ''sync'')))
      [RExn (Builtin ''ValueError'' [])] = (x, h, s') \<and>
    number is_process h = 2 \<and> number is_sleep h = 1 \<and> writes h = [acked example_config (u ''1-0'')]"
proof -
  obtain x h s' where a: "answer (worker RNone) (handle_message example_config (u ''1-0'') (example_entry (u ''sync'')))
      [RExn (Builtin ''ValueError'' [])] = (x, h, s')"
    by (metis prod_cases3)
  have "settle (nat (max_retries example_config)) None [RExn (Builtin ''ValueError'' [])] = (Applied, 2)"
    by (simp add: example_simps eval_nat_numeral)
  from handle_message_outcome [OF open_example this a] a show ?thesis by auto
qed

text \<open>
  C6. An entry that is not a valid message is never processed: it is written to the dead letter stream as it
  is, with the reason, and acknowledged if that worked.
\<close>

theorem invalid_message_outcome:
  assumes "open_envelope raw = Inl e"
    and "answer (worker dlq) (handle_message cfg mid raw) outs = (x, h, s')"
  shows "number is_process h = 0 \<and> number is_sleep h = 0 \<and>
    writes h = dead_letter_writes cfg mid (raw_payload raw)
      (Some (u ''Invalid message: '' @ envelope_reason e)) dlq"
proof -
  obtain t where t: "dumps True (VDict (raw_payload raw)) = Some t"
    using raw_payload_serializable by blast
  obtain r s1 es s2 where es: "answer (worker dlq) (handle_entry cfg mid raw) outs = (x, es, s2)"
    and h: "h = (SetRid (rid_of mid raw), RText r) # es @ [(ResetRid r, RNone)]"
    using handle_message_run [OF assms(2)] by auto
  have "number is_process es = 0 \<and> number is_sleep es = 0 \<and>
    writes es = dead_letter_writes cfg mid (raw_payload raw)
      (Some (u ''Invalid message: '' @ envelope_reason e)) dlq"
    using es assms(1)
    by (auto simp: handle_entry_def reject_invalid_message_def answer_catch answer_bind send_worker [OF t] xack_worker
        dead_letter_writes_def dead_letter_def acked_def split: reply.splits if_splits simp del: dumps.simps)
  then show ?thesis by (simp add: h)
qed

theorem invalid_message_outcome_witness:
  "\<exists>x h s'. answer (worker RNone) (handle_message example_config (u ''1-0'') []) [] = (x, h, s') \<and>
    number is_process h = 0 \<and> length (writes h) = 2"
proof -
  obtain x h s' where a: "answer (worker RNone) (handle_message example_config (u ''1-0'') []) [] = (x, h, s')"
    by (metis prod_cases3)
  have "open_envelope [] = Inl (InvalidMessageError (u ''missing '' @ quoted ''action'' @ u '' or '' @ quoted ''data''))"
    by (simp add: open_envelope_def decode_fields_def parse_envelope_def dict_of_def)
  from invalid_message_outcome [OF this a] a show ?thesis by (auto simp: dead_letter_writes_def)
qed

section \<open>No text of an error in the dead letter stream\<close>

text \<open>
  Two outcomes of an attempt that differ only in the text of an error that is not a
  \<open>NonRetryableError\<close>.
\<close>

fun alike :: "reply \<Rightarrow> reply \<Rightarrow> bool" where
  "alike (RExn e) (RExn e') \<longleftrightarrow> e = e' \<or>
     (\<not> non_retryable e \<and> \<not> non_retryable e' \<and> exn_name e = exn_name e' \<and> is_Exception e \<and> is_Exception e')"
| "alike (RExn e) r \<longleftrightarrow> False"
| "alike r (RExn e) \<longleftrightarrow> False"
| "alike r r' \<longleftrightarrow> True"

lemma settle_alike: "list_all2 alike outs outs' \<Longrightarrow> settle n le outs = settle n le outs'"
proof (induction n arbitrary: le outs outs')
  case (Suc n)
  show ?case
  proof (cases outs)
    case Nil
    with Suc.prems show ?thesis by simp
  next
    case (Cons r later)
    then obtain r' later' where o: "outs' = r' # later'" "alike r r'" "list_all2 alike later later'"
      using Suc.prems by (auto simp: list_all2_Cons1)
    with Suc.IH [OF o(3)] Cons show ?thesis
      by (cases "(r, r')" rule: alike.cases) (auto simp: is_Exception_def)
  qed
qed simp

text \<open>
  C7. Nothing of the text of an error reaches the dead letter stream unless the service raised it as a
  \<open>NonRetryableError\<close>: two runs in which the handler of the service fails with the same types of
  errors, but other texts, write exactly the same to Redis.
\<close>

theorem error_texts_stay_out:
  assumes "list_all2 alike outs outs'" and "open_envelope raw = Inr (payload, action, data)"
    and "answer (worker dlq) (handle_message cfg mid raw) outs = (x, h, s)"
    and "answer (worker dlq) (handle_message cfg mid raw) outs' = (x', h', s')"
  shows "writes h = writes h' \<and> number is_process h = number is_process h'"
proof -
  obtain v k where vk: "settle (nat (max_retries cfg)) None outs = (v, k)" by (cases "settle (nat (max_retries cfg)) None outs")
  with settle_alike [OF assms(1)] have vk': "settle (nat (max_retries cfg)) None outs' = (v, k)" by metis
  from attempts_of_outcome [OF assms(2) vk assms(3)] attempts_of_outcome [OF assms(2) vk' assms(4)]
  show ?thesis by simp
qed

theorem error_texts_stay_out_witness:
  "\<exists>x h s x' h' s'. answer (worker RNone) (handle_message example_config (u ''1-0'') (example_entry (u ''sync'')))
      (replicate 3 (RExn (Builtin ''ValueError'' (u ''ann@example.org'')))) = (x, h, s) \<and>
    answer (worker RNone) (handle_message example_config (u ''1-0'') (example_entry (u ''sync'')))
      (replicate 3 (RExn (Builtin ''ValueError'' []))) = (x', h', s') \<and> writes h = writes h'"
proof -
  obtain x h s where a: "answer (worker RNone) (handle_message example_config (u ''1-0'') (example_entry (u ''sync'')))
      (replicate 3 (RExn (Builtin ''ValueError'' (u ''ann@example.org'')))) = (x, h, s)"
    by (metis prod_cases3)
  obtain x' h' s' where a': "answer (worker RNone) (handle_message example_config (u ''1-0'') (example_entry (u ''sync'')))
      (replicate 3 (RExn (Builtin ''ValueError'' []))) = (x', h', s')"
    by (metis prod_cases3)
  have "list_all2 alike (replicate 3 (RExn (Builtin ''ValueError'' (u ''ann@example.org''))))
      (replicate 3 (RExn (Builtin ''ValueError'' [])))"
    by (simp add: eval_nat_numeral)
  from error_texts_stay_out [OF this open_example a a'] a a' show ?thesis by blast
qed

end
