(* ===== verification/EventChannel.thy ===== *)
theory EventChannel imports MessageOutcome begin

text \<open>
  From the producer to the consumer: the fields \<open>emit\<close> writes, as a client reads them back from Redis
  (decoded or not), and the contract between the two ends, with its client lemmas.
\<close>

section \<open>The fields on the wire\<close>

text \<open>Redis keeps bytes: a text is encoded, and decoded again when the client is set up so.\<close>

definition wire_text :: "bool \<Rightarrow> pystr \<Rightarrow> rtext option" where
  "wire_text decode s = map_option (\<lambda>b. if decode then RStr s else RBytes b) (utf8_encode s)"

fun wire :: "bool \<Rightarrow> (pystr, pyval) dict \<Rightarrow> fields option" where
  "wire d [] = Some []"
| "wire d ((k, VStr v) # kvs) = (case (wire_text d k, wire_text d v, wire d kvs) of
     (Some k', Some v', Some r) \<Rightarrow> Some ((k', v') # r) | _ \<Rightarrow> None)"
| "wire d (_ # kvs) = None"

definition emit_wire :: "bool \<Rightarrow> pystr \<Rightarrow> pystr \<Rightarrow> (pystr, pyval) dict \<Rightarrow> fields option" where
  "emit_wire d rid action payload = (case stream_data rid action payload of
     Inl _ \<Rightarrow> None | Inr flds \<Rightarrow> wire d flds)"

fun the_text :: "pyval \<Rightarrow> pystr" where
  "the_text (VStr s) = s"
| "the_text _ = []"

lemma decode_wire_text: "wire_text d s = Some t \<Longrightarrow> decode_text t = Inr s"
  by (auto simp: wire_text_def utf8_decode_encode split: if_splits)

lemma decode_items_wire: "wire d flds = Some raw \<Longrightarrow> decode_items raw = Inr (map (\<lambda>(k, v). (k, the_text v)) flds)"
  by (induction d flds arbitrary: raw rule: wire.induct) (auto split: option.splits dest!: decode_wire_text)

lemma decode_fields_wire:
  assumes "wire d flds = Some raw" and "dict_wf flds"
  shows "decode_fields raw = Inr (map (\<lambda>(k, v). (k, the_text v)) flds)"
proof -
  have "dict_wf (map (\<lambda>(k, v). (k, the_text v)) flds)"
    using assms(2) by (simp add: dict_wf_def comp_def case_prod_beta')
  then show ?thesis
    using decode_items_wire [OF assms(1)] by (simp add: decode_fields_def dict_of_distinct)
qed

definition norm_payload :: "(pystr, pyval) dict \<Rightarrow> (pystr, pyval) dict" where
  "norm_payload p = map (\<lambda>(k, v). (k, json_norm v)) p"

definition good_payload :: "(pystr, pyval) dict \<Rightarrow> bool" where
  "good_payload p \<longleftrightarrow> json_ok (VDict p)"

lemma open_envelope_wire:
  assumes "emit_wire d rid action payload = Some raw" and "good_payload payload"
  shows "\<exists>x. open_envelope raw = Inr (x, action, norm_payload payload)"
proof -
  obtain flds where flds: "stream_data rid action payload = Inr flds" "wire d flds = Some raw"
    using assms(1) by (auto simp: emit_wire_def split: sum.splits)
  note f = stream_data_fields [OF flds(1)]
  obtain t where t: "dumps True (VDict payload) = Some t" "map_of flds (u ''data'') = Some (VStr t)"
    using f(2) by blast
  have "loads t = Some (VDict (norm_payload payload))"
    using json_str.decode_encode [OF t(1)] assms(2) by (simp add: good_payload_def norm_payload_def del: dumps.simps)
  moreover have "map_of (map (\<lambda>(k, v). (k, the_text v)) flds) (u ''action'') = Some action"
    "map_of (map (\<lambda>(k, v). (k, the_text v)) flds) (u ''data'') = Some t"
    using f(1) t(2) by (simp_all add: map_of_map [of "\<lambda>_. the_text"] map_of_map)
  ultimately show ?thesis
    using decode_fields_wire [OF flds(2) f(4)] by (simp add: open_envelope_def parse_envelope_def)
qed

lemma request_id_of_wire:
  assumes "emit_wire d rid action payload = Some raw"
  shows "request_id_of raw = current_request_id rid"
proof -
  obtain flds where flds: "stream_data rid action payload = Inr flds" "wire d flds = Some raw"
    using assms(1) by (auto simp: emit_wire_def split: sum.splits)
  note f = stream_data_fields [OF flds(1)]
  note decoded = decode_fields_wire [OF flds(2) f(4)]
  show ?thesis
  proof (cases "is_valid_request_id (VStr rid)")
    case False
    then have "map_of flds (u ''meta'') = None" using f(3) by auto
    then have "map_of (map (\<lambda>(k, v). (k, the_text v)) flds) (u ''meta'') = None"
      by (simp add: map_of_map)
    moreover have "loads (u ''{}'') = Some (VDict [])"
      using loads_dumps [of False "VDict []" "u ''{}''"] by (simp add: u_def dict_wf_def)
    ultimately show ?thesis
      using decoded False by (simp add: request_id_of_def current_request_id_def)
  next
    case True
    obtain m where m: "dumps False (VDict [(u ''request_id'', VStr rid)]) = Some m"
      using meta_serializable by blast
    have "map_of flds (u ''meta'') = Some (VStr m)"
      using flds(1) True m valid_id_nonempty [OF True]
      by (auto simp: stream_data_def current_request_id_def Let_def simp del: dumps.simps split: option.splits)
    then have "map_of (map (\<lambda>(k, v). (k, the_text v)) flds) (u ''meta'') = Some m"
      by (simp add: map_of_map)
    moreover have "m \<noteq> []" using m by auto
    moreover have "loads m = Some (VDict [(u ''request_id'', VStr rid)])"
      using json_strict.decode_encode [OF m] valid_id_scalar [OF True] by (simp add: dict_wf_def)
    ultimately show ?thesis
      using decoded True by (simp add: request_id_of_def current_request_id_def)
  qed
qed

section \<open>The contract of the two ends\<close>

locale event_channel =
  fixes send :: "pystr \<Rightarrow> pystr \<Rightarrow> 'p \<Rightarrow> 'f option"
    and receive :: "'f \<Rightarrow> 'e + 'x \<times> pystr \<times> 'p"
    and rid_in :: "'f \<Rightarrow> pystr option"
    and good :: "'p \<Rightarrow> bool"
    and norm :: "'p \<Rightarrow> 'p"
  assumes receive_send: "send r a p = Some f \<Longrightarrow> good p \<Longrightarrow> \<exists>x. receive f = Inr (x, a, norm p)"
    and rid_send: "send r a p = Some f \<Longrightarrow> rid_in f = current_request_id r"
begin

lemma received: "send r a p = Some f \<Longrightarrow> good p \<Longrightarrow> receive f = Inr (x, a', p') \<Longrightarrow> a' = a \<and> p' = norm p"
  using receive_send by fastforce

lemma received_not_error: "send r a p = Some f \<Longrightarrow> good p \<Longrightarrow> receive f \<noteq> Inl e"
  using receive_send by fastforce

lemma same_entry:
  "send r a p = Some f \<Longrightarrow> send r' a' p' = Some f \<Longrightarrow> good p \<Longrightarrow> good p' \<Longrightarrow>
   a = a' \<and> norm p = norm p' \<and> current_request_id r = current_request_id r'"
proof -
  assume f: "send r a p = Some f" "send r' a' p' = Some f" "good p" "good p'"
  have "a = a' \<and> norm p = norm p'"
    using receive_send [OF f(1,3)] receive_send [OF f(2,4)] by auto
  then show ?thesis using rid_send [OF f(1)] rid_send [OF f(2)] by simp
qed

end

interpretation channel: event_channel "emit_wire d" open_envelope request_id_of good_payload norm_payload for d
  by unfold_locales (rule open_envelope_wire request_id_of_wire; assumption)+

section \<open>End to end\<close>

text \<open>An operation that hands something else to the handler of the service.\<close>

fun other_process :: "op \<Rightarrow> op \<Rightarrow> bool" where
  "other_process p (ProcessMessage m a d) \<longleftrightarrow> ProcessMessage m a d \<noteq> p"
| "other_process p _ \<longleftrightarrow> False"

lemma handle_entry_processes_only:
  assumes "open_envelope raw = Inr (x, action, payload)"
  shows "uses (other_process (ProcessMessage mid action payload)) (handle_entry cfg mid raw) 0"
proof -
  let ?q = "other_process (ProcessMessage mid action payload)"
  have "uses ?q (one_attempt cfg mid action payload) 0"
    using uses_one_attempt [of ?q cfg mid action payload] by simp
  then have "uses ?q (attempts cfg mid action payload None [1..<nat (max_retries cfg) + 1]) 0"
    using uses_attempts [of ?q cfg mid action payload 0] by simp
  moreover have "uses ?q (thenI (send_to_dlq cfg mid t e) (xack cfg mid)) (0 + 0)" for t e
    by (intro uses_bind uses_send_to_dlq uses_xack) simp_all
  ultimately have "uses ?q (bindI (attempts cfg mid action payload None [1..<nat (max_retries cfg) + 1])
      (\<lambda>x. case x of None \<Rightarrow> Return () | Some e \<Rightarrow> thenI (send_to_dlq cfg mid t e) (xack cfg mid))) (0 + 0)" for t
    by (intro uses_bind) (simp_all split: option.split)
  then have "uses ?q (handle_entry cfg mid raw) (0 + 0)"
    unfolding handle_entry_def by (intro uses_catch) (simp_all add: assms del: upt_Suc)
  then show ?thesis by simp
qed

text \<open>A message with a valid envelope is attempted: the slot, and then the handler of the service.\<close>

lemma one_attempt_starts:
  assumes "answer f (one_attempt cfg mid action payload) s = (x, h, s')"
  shows "\<exists>r es. h = (Acquire, r) # es \<and>
     ((r = RExn CancelledError \<and> es = [] \<and> x = Inl CancelledError) \<or>
      (r = RNone \<and> (\<exists>q gs. es = (ProcessMessage mid action payload, q) # gs)))"
proof -
  obtain r1 s1 where r: "f s Acquire = (r1, s1)" by (cases "f s Acquire")
  have "fit Acquire r1 = RExn CancelledError \<or> fit Acquire r1 = RNone" by (cases r1) auto
  then show ?thesis
  proof
    assume "fit Acquire r1 = RExn CancelledError"
    with assms r show ?thesis by (auto simp: one_attempt_def do_op_def simp del: fit.simps)
  next
    assume "fit Acquire r1 = RNone"
    with assms r show ?thesis by (auto simp: one_attempt_def do_op_def simp del: fit.simps split: prod.splits)
  qed
qed

lemma attempts_starts:
  assumes "answer f (attempts cfg mid action payload le (k # ks)) s = (x, h, s')"
    and "answer f (one_attempt cfg mid action payload) s = (z, g, s1)"
  shows "\<exists>gs. h = g @ gs \<and> (z = Inl CancelledError \<longrightarrow> gs = [] \<and> x = Inl CancelledError)"
proof (cases z)
  case (Inl e)
  with assms show ?thesis
    by (cases "is_Exception e") (auto simp: answer_bind answer_catch is_Exception_def split: prod.splits)
next
  case (Inr y)
  with assms show ?thesis by (simp add: answer_bind answer_catch)
qed

lemma handle_entry_starts:
  assumes "open_envelope raw = Inr (y, action, payload)" and "0 < max_retries cfg"
    and "answer f (handle_entry cfg mid raw) s = (x, h, s')"
  shows "\<exists>r es. h = (Acquire, r) # es \<and>
     ((r = RExn CancelledError \<and> es = []) \<or>
      (r = RNone \<and> (\<exists>q gs. es = (ProcessMessage mid action payload, q) # gs)))"
proof -
  have upt: "[1..<nat (max_retries cfg) + 1] = 1 # [2..<nat (max_retries cfg) + 1]"
    using assms(2) by (simp add: upt_conv_Cons numeral_2_eq_2 del: upt_Suc)
  obtain z g s1 where one: "answer f (one_attempt cfg mid action payload) s = (z, g, s1)"
    by (metis prod_cases3)
  obtain v k s2 where run: "answer f (attempts cfg mid action payload None [1..<nat (max_retries cfg) + 1]) s = (v, k, s2)"
    by (metis prod_cases3)
  obtain gs where gs: "k = g @ gs" "z = Inl CancelledError \<longrightarrow> gs = [] \<and> v = Inl CancelledError"
    using attempts_starts [OF run [unfolded upt] one] by blast
  have "\<exists>gs'. h = k @ gs' \<and> (v = Inl CancelledError \<longrightarrow> gs' = [])"
    using assms(3) run
    by (cases v) (auto simp: handle_entry_def assms(1) answer_bind answer_catch is_Exception_def
        simp del: upt_Suc split: prod.splits sum.splits if_splits)
  with gs one_attempt_starts [OF one] show ?thesis by auto
qed

lemma emitted_event_handled:
  assumes "emit_wire d rid action payload = Some raw" and "good_payload payload" and "0 < max_retries cfg"
    and "answer f (handle_message cfg mid raw) s = (x, h, s')"
  shows "(\<exists>t r es. h = (SetRid (if is_valid_request_id (VStr rid) then rid else mid), RText t) # (Acquire, r) # es \<and>
      (r = RExn CancelledError \<or> (\<exists>q gs. es = (ProcessMessage mid action (norm_payload payload), q) # gs))) \<and>
    (\<forall>ev \<in> set h. is_process (fst ev) \<longrightarrow> fst ev = ProcessMessage mid action (norm_payload payload))"
proof -
  obtain y where y: "open_envelope raw = Inr (y, action, norm_payload payload)"
    using channel.receive_send [OF assms(1,2)] by blast
  obtain t s1 es s2 where e: "answer f (handle_entry cfg mid raw) s1 = (x, es, s2)"
    and h: "h = (SetRid (rid_of mid raw), RText t) # es @ [(ResetRid t, RNone)]"
    using handle_message_run [OF assms(4)] by blast
  have "number (other_process (ProcessMessage mid action (norm_payload payload))) es \<le> 0"
    using answer_uses [where f = f and s = s1, OF handle_entry_processes_only [OF y, of mid cfg]] e by simp
  then have "list_all (\<lambda>ev. \<not> other_process (ProcessMessage mid action (norm_payload payload)) (fst ev)) es"
    by (simp only: number_none)
  moreover have "is_process op \<Longrightarrow> \<not> other_process p op \<Longrightarrow> op = p" for op p
    by (cases op) auto
  ultimately have "\<forall>ev \<in> set es. is_process (fst ev) \<longrightarrow> fst ev = ProcessMessage mid action (norm_payload payload)"
    by (auto simp: list_all_iff)
  moreover have "rid_of mid raw = (if is_valid_request_id (VStr rid) then rid else mid)"
    using channel.rid_send [OF assms(1)] by (simp add: rid_of_def current_request_id_def)
  moreover note handle_entry_starts [OF y assms(3) e]
  ultimately show ?thesis by (auto simp: h)
qed

text \<open>What \<open>emit\<close> adds to a stream, on whichever attempt, is the entry of its arguments.\<close>

lemma emit_tries_ops:
  "answer g (emit_tries (XAdd a b c) rd m ks) s = (x, h, s') \<Longrightarrow> (XAdd a' b' c', r) \<in> set h \<Longrightarrow> b' = b"
proof (induction ks arbitrary: s h)
  case (Cons k ks)
  then show ?case
    unfolding emit_tries_Suc by (auto split: prod.splits reply.splits sum.splits if_splits)
qed simp

lemma emit_adds:
  assumes "answer g (emit p rid stream action payload pipe maxlen retries rd) s = (x, h, s')"
    and "(XAdd st flds mx, r) \<in> set h"
  shows "stream_data rid action payload = Inr flds"
  using assms by (auto simp: emit_def liftI_def Let_def simp del: upt_Suc dest: emit_tries_ops split: sum.splits)

text \<open>
  C4. From \<open>emit\<close> to \<open>process_message\<close>: an event whose payload is JSON-like and that a run of \<open>emit\<close> added to a
  stream, read back by a client that decodes or not, is handled under the request id it was sent under, when that was
  a real one, else under the id of the message; and the first thing that happens to it, once it has a slot, is that the
  handler of the service is called, with exactly the action and the payload that were sent (objects JSON does not
  know as their text); every later call of the handler gets the same. The only way not to get there is to be
  cancelled while waiting for the slot.
\<close>

theorem emitted_event_processed:
  assumes "answer g (emit p rid stream action payload pipe maxlen retries rd) s0 = (x0, h0, s0')"
    and "(XAdd st flds mx, RText mid) \<in> set h0" and "wire d flds = Some raw"
    and "good_payload payload" and "0 < max_retries cfg"
    and "answer f (handle_message cfg mid raw) s = (x, h, s')"
  shows "(\<exists>t r es. h = (SetRid (if is_valid_request_id (VStr rid) then rid else mid), RText t) # (Acquire, r) # es \<and>
      (r = RExn CancelledError \<or> (\<exists>q gs. es = (ProcessMessage mid action (norm_payload payload), q) # gs))) \<and>
    (\<forall>ev \<in> set h. is_process (fst ev) \<longrightarrow> fst ev = ProcessMessage mid action (norm_payload payload))"
proof -
  have "emit_wire d rid action payload = Some raw"
    using emit_adds [OF assms(1,2)] assms(3) by (simp add: emit_wire_def)
  from emitted_event_handled [OF this assms(4-6)] show ?thesis .
qed

lemmas emit_eval = text_eval emit_wire_def stream_data_def current_request_id_def valid_id_iff request_id_pattern_def
  is_id_char_def no_request_id_def wire_text_def utf8_encode_def

text \<open>A worker that is not cancelled gives the slots.\<close>

lemma worker_gives_slot:
  assumes "answer (worker dlq) t outs = (x, h, s')" shows "(Acquire, RExn e) \<notin> set h"
  using answer_replies [OF assms, of Acquire "RExn e"] by auto

text \<open>An event added at once, by a producer of the example.\<close>

lemma emit_example:
  assumes "emit_wire d rid action payload = Some raw"
  obtains flds h0 where "wire d flds = Some raw"
    and "answer (flaky (Builtin ''ConnectionError'' []) (RText (u ''1-0'')))
      (emit example_producer rid (u ''s'') action payload False None None (PInt 1)) 0 = (Inr (RText (u ''1-0'')), h0, 0)"
    and "(XAdd (u ''s'') flds None, RText (u ''1-0'')) \<in> set h0"
proof -
  obtain flds where flds: "stream_data rid action payload = Inr flds" "wire d flds = Some raw"
    using assms by (auto simp: emit_wire_def split: sum.splits)
  from emit_recovers [OF flds(1), of 0 example_producer False None "PInt 1" "Builtin ''ConnectionError'' []" "RText (u ''1-0'')" "u ''s''" None]
  show thesis
    by (auto simp: emit_attempts_def emit_limit_def example_producer_def intro!: that [OF flds(2)])
qed

theorem emitted_event_processed_witness:
  "\<exists>raw h0 x h s' q.
    answer (flaky (Builtin ''ConnectionError'' []) (RText (u ''1-0'')))
      (emit example_producer (u ''req-1'') (u ''s'') (u ''sync'') [(u ''id'', VStr (u ''7''))] False None None (PInt 1)) 0 =
      (Inr (RText (u ''1-0'')), h0, 0) \<and>
    answer (worker RNone) (handle_message example_config (u ''1-0'') raw) [] = (x, h, s') \<and>
    fst (hd h) = SetRid (u ''req-1'') \<and>
    h ! 2 = (ProcessMessage (u ''1-0'') (u ''sync'') [(u ''id'', VStr (u ''7''))], q)"
proof -
  obtain raw where raw: "emit_wire True (u ''req-1'') (u ''sync'') [(u ''id'', VStr (u ''7''))] = Some raw"
    by (simp add: emit_eval)
  obtain flds h0 where sent: "wire True flds = Some raw"
    "answer (flaky (Builtin ''ConnectionError'' []) (RText (u ''1-0'')))
      (emit example_producer (u ''req-1'') (u ''s'') (u ''sync'') [(u ''id'', VStr (u ''7''))] False None None (PInt 1)) 0 =
      (Inr (RText (u ''1-0'')), h0, 0)" "(XAdd (u ''s'') flds None, RText (u ''1-0'')) \<in> set h0"
    by (rule emit_example [OF raw])
  obtain x h s' where a: "answer (worker RNone) (handle_message example_config (u ''1-0'') raw) [] = (x, h, s')"
    by (metis prod_cases3)
  have "good_payload [(u ''id'', VStr (u ''7''))]" "0 < max_retries example_config"
    by (simp_all add: good_payload_def dict_wf_def example_simps)
  note event = emitted_event_processed [OF sent(2,3,1) this a]
  have "is_valid_request_id (VStr (u ''req-1''))" by (simp add: emit_eval)
  moreover have "norm_payload [(u ''id'', VStr (u ''7''))] = [(u ''id'', VStr (u ''7''))]" by (simp add: norm_payload_def)
  ultimately have "fst (hd h) = SetRid (u ''req-1'')"
      "\<exists>q. h ! 2 = (ProcessMessage (u ''1-0'') (u ''sync'') [(u ''id'', VStr (u ''7''))], q)"
    using event worker_gives_slot [OF a, of CancelledError] by auto
  with sent(2) a show ?thesis by blast
qed

end
