(* ===== verification/ConsumerLoop.thy ===== *)
theory ConsumerLoop imports EventChannel begin

text \<open>
  The loops of the consumer: the reclaim of pending messages and \<open>run\<close>, from \<open>redis/consumer.py\<close>.
  Both get a bound on their turns; \<open>None\<close> is the result of a loop that used it up.
\<close>

section \<open>Reclaim\<close>

definition delivery_count :: "config \<Rightarrow> pystr \<Rightarrow> int option io" where
  "delivery_count cfg message_id =
     catchI is_Exception
       (bindI (do_rows (XPendingRange (stream_name cfg) (group_name cfg) message_id message_id 1))
          (\<lambda>rows. Return (case rows of [] \<Rightarrow> None | n # _ \<Rightarrow> Some n)))
       (\<lambda>_. Return None)"

definition reclaimed_job :: "config \<Rightarrow> pystr \<Rightarrow> fields \<Rightarrow> int option \<Rightarrow> job" where
  "reclaimed_job cfg message_id flds deliveries = (case deliveries of
     Some n \<Rightarrow> (if n > max_deliveries cfg then DeadLetterReclaimed message_id flds n
              else HandleMessage message_id flds)
   | None \<Rightarrow> HandleMessage message_id flds)"

fun reclaimed_tasks :: "config \<Rightarrow> (pystr \<times> fields option) list \<Rightarrow> job list \<Rightarrow> job list io" where
  "reclaimed_tasks cfg [] tasks = Return tasks"
| "reclaimed_tasks cfg ((message_id, None) # claimed) tasks =
     thenI (xack cfg message_id) (reclaimed_tasks cfg claimed tasks)"
| "reclaimed_tasks cfg ((message_id, Some flds) # claimed) tasks =
     bindI (delivery_count cfg message_id)
       (\<lambda>deliveries. reclaimed_tasks cfg claimed (tasks @ [reclaimed_job cfg message_id flds deliveries]))"

definition gather :: "job list \<Rightarrow> unit io" where
  "gather tasks = (if tasks = [] then Return () else do_op (Gather tasks))"

definition handle_reclaimed :: "config \<Rightarrow> (pystr \<times> fields option) list \<Rightarrow> unit io" where
  "handle_reclaimed cfg claimed = bindI (reclaimed_tasks cfg claimed []) gather"

definition scan_end :: "rtext \<Rightarrow> bool" where
  "scan_end next_id \<longleftrightarrow> next_id = RStr (u ''0-0'') \<or> next_id = RBytes (u ''0-0'')"

fun reclaim_pending :: "nat \<Rightarrow> config \<Rightarrow> nat \<Rightarrow> rtext \<Rightarrow> nat option io" where
  "reclaim_pending 0 cfg reclaimed start_id = Return None"
| "reclaim_pending (Suc fuel) cfg reclaimed start_id =
     bindI is_running (\<lambda>running.
       if \<not> running then Return (Some reclaimed)
       else bindI (do_claim (XAutoclaim (stream_name cfg) (group_name cfg) (consumer_name cfg)
                     (reclaim_idle_ms cfg) start_id (batch_size cfg)))
         (\<lambda>(next_id, claimed).
            thenI (if claimed = [] then Return () else handle_reclaimed cfg claimed)
              (if scan_end next_id \<or> next_id = start_id then Return (Some (reclaimed + length claimed))
               else reclaim_pending fuel cfg (reclaimed + length claimed) next_id)))"

section \<open>The main loop\<close>

fun busygroup :: "exn \<Rightarrow> bool" where
  "busygroup (Builtin n m) \<longleftrightarrow> n = ''ResponseError'' \<and> contains (u ''BUSYGROUP'') m"
| "busygroup _ \<longleftrightarrow> False"

definition ensure_consumer_group :: "config \<Rightarrow> unit io" where
  "ensure_consumer_group cfg =
     catchI busygroup
       (do_op (XGroupCreate (stream_name cfg) (group_name cfg) (group_start_id cfg) True))
       (\<lambda>_. Return ())"

text \<open>The result of a part of a \<open>try\<close> body, for a handler that reads what the body assigned before.\<close>

definition attemptI :: "'a io \<Rightarrow> (exn + 'a) io" where
  "attemptI m = catchI (\<lambda>_. True) (bindI m (\<lambda>a. Return (Inr a))) (\<lambda>e. Return (Inl e))"

definition reclaim_due :: "config \<Rightarrow> rat option \<Rightarrow> rat \<Rightarrow> bool" where
  "reclaim_due cfg last_reclaim now = (case last_reclaim of
     None \<Rightarrow> True | Some t \<Rightarrow> now - t \<ge> reclaim_interval_s cfg)"

definition reclaim_if_due :: "nat \<Rightarrow> config \<Rightarrow> rat option \<Rightarrow> rat option option io" where
  "reclaim_if_due fuel cfg last_reclaim =
     bindI do_time (\<lambda>now.
       if reclaim_due cfg last_reclaim now then
         bindI (reclaim_pending fuel cfg 0 (RStr (u ''0-0''))) (\<lambda>r. case r of
            None \<Rightarrow> Return None
          | Some _ \<Rightarrow> bindI do_time (\<lambda>t. Return (Some (Some t))))
       else Return (Some last_reclaim))"

definition read_entries :: "config \<Rightarrow> (pystr \<times> (pystr \<times> fields) list) list io" where
  "read_entries cfg = do_read (XReadGroup (group_name cfg) (consumer_name cfg) (stream_name cfg)
     (batch_size cfg) (block_ms cfg))"

definition entry_jobs :: "(pystr \<times> (pystr \<times> fields) list) list \<Rightarrow> job list" where
  "entry_jobs response = map (\<lambda>(message_id, raw). HandleMessage message_id raw) (concat (map snd response))"

text \<open>
  One turn of the \<open>try\<close> block: its result with the counter of failures and the time of the last
  reclaim as they are then.
\<close>

type_synonym turn = "(exn + unit) \<times> nat \<times> rat option"

definition loop_turn :: "nat \<Rightarrow> config \<Rightarrow> nat \<Rightarrow> rat option \<Rightarrow> turn option io" where
  "loop_turn fuel cfg failures last_reclaim =
     bindI (attemptI (reclaim_if_due fuel cfg last_reclaim)) (\<lambda>r. case r of
       Inl e \<Rightarrow> Return (Some (Inl e, failures, last_reclaim))
     | Inr None \<Rightarrow> Return None
     | Inr (Some last_reclaim) \<Rightarrow>
         bindI (attemptI (read_entries cfg)) (\<lambda>r. case r of
           Inl e \<Rightarrow> Return (Some (Inl e, failures, last_reclaim))
         | Inr response \<Rightarrow>
             bindI (attemptI (gather (entry_jobs response))) (\<lambda>r.
               Return (Some (r, 0, last_reclaim)))))"

definition gives_up :: "config \<Rightarrow> nat \<Rightarrow> bool" where
  "gives_up cfg failures \<longleftrightarrow> max_loop_failures cfg \<noteq> 0 \<and> int failures \<ge> max_loop_failures cfg"

definition error_delay :: "config \<Rightarrow> nat \<Rightarrow> exn + pynum" where
  "error_delay cfg failures =
     map_sum id (\<lambda>d. py_min d (loop_error_max_delay cfg)) (scale_pow2 (loop_error_delay cfg) (failures - 1))"

fun run_loop :: "nat \<Rightarrow> nat \<Rightarrow> config \<Rightarrow> nat \<Rightarrow> rat option \<Rightarrow> unit option io" where
  "run_loop 0 fuel cfg failures last_reclaim = Return None"
| "run_loop (Suc turns) fuel cfg failures last_reclaim =
     bindI is_running (\<lambda>running.
       if \<not> running then Return (Some ())
       else bindI (loop_turn fuel cfg failures last_reclaim) (\<lambda>t. case t of
         None \<Rightarrow> Return None
       | Some (Inr _, failures, last_reclaim) \<Rightarrow> run_loop turns fuel cfg failures last_reclaim
       | Some (Inl e, failures, last_reclaim) \<Rightarrow>
           if \<not> is_Exception e then thenI (do_op (SetRunning False)) (Throw e)
           else bindI (liftI (error_delay cfg (Suc failures))) (\<lambda>delay.
             if gives_up cfg (Suc failures) then thenI (do_op (SetRunning False)) (Throw e)
             else thenI (do_op (Sleep delay)) (run_loop turns fuel cfg (Suc failures) last_reclaim))))"

definition run :: "nat \<Rightarrow> nat \<Rightarrow> config \<Rightarrow> unit option io" where
  "run turns fuel cfg =
     thenI (ensure_consumer_group cfg)
       (thenI (do_op (SetRunning True)) (run_loop turns fuel cfg 0 None))"

definition stop :: "unit io" where
  "stop = do_op (SetRunning False)"

section \<open>What the loops acknowledge\<close>

lemma acks_quiet: 
  assumes "acks_ok cfg h" and "\<And>s g m. op \<noteq> XAck s g m"
  shows "acks_ok cfg (h @ [(op, r)])"
  using assms by (cases op) auto

lemma acks_do:
  assumes "acks_ok cfg h" and "\<And>s g m. op \<noteq> XAck s g m"
  shows "holds (acks_ok cfg) (do_op op) h (\<lambda>x h'. acks_ok cfg h')"
    and "holds (acks_ok cfg) (do_rows op) h (\<lambda>x h'. acks_ok cfg h')"
    and "holds (acks_ok cfg) (do_read op) h (\<lambda>x h'. acks_ok cfg h')"
  using acks_quiet [OF assms]
  by (simp_all add: do_op_def do_rows_def do_read_def split: reply.split)

lemma acks_reclaimed_tasks:
  "acks_ok cfg h \<Longrightarrow> (\<And>mid. (mid, None) \<in> set claimed \<Longrightarrow> list_ex (justifies cfg mid) h) \<Longrightarrow>
   holds (acks_ok cfg) (reclaimed_tasks cfg claimed tasks) h (\<lambda>x h'. acks_ok cfg h')"
proof (induction cfg claimed tasks arbitrary: h rule: reclaimed_tasks.induct)
  case (2 cfg mid claimed tasks)
  then show ?case
    by (auto simp: xack_def intro!: holds_do_op)
next
  case (3 cfg mid flds claimed tasks)
  then show ?case
    by (auto simp: delivery_count_def do_rows_def split: reply.split)
qed simp

lemma acks_gather: "acks_ok cfg h \<Longrightarrow> holds (acks_ok cfg) (gather tasks) h (\<lambda>x h'. acks_ok cfg h')"
  by (auto simp: gather_def intro!: acks_do)

lemma acks_reclaim:
  "acks_ok cfg h \<Longrightarrow> holds (acks_ok cfg) (reclaim_pending fuel cfg n start) h (\<lambda>x h'. acks_ok cfg h')"
proof (induction fuel arbitrary: n start h)
  case (Suc fuel)
  have "holds (acks_ok cfg) (handle_reclaimed cfg claimed) h' (\<lambda>x h''. acks_ok cfg h'')"
    if "acks_ok cfg h'" "\<And>mid. (mid, None) \<in> set claimed \<Longrightarrow> list_ex (justifies cfg mid) h'" for claimed h'
    unfolding handle_reclaimed_def holds_bind
    by (rule holds_mono [OF acks_reclaimed_tasks [OF that]]) (auto split: sum.split intro: acks_gather)
  note handle = this
  show ?case
    using Suc.prems
    by (auto simp: is_running_def do_claim_def split: reply.split sum.split
        intro!: Suc.IH holds_mono [OF handle])
qed simp

text \<open>\<open>keeps P t\<close>: \<open>t\<close> keeps to \<open>P\<close> from any history that does.\<close>

definition keeps :: "(history \<Rightarrow> op \<times> reply \<Rightarrow> bool) \<Rightarrow> 'a io \<Rightarrow> bool" where
  "keeps P t \<longleftrightarrow> (\<forall>h. always P h \<longrightarrow> holds (always P) t h (\<lambda>x h'. always P h'))"

lemma keepsI: "(\<And>h. always P h \<Longrightarrow> holds (always P) t h (\<lambda>x h'. always P h')) \<Longrightarrow> keeps P t"
  by (simp add: keeps_def)

lemma keeps_Return [simp]: "keeps P (Return a)" and keeps_Throw [simp]: "keeps P (Throw e)"
  by (simp_all add: keeps_def)

lemma keeps_bind: "keeps P m \<Longrightarrow> (\<And>a. keeps P (f a)) \<Longrightarrow> keeps P (bindI m f)"
  by (force simp: keeps_def intro: holds_mono split: sum.split)

lemma keeps_catch: "keeps P m \<Longrightarrow> (\<And>e. keeps P (f e)) \<Longrightarrow> keeps P (catchI p m f)"
  by (force simp: keeps_def intro: holds_mono split: sum.split)

lemma keeps_lift: "keeps P (liftI r)"
  by (cases r) (simp_all add: liftI_def)

lemma keeps_attempt: "keeps P m \<Longrightarrow> keeps P (attemptI m)"
  unfolding attemptI_def by (intro keeps_catch keeps_bind) simp_all

lemma keeps_ops:
  assumes "\<And>s g m. op \<noteq> XAck s g m"
  shows "keeps (ack_event cfg) (do_op op)" "keeps (ack_event cfg) (do_rows op)" "keeps (ack_event cfg) (do_read op)"
  by (intro keepsI acks_do assms; assumption)+

lemma keeps_local: "keeps (ack_event cfg) do_time" "keeps (ack_event cfg) is_running"
  by (auto simp: keeps_def do_time_def is_running_def split: reply.split)

lemma keeps_reclaim: "keeps (ack_event cfg) (reclaim_pending fuel cfg n start)"
  by (intro keepsI acks_reclaim)

lemma keeps_gather: "keeps (ack_event cfg) (gather tasks)"
  by (intro keepsI acks_gather)

lemmas keeps_rules = keeps_bind keeps_catch keeps_lift keeps_attempt keeps_local keeps_reclaim keeps_gather

lemma keeps_reclaim_if_due: "keeps (ack_event cfg) (reclaim_if_due fuel cfg t)"
  unfolding reclaim_if_due_def by (auto intro!: keeps_rules split: option.split)

lemma keeps_loop_turn: "keeps (ack_event cfg) (loop_turn fuel cfg failures t)"
  unfolding loop_turn_def read_entries_def
  by (auto intro!: keeps_rules keeps_reclaim_if_due keeps_ops split: option.split sum.split)

lemma keeps_run_loop: "keeps (ack_event cfg) (run_loop turns fuel cfg failures t)"
  by (induction turns arbitrary: failures t)
    (auto intro!: keeps_rules keeps_loop_turn keeps_ops split: option.split sum.split)

lemma keeps_run: "keeps (ack_event cfg) (run turns fuel cfg)"
  unfolding run_def ensure_consumer_group_def
  by (auto intro!: keeps_rules keeps_run_loop keeps_ops)

section \<open>The messages of a reclaim\<close>

text \<open>
  A server that knows how many times each message was delivered; it takes every other operation.
\<close>

fun counting :: "(pystr \<Rightarrow> reply) \<Rightarrow> unit \<Rightarrow> op \<Rightarrow> reply \<times> unit" where
  "counting rows s (XPendingRange st g lo up n) = (rows lo, ())"
| "counting rows s _ = (RNone, ())"

fun deliveries_of :: "reply \<Rightarrow> int option" where
  "deliveries_of (RRows (n # _)) = Some n"
| "deliveries_of _ = None"

fun gone :: "pystr \<times> fields option \<Rightarrow> pystr list" where
  "gone (mid, None) = [mid]"
| "gone _ = []"

text \<open>
  What becomes of a message, from what Redis says of its deliveries: more of them than the limit allows, the dead letter
  stream; fewer, or as many, or no answer, one more attempt.
\<close>

fun job_of :: "config \<Rightarrow> (pystr \<Rightarrow> reply) \<Rightarrow> pystr \<times> fields option \<Rightarrow> job list" where
  "job_of cfg rows (mid, None) = []"
| "job_of cfg rows (mid, Some flds) = (case rows mid of
     RRows (n # _) \<Rightarrow> (if n \<le> max_deliveries cfg then [HandleMessage mid flds] else [DeadLetterReclaimed mid flds n])
   | _ \<Rightarrow> [HandleMessage mid flds])"

lemma job_of_reclaimed: "job_of cfg rows (mid, Some flds) = [reclaimed_job cfg mid flds (deliveries_of (rows mid))]"
  by (auto simp: reclaimed_job_def split: reply.split list.split)

lemma reclaimed_tasks_counting:
  assumes "\<And>mid. rows mid \<noteq> RExn CancelledError"
  shows "\<exists>h. answer (counting rows) (reclaimed_tasks cfg claimed tasks) () =
      (Inr (tasks @ concat (map (job_of cfg rows) claimed)), h, ()) \<and>
    writes h = map (acked cfg) (concat (map gone claimed))"
proof (induction cfg claimed tasks rule: reclaimed_tasks.induct)
  case (2 cfg mid claimed tasks)
  then show ?case by (auto simp: answer_bind xack_def do_op_def acked_def)
next
  case (3 cfg mid flds claimed tasks)
  let ?n = "deliveries_of (rows mid)"
  have "\<exists>g. answer (counting rows) (delivery_count cfg mid) () = (Inr ?n, g, ()) \<and> writes g = []"
    using assms [of mid]
    by (cases "rows mid") (auto simp: delivery_count_def do_rows_def answer_bind answer_catch is_Exception_def
        wrong_reply_def split: list.split)
  with 3 [of ?n] show ?case by (auto simp: answer_bind job_of_reclaimed simp del: job_of.simps(2))
qed simp

text \<open>
  C25. What a reclaim does with the messages it took: one whose entry is gone is acknowledged; every other
  one becomes one coroutine, which sends it to the dead letter stream exactly when Redis says it was
  delivered more than \<open>max_deliveries\<close> times, and handles it otherwise, also when it was delivered exactly so often and
  when Redis does not say.
\<close>

theorem handle_reclaimed_jobs:
  assumes "\<And>mid. rows mid \<noteq> RExn CancelledError" and "concat (map (job_of cfg rows) claimed) \<noteq> []"
  shows "\<exists>h r. answer (counting rows) (handle_reclaimed cfg claimed) () =
      (Inr (), h @ [(Gather (concat (map (job_of cfg rows) claimed)), r)], ()) \<and>
    writes h = map (acked cfg) (concat (map gone claimed))"
  using reclaimed_tasks_counting [of rows cfg claimed "[]"] assms
  by (auto simp: handle_reclaimed_def answer_bind gather_def do_op_def)

text \<open>One message at the limit of five, one above it.\<close>

definition example_rows :: "pystr \<Rightarrow> reply" where
  "example_rows mid = RRows [if mid = u ''2-0'' then 6 else 5]"

theorem handle_reclaimed_jobs_witness:
  "\<exists>h r. answer (counting example_rows)
     (handle_reclaimed example_config [(u ''1-0'', None), (u ''2-0'', Some []), (u ''3-0'', Some [])]) () =
    (Inr (), h @ [(Gather [DeadLetterReclaimed (u ''2-0'') [] 6, HandleMessage (u ''3-0'') []], r)], ()) \<and>
    writes h = [acked example_config (u ''1-0'')]"
  using handle_reclaimed_jobs [of example_rows example_config
      "[(u ''1-0'', None), (u ''2-0'', Some []), (u ''3-0'', Some [])]"]
  by (simp add: example_rows_def example_simps)

section \<open>The scan ends\<close>

text \<open>
  The cursor of XAUTOCLAIM moves forward: \<open>pos\<close> orders the ids, and no id is above \<open>hi\<close>.
\<close>

definition scans_forward :: "('s \<Rightarrow> op \<Rightarrow> reply \<times> 's) \<Rightarrow> (rtext \<Rightarrow> nat) \<Rightarrow> nat \<Rightarrow> bool" where
  "scans_forward f pos hi \<longleftrightarrow> (\<forall>s st g c idle start n next claimed s'.
     f s (XAutoclaim st g c idle start n) = (RClaim next claimed, s') \<longrightarrow>
     scan_end next \<or> next = start \<or> (pos start < pos next \<and> pos next \<le> hi))"

definition returns :: "(exn + 'a option) \<Rightarrow> bool" where
  "returns x \<longleftrightarrow> (case x of Inl _ \<Rightarrow> True | Inr y \<Rightarrow> y \<noteq> None)"

text \<open>
  C26. The scan for pending messages ends: when the cursor of XAUTOCLAIM only moves forward among finitely many
  positions, as many turns of the loop as there are positions are enough, whatever happens to the
  messages it takes.
\<close>

theorem reclaim_returns:
  "scans_forward f pos hi \<Longrightarrow> hi < pos start + fuel \<Longrightarrow> pos start \<le> hi \<Longrightarrow>
   returns (fst (answer f (reclaim_pending fuel cfg n start) s))"
proof (induction fuel arbitrary: n start s)
  case (Suc fuel)
  have next_ok: "scan_end next \<or> next = start \<or> (pos start < pos next \<and> pos next \<le> hi)"
    if "f s (XAutoclaim st g c idle start n) = (RClaim next claimed, s')" for s st g c idle n "next" claimed s'
    using Suc.prems(1) that unfolding scans_forward_def by blast
  have go: "\<exists>y. x = Some y"
    if "answer f (reclaim_pending fuel cfg m next) s' = (Inr x, h, s'')" "pos start < pos next" "pos next \<le> hi"
    for m "next" s' x h s''
    using Suc.IH [OF Suc.prems(1), of "next" m s'] Suc.prems(2) that by (simp add: returns_def)
  show ?case
    by (auto simp: answer_bind is_running_def do_claim_def returns_def
        split: prod.splits reply.splits sum.splits dest!: next_ok intro: go)
qed simp

text \<open>A scan in two steps.\<close>

fun two_pages :: "unit \<Rightarrow> op \<Rightarrow> reply \<times> unit" where
  "two_pages s (XAutoclaim st g c idle st0 n) =
     (if st0 = RStr (u ''0-0'') then RClaim (RStr (u ''5-0'')) [] else RClaim (RStr (u ''0-0'')) [], ())"
| "two_pages s GetRunning = (RBool True, ())"
| "two_pages s _ = (RNone, ())"

theorem reclaim_returns_witness:
  "returns (fst (answer two_pages (reclaim_pending 2 example_config 0 (RStr (u ''0-0''))) ()))"
proof (rule reclaim_returns)
  show "scans_forward two_pages (\<lambda>r. if r = RStr (u ''0-0'') then 0 else 1) 1"
    by (auto simp: scans_forward_def scan_end_def split: if_splits)
qed simp_all

end
