(* ===== verification/LoopSupervision.thy ===== *)
theory LoopSupervision imports ConsumerLoop begin

text \<open>
  When \<open>run\<close> gives up: the main loop refines \<open>supervise\<close>, which sees only the results of the reads, and
  \<open>supervise\<close> ends with an error exactly when enough reads failed in a row.
\<close>

section \<open>The abstract loop\<close>

text \<open>A server whose reads follow a script, until it cancels; nothing is ever pending.\<close>

fun reader :: "reply list \<Rightarrow> op \<Rightarrow> reply \<times> reply list" where
  "reader script (XReadGroup g c s n b) =
     (case script of [] \<Rightarrow> (RExn CancelledError, []) | r # later \<Rightarrow> (r, later))"
| "reader script (XAutoclaim s g c idle start n) = (RClaim (RStr (u ''0-0'')) [], script)"
| "reader script GetRunning = (RBool True, script)"
| "reader script _ = (RNone, script)"

definition read_error :: "reply \<Rightarrow> exn option" where
  "read_error r = (case r of RExn e \<Rightarrow> Some e | RNone \<Rightarrow> None | RRead _ \<Rightarrow> None | _ \<Rightarrow> Some wrong_reply)"

fun supervise :: "config \<Rightarrow> nat \<Rightarrow> reply list \<Rightarrow> exn \<times> pynum list" where
  "supervise cfg failures [] = (CancelledError, [])"
| "supervise cfg failures (r # later) = (case read_error r of
     None \<Rightarrow> supervise cfg 0 later
   | Some e \<Rightarrow>
       (if e = CancelledError then (CancelledError, [])
        else (case error_delay cfg (Suc failures) of
                Inl x \<Rightarrow> (x, [])
              | Inr d \<Rightarrow>
                  (if gives_up cfg (Suc failures) then (e, [])
                   else (case supervise cfg (Suc failures) later of (x, ds) \<Rightarrow> (x, d # ds))))))"

fun is_read :: "op \<Rightarrow> bool" where
  "is_read (XReadGroup _ _ _ _ _) = True"
| "is_read _ = False"

fun sleep_of :: "op \<times> reply \<Rightarrow> pynum list" where
  "sleep_of (Sleep d, r) = [d]"
| "sleep_of _ = []"

definition sleeps :: "history \<Rightarrow> pynum list" where
  "sleeps h = concat (map sleep_of h)"

lemma sleeps_simps [simp]:
  "sleeps [] = []" "sleeps (e # h) = sleep_of e @ sleeps h" "sleeps (h @ h') = sleeps h @ sleeps h'"
  by (simp_all add: sleeps_def)

section \<open>The refinement\<close>

lemma reclaim_reader:
  "\<exists>h. answer reader (reclaim_if_due (Suc fuel) cfg t) script =
     (Inr (Some (if reclaim_due cfg t 0 then Some 0 else t)), h, script) \<and> sleeps h = []"
  by (auto simp: reclaim_if_due_def is_running_def do_time_def do_claim_def answer_bind scan_end_def)

lemma attempt_reader:
  "answer f (attemptI m) s = (case answer f m s of (x, h, s') \<Rightarrow> (Inr x, h, s'))"
  by (auto simp: attemptI_def answer_catch answer_bind split: prod.split sum.split)

lemma gather_reader: "\<exists>h. answer reader (gather jobs) script = (Inr (), h, script) \<and> sleeps h = []"
  by (auto simp: gather_def do_op_def)

lemma read_reader:
  "answer reader (read_entries cfg) script =
    (case script of
       [] \<Rightarrow> (Inl CancelledError, [(XReadGroup (group_name cfg) (consumer_name cfg) (stream_name cfg)
          (batch_size cfg) (block_ms cfg), RExn CancelledError)], [])
     | r # later \<Rightarrow>
         (case read_error r of Some e \<Rightarrow> Inl e | None \<Rightarrow> Inr (case r of RRead c \<Rightarrow> c | _ \<Rightarrow> []),
          [(XReadGroup (group_name cfg) (consumer_name cfg) (stream_name cfg) (batch_size cfg) (block_ms cfg), r)], later))"
  by (auto simp: read_entries_def do_read_def read_error_def split: list.split reply.split)

lemma turn_reader:
  "\<exists>h t'. answer reader (loop_turn (Suc fuel) cfg failures t) script =
     (Inr (Some (case script of
         [] \<Rightarrow> (Inl CancelledError, failures, t')
       | r # later \<Rightarrow> (case read_error r of None \<Rightarrow> (Inr (), 0, t') | Some e \<Rightarrow> (Inl e, failures, t')))),
      h, tl script) \<and> sleeps h = []"
proof -
  obtain g where g: "answer reader (reclaim_if_due (Suc fuel) cfg t) script =
     (Inr (Some (if reclaim_due cfg t 0 then Some 0 else t)), g, script)" "sleeps g = []"
    using reclaim_reader by blast
  have gr: "\<exists>h. answer reader (gather jobs) s = (Inr (), h, s) \<and> sleeps h = []" for jobs s
    by (rule gather_reader)
  show ?thesis
  proof (cases script)
    case Nil
    with g show ?thesis
      by (auto simp: loop_turn_def answer_bind attempt_reader read_reader)
  next
    case (Cons r later)
    show ?thesis
    proof (cases "read_error r")
      case None
      obtain h where "answer reader (gather (entry_jobs (case r of RRead c \<Rightarrow> c | _ \<Rightarrow> []))) later = (Inr (), h, later)"
        "sleeps h = []" using gr by blast
      with g Cons None show ?thesis
        by (auto simp: loop_turn_def answer_bind attempt_reader read_reader)
    next
      case (Some e)
      with g Cons show ?thesis
        by (auto simp: loop_turn_def answer_bind attempt_reader read_reader)
    qed
  qed
qed

lemma run_loop_supervise:
  "length script < turns \<Longrightarrow>
   \<exists>h s'. answer reader (run_loop turns (Suc fuel) cfg failures t) script =
     (Inl (fst (supervise cfg failures script)), h, s') \<and> sleeps h = snd (supervise cfg failures script)"
proof (induction turns arbitrary: script failures t)
  case (Suc turns)
  obtain h t' where turn: "answer reader (loop_turn (Suc fuel) cfg failures t) script =
     (Inr (Some (case script of
         [] \<Rightarrow> (Inl CancelledError, failures, t')
       | r # later \<Rightarrow> (case read_error r of None \<Rightarrow> (Inr (), 0, t') | Some e \<Rightarrow> (Inl e, failures, t')))),
      h, tl script)" "sleeps h = []"
    using turn_reader by blast
  note run = answer_bind is_running_def turn(1) do_op_def liftI_def
  show ?case
  proof (cases script)
    case Nil
    with turn show ?thesis by (simp add: run)
  next
    case (Cons r later)
    show ?thesis
    proof (cases "read_error r")
      case None
      with Suc.IH [of later 0 t'] Suc.prems Cons turn show ?thesis
        by (auto simp: run)
    next
      case (Some e)
      with Suc.IH [of later "Suc failures" t'] Suc.prems Cons turn show ?thesis
        by (auto simp: run is_Exception_def split: sum.split prod.split)
    qed
  qed
qed simp

lemma run_supervise:
  "length script < turns \<Longrightarrow>
   \<exists>h s'. answer reader (run turns (Suc fuel) cfg) script =
     (Inl (fst (supervise cfg 0 script)), h, s') \<and> sleeps h = snd (supervise cfg 0 script)"
  using run_loop_supervise [of script turns fuel cfg 0 None]
  by (auto simp: run_def ensure_consumer_group_def do_op_def answer_bind answer_catch)

section \<open>Failures in a row\<close>

text \<open>The reads that failed in a row at the end of a script, \<open>k\<close> having failed before it.\<close>

fun streak :: "nat \<Rightarrow> reply list \<Rightarrow> nat" where
  "streak k [] = k"
| "streak k (r # later) = streak (if read_error r = None then 0 else Suc k) later"

definition failing :: "reply list \<Rightarrow> nat" where
  "failing script = length (filter (\<lambda>r. read_error r \<noteq> None) script)"

lemma error_delay_ok: "failures \<le> 1024 \<Longrightarrow> \<exists>d. error_delay cfg failures = Inr d"
  using scale_pow2_times [of "failures - 1" "loop_error_delay cfg"] by (auto simp: error_delay_def)

lemma error_delay_capped:
  "error_delay cfg failures = Inr d \<Longrightarrow>
   num_value d = capped_doubling (num_value (loop_error_delay cfg), num_value (loop_error_max_delay cfg)) (failures - 1)"
  by (cases "scale_pow2 (loop_error_delay cfg) (failures - 1)") (auto simp: error_delay_def dest: scale_pow2_value)

lemma read_error_cancel: "read_error r = Some CancelledError \<longleftrightarrow> r = RExn CancelledError"
  by (auto simp: read_error_def wrong_reply_def split: reply.splits)

lemma gives_up_iff: "max_loop_failures cfg = int n \<Longrightarrow> 0 < n \<Longrightarrow> gives_up cfg k \<longleftrightarrow> n \<le> k"
  by (auto simp: gives_up_def)

lemma prefix_Cons_all:
  "(\<forall>q. prefix q (r # later) \<longrightarrow> P q) \<longleftrightarrow> P [] \<and> (\<forall>q. prefix q later \<longrightarrow> P (r # q))"
  by (auto simp: prefix_Cons)

lemma strict_prefix_Cons_all:
  "(\<forall>q. strict_prefix q (r # later) \<longrightarrow> P q) \<longleftrightarrow> P [] \<and> (\<forall>q. strict_prefix q later \<longrightarrow> P (r # q))"
proof -
  have "strict_prefix q (r # later) \<longleftrightarrow> q = [] \<or> (\<exists>q'. q = r # q' \<and> strict_prefix q' later)" for q
    by (cases q) auto
  then show ?thesis by auto
qed

text \<open>As long as fewer than \<open>n\<close> reads fail in a row, the loop goes on.\<close>

lemma supervise_survives:
  assumes "max_loop_failures cfg = int n" and "0 < n" and "n \<le> 1024"
  shows "RExn CancelledError \<notin> set script \<Longrightarrow> (\<forall>q. prefix q script \<longrightarrow> streak k q < n) \<Longrightarrow>
    fst (supervise cfg k script) = CancelledError \<and> length (snd (supervise cfg k script)) = failing script"
proof (induction script arbitrary: k)
  case Nil
  then show ?case by (simp add: failing_def)
next
  case (Cons r later)
  note pre = Cons.prems(2) [unfolded prefix_Cons_all]
  show ?case
  proof (cases "read_error r")
    case None
    with Cons.IH [of 0] Cons.prems(1) pre show ?thesis by (auto simp: failing_def)
  next
    case (Some e)
    with pre have "\<forall>q. prefix q later \<longrightarrow> streak (Suc k) q < n" by simp
    moreover from this have k: "Suc k < n" by (metis Nil_prefix streak.simps(1))
    ultimately show ?thesis
      using Cons.IH [of "Suc k"] Cons.prems(1) Some error_delay_ok [of "Suc k" cfg] assms
        gives_up_iff [OF assms(1,2), of "Suc k"] read_error_cancel [of r]
      by (auto simp: failing_def split: prod.split)
  qed
qed

text \<open>The read that is the \<open>n\<close>-th to fail in a row ends it with its error.\<close>

lemma supervise_gives_up:
  assumes "max_loop_failures cfg = int n" and "0 < n" and "n \<le> 1024"
  shows "RExn CancelledError \<notin> set script \<Longrightarrow> (\<forall>q. strict_prefix q script \<longrightarrow> streak k q < n) \<Longrightarrow>
    k < n \<Longrightarrow> streak k script = n \<Longrightarrow>
    read_error (last script) = Some (fst (supervise cfg k script)) \<and>
    Suc (length (snd (supervise cfg k script))) = failing script"
proof (induction script arbitrary: k)
  case Nil
  then show ?case by simp
next
  case (Cons r later)
  note pre = Cons.prems(2) [unfolded strict_prefix_Cons_all]
  show ?case
  proof (cases "read_error r")
    case None
    with Cons.prems assms(2) have "later \<noteq> []" by auto
    with None Cons.IH [of 0] Cons.prems pre assms(2) show ?thesis by (auto simp: failing_def)
  next
    case (Some e)
    show ?thesis
    proof (cases later)
      case Nil
      with Some Cons.prems(1,4) error_delay_ok [of "Suc k" cfg] assms read_error_cancel [of r]
        gives_up_iff [OF assms(1,2), of "Suc k"] show ?thesis
        by (auto simp: failing_def)
    next
      case (Cons r' later')
      with pre Some have "\<forall>q. strict_prefix q later \<longrightarrow> streak (Suc k) q < n" by simp
      moreover from this have k: "Suc k < n" using Cons by (auto dest!: spec [of _ "[]"])
      ultimately show ?thesis
        using Cons.IH [of "Suc k"] Cons.prems Cons Some error_delay_ok [of "Suc k" cfg] assms
          gives_up_iff [OF assms(1,2), of "Suc k"] read_error_cancel [of r]
        by (auto simp: failing_def split: prod.split)
    qed
  qed
qed

lemma supervise_sleeps:
  assumes "0 \<le> num_value (loop_error_delay cfg)" and "0 \<le> num_value (loop_error_max_delay cfg)"
  shows "d \<in> set (snd (supervise cfg k script)) \<Longrightarrow>
    0 \<le> num_value d \<and> num_value d \<le> num_value (loop_error_max_delay cfg)"
proof (induction script arbitrary: k)
  case (Cons r later)
  have delay: "0 \<le> num_value w \<and> num_value w \<le> num_value (loop_error_max_delay cfg)"
    if "error_delay cfg n = Inr w" for n w
    using error_delay_capped [OF that] assms
      loop_delay.wait_nonneg [of "(num_value (loop_error_delay cfg), num_value (loop_error_max_delay cfg))" "n - 1"]
      capped_doubling_le [of "(num_value (loop_error_delay cfg), num_value (loop_error_max_delay cfg))" "n - 1"]
    by simp
  show ?case
    using Cons.prems Cons.IH [of 0] Cons.IH [of "Suc k"]
    by (cases "supervise cfg (Suc k) later") (auto split: option.splits if_splits sum.splits dest: delay)
qed simp

text \<open>
  C21. When Redis fails to answer the reads, \<open>run\<close> gives up at the read that is the \<open>max_loop_failures\<close>-th to fail
  in a row, and not before: it raises the error of that read, after a sleep for each earlier failure, none
  longer than \<open>loop_error_max_delay\<close>. A read that succeeds starts the count again.
\<close>

theorem run_gives_up:
  assumes "max_loop_failures cfg = int n" and "0 < n" and "n \<le> 1024"
    and "0 \<le> num_value (loop_error_delay cfg)" and "0 \<le> num_value (loop_error_max_delay cfg)"
    and "RExn CancelledError \<notin> set script"
    and "\<forall>q. strict_prefix q script \<longrightarrow> streak 0 q < n" and "streak 0 script = n"
    and "length script < turns"
  shows "\<exists>e h s'. answer reader (run turns (Suc fuel) cfg) script = (Inl e, h, s') \<and>
    read_error (last script) = Some e \<and> Suc (length (sleeps h)) = failing script \<and>
    (\<forall>d \<in> set (sleeps h). 0 \<le> num_value d \<and> num_value d \<le> num_value (loop_error_max_delay cfg))"
  using run_supervise [OF assms(9), of fuel cfg] supervise_gives_up [OF assms(1-3,6,7)] assms(2,8)
    supervise_sleeps [OF assms(4,5), of _ 0 script]
  by auto

text \<open>
  C22. As long as fewer than \<open>max_loop_failures\<close> reads fail in a row, \<open>run\<close> goes on: only the
  cancellation at the end of the script stops it.
\<close>

theorem run_survives:
  assumes "max_loop_failures cfg = int n" and "0 < n" and "n \<le> 1024"
    and "RExn CancelledError \<notin> set script" and "\<forall>q. prefix q script \<longrightarrow> streak 0 q < n"
    and "length script < turns"
  shows "\<exists>h s'. answer reader (run turns (Suc fuel) cfg) script = (Inl CancelledError, h, s') \<and>
    length (sleeps h) = failing script"
  using run_supervise [OF assms(6), of fuel cfg] supervise_survives [OF assms(1-5)] by auto

section \<open>A float delay without a limit of failures\<close>

lemma supervise_overflow:
  assumes "max_loop_failures cfg = 0" and "loop_error_delay cfg = PFloat q" and "is_Exception e"
  shows "k + n = 1025 \<Longrightarrow> 0 < n \<Longrightarrow> exn_name (fst (supervise cfg k (replicate n (RExn e)))) = u ''OverflowError''"
proof (induction n arbitrary: k)
  case (Suc n)
  show ?case
  proof (cases n)
    case 0
    with Suc.prems have "k = 1024" by simp
    with 0 assms show ?thesis
      by (simp add: read_error_def error_delay_def is_Exception_def)
  next
    case (Suc m)
    with Suc.prems have "k < 1024" by simp
    with Suc Suc.IH [of "Suc k"] Suc.prems assms show ?thesis
      by (auto simp: read_error_def error_delay_def is_Exception_def gives_up_def split: prod.splits)
  qed
qed simp

text \<open>
  A consumer that must never give up (\<open>max_loop_failures = 0\<close>), with a float \<open>loop_error_delay\<close> as its
  annotation says, ends at the 1025th failure in a row: the power of two no longer fits
  in a float, and the \<open>OverflowError\<close> leaves \<open>run\<close>.
\<close>

theorem never_give_up_overflows:
  assumes "max_loop_failures cfg = 0" and "loop_error_delay cfg = PFloat q" and "is_Exception e"
    and "1025 < turns"
  shows "\<exists>x h s'. answer reader (run turns (Suc fuel) cfg) (replicate 1025 (RExn e)) = (Inl x, h, s') \<and>
    exn_name x = u ''OverflowError''"
  using run_supervise [of "replicate 1025 (RExn e)" turns fuel cfg] supervise_overflow [OF assms(1-3), of 0 1025] assms(4)
  by auto

section \<open>Examples\<close>

lemma example_streak:
  "streak k (replicate n (RExn (Builtin ''ConnectionError'' []))) = k + n"
  by (induction n arbitrary: k) (simp_all add: read_error_def)

lemma streak_prefix:
  assumes "prefix q (replicate n (RExn (Builtin ''ConnectionError'' [])))"
  shows "streak 0 q = length q"
proof -
  have "q = replicate (length q) (RExn (Builtin ''ConnectionError'' []))"
    using set_mono_prefix [OF assms] by (intro replicate_eqI) auto
  with example_streak [of 0 "length q"] show ?thesis by (metis add_0)
qed

theorem run_gives_up_witness:
  "\<exists>e h s'. answer reader (run 30 1 example_config) (replicate 20 (RExn (Builtin ''ConnectionError'' []))) = (Inl e, h, s') \<and>
    e = Builtin ''ConnectionError'' [] \<and> length (sleeps h) = 19"
proof -
  let ?script = "replicate 20 (RExn (Builtin ''ConnectionError'' []))"
  have "streak 0 q < 20" if "strict_prefix q ?script" for q
    using that streak_prefix [of q 20] prefix_length_less [OF that] by (simp add: strict_prefix_def)
  then have "\<exists>e h s'. answer reader (run 30 (Suc 0) example_config) ?script = (Inl e, h, s') \<and>
    read_error (last ?script) = Some e \<and> Suc (length (sleeps h)) = failing ?script \<and>
    (\<forall>d \<in> set (sleeps h). 0 \<le> num_value d \<and> num_value d \<le> num_value (loop_error_max_delay example_config))"
    by (intro run_gives_up [where n = 20]) (auto simp: example_simps example_streak)
  then show ?thesis by (auto simp: read_error_def failing_def)
qed

theorem run_survives_witness:
  "\<exists>h s'. answer reader (run 30 1 example_config) (replicate 19 (RExn (Builtin ''ConnectionError'' []))) = (Inl CancelledError, h, s') \<and>
    length (sleeps h) = 19"
proof -
  let ?script = "replicate 19 (RExn (Builtin ''ConnectionError'' []))"
  have "streak 0 q < 20" if "prefix q ?script" for q
    using that streak_prefix [of q 19] prefix_length_le [OF that] by simp
  then have "\<exists>h s'. answer reader (run 30 (Suc 0) example_config) ?script = (Inl CancelledError, h, s') \<and>
    length (sleeps h) = failing ?script"
    by (intro run_survives [where n = 20]) (auto simp: example_simps)
  then show ?thesis by (auto simp: read_error_def failing_def)
qed

theorem never_give_up_overflows_witness:
  "\<exists>x h s'. answer reader (run 1026 1 (example_config\<lparr>max_loop_failures := 0, loop_error_delay := PFloat (1/2)\<rparr>))
      (replicate 1025 (RExn (Builtin ''ConnectionError'' []))) = (Inl x, h, s') \<and>
    exn_name x = u ''OverflowError''"
  using never_give_up_overflows [of "example_config\<lparr>max_loop_failures := 0, loop_error_delay := PFloat (1/2)\<rparr>" "1/2" "Builtin ''ConnectionError'' []" 1026 0]
  by simp

end
