(* ===== verification/ConsumerMachine.thy ===== *)
theory ConsumerMachine imports LoopSupervision begin

text \<open>
  The whole worker as a machine of interleaved coroutines: the main coroutine is \<open>run\<close>; at a
  \<open>gather\<close> its jobs become tasks, which the event loop steps in any order; they share the
  semaphore, the running flag and the server. A schedule picks the task of every step, a server
  answers every operation and may call \<open>stop\<close> or cancel at any await, so a statement about every
  server and every schedule is a statement about every run of the worker.
\<close>

section \<open>The machine\<close>

record task =
  code :: "unit io"
  past :: history
  var :: pystr

record 'w shared =
  world :: 'w
  running :: bool
  free :: nat
  trace :: history

record 'w machine =
  shared :: "'w shared"
  main :: task
  kids :: "task list"
  gathering :: bool

text \<open>The reply to an operation, whether \<open>stop()\<close> is called meanwhile, and the server after it.\<close>

type_synonym 'w server = "'w \<Rightarrow> op \<Rightarrow> reply \<times> bool \<times> 'w"

text \<open>
  One operation of a task whose context variable holds \<open>v\<close>. Only the semaphore can make it wait;
  a waiter may be cancelled.
\<close>

definition await :: "'w server \<Rightarrow> op \<Rightarrow> 'w shared \<Rightarrow> reply \<times> 'w shared" where
  "await srv op sh = (case srv (world sh) op of (r, stopped, w) \<Rightarrow>
     (fit op r, sh\<lparr>world := w, running := running sh \<and> \<not> stopped\<rparr>))"

fun effect :: "'w server \<Rightarrow> op \<Rightarrow> pystr \<Rightarrow> 'w shared \<Rightarrow> (reply \<times> pystr \<times> 'w shared) option" where
  "effect srv Acquire v sh = (case await srv Acquire sh of (r, sh') \<Rightarrow>
     (if r \<noteq> RNone then Some (r, v, sh')
      else if free sh = 0 then None else Some (r, v, sh'\<lparr>free := free sh - 1\<rparr>)))"
| "effect srv Release v sh = Some (RNone, v, sh\<lparr>free := Suc (free sh)\<rparr>)"
| "effect srv (SetRid r) v sh = Some (RText v, r, sh)"
| "effect srv (ResetRid t) v sh = Some (RNone, t, sh)"
| "effect srv GetRunning v sh = Some (RBool (running sh), v, sh)"
| "effect srv (SetRunning b) v sh = Some (RNone, v, sh\<lparr>running := b\<rparr>)"
| "effect srv (Gather jobs) v sh = None"
| "effect srv op v sh = (case await srv op sh of (r, sh') \<Rightarrow> Some (r, v, sh'))"

definition record_event :: "op \<Rightarrow> reply \<Rightarrow> 'w shared \<Rightarrow> 'w shared" where
  "record_event op r sh = sh\<lparr>trace := trace sh @ [(op, r)]\<rparr>"

definition step_task :: "'w server \<Rightarrow> task \<Rightarrow> 'w shared \<Rightarrow> (task \<times> 'w shared) option" where
  "step_task srv t sh = (case code t of
     Call op k \<Rightarrow> (case effect srv op (var t) sh of
        None \<Rightarrow> None
      | Some (r, v, sh') \<Rightarrow>
          Some (\<lparr>code = k r, past = past t @ [(op, r)], var = v\<rparr>, record_event op r sh'))
   | _ \<Rightarrow> None)"

fun finished :: "'a io \<Rightarrow> bool" where
  "finished (Call op k) \<longleftrightarrow> False"
| "finished _ \<longleftrightarrow> True"

fun job_code :: "config \<Rightarrow> job \<Rightarrow> unit io" where
  "job_code cfg (HandleMessage mid raw) = handle_message cfg mid raw"
| "job_code cfg (DeadLetterReclaimed mid raw n) = dead_letter_reclaimed cfg mid raw n"

text \<open>A task starts in a copy of the context of the coroutine that gathers it.\<close>

definition start :: "config \<Rightarrow> pystr \<Rightarrow> job \<Rightarrow> task" where
  "start cfg v job = \<lparr>code = job_code cfg job, past = [], var = v\<rparr>"

definition spawn :: "config \<Rightarrow> job list \<Rightarrow> 'w machine \<Rightarrow> 'w machine" where
  "spawn cfg jobs m = m\<lparr>kids := map (start cfg (var (main m))) jobs, gathering := True\<rparr>"

definition collect :: "'w server \<Rightarrow> job list \<Rightarrow> (reply \<Rightarrow> unit io) \<Rightarrow> 'w machine \<Rightarrow> 'w machine" where
  "collect srv jobs k m = (case await srv (Gather jobs) (shared m) of (r, sh) \<Rightarrow>
     m\<lparr>shared := record_event (Gather jobs) r sh,
       main := (main m)\<lparr>code := k r, past := past (main m) @ [(Gather jobs, r)]\<rparr>,
       kids := [], gathering := False\<rparr>)"

definition step_main :: "'w server \<Rightarrow> config \<Rightarrow> 'w machine \<Rightarrow> 'w machine" where
  "step_main srv cfg m = (case code (main m) of
     Call (Gather jobs) k \<Rightarrow>
       (if \<not> gathering m then spawn cfg jobs m
        else if list_all (\<lambda>t. finished (code t)) (kids m) then collect srv jobs k m
        else m)
   | _ \<Rightarrow> (case step_task srv (main m) (shared m) of
       None \<Rightarrow> m | Some (t, sh) \<Rightarrow> m\<lparr>main := t, shared := sh\<rparr>))"

definition step_kid :: "'w server \<Rightarrow> nat \<Rightarrow> 'w machine \<Rightarrow> 'w machine" where
  "step_kid srv j m =
     (if j < length (kids m) then
        (case step_task srv (kids m ! j) (shared m) of
           None \<Rightarrow> m | Some (t, sh) \<Rightarrow> m\<lparr>kids := (kids m)[j := t], shared := sh\<rparr>)
      else m)"

fun step :: "'w server \<Rightarrow> config \<Rightarrow> nat \<Rightarrow> 'w machine \<Rightarrow> 'w machine" where
  "step srv cfg 0 m = step_main srv cfg m"
| "step srv cfg (Suc j) m = step_kid srv j m"

definition run_schedule :: "'w server \<Rightarrow> config \<Rightarrow> nat list \<Rightarrow> 'w machine \<Rightarrow> 'w machine" where
  "run_schedule srv cfg schedule m = fold (step srv cfg) schedule m"

definition boot :: "nat \<Rightarrow> nat \<Rightarrow> config \<Rightarrow> 'w \<Rightarrow> 'w machine" where
  "boot turns fuel cfg w =
     \<lparr>shared = \<lparr>world = w, running = False, free = concurrency cfg, trace = []\<rparr>,
      main = \<lparr>code = bindI (run turns fuel cfg) (\<lambda>_. Return ()), past = [], var = no_request_id\<rparr>,
      kids = [], gathering = False\<rparr>"

section \<open>One operation\<close>

lemma effect_possible:
  assumes "effect srv op v sh = Some (r, v', sh')"
  shows "possible op r \<and> trace sh' = trace sh \<and>
    int (free sh') = int (free sh) - slot_change (op, r) \<and> (\<forall>jobs. op \<noteq> Gather jobs)"
  using assms
  by (cases op) (auto simp: await_def split: prod.splits reply.splits if_splits)

lemma effect_None: "effect srv op v sh = None \<Longrightarrow> (op = Acquire \<and> free sh = 0) \<or> (\<exists>jobs. op = Gather jobs)"
  by (cases op) (auto simp: await_def split: prod.splits if_splits)

lemma step_task_Some:
  assumes "step_task srv t sh = Some (t', sh')"
  shows "\<exists>op k r. code t = Call op k \<and> possible op r \<and> code t' = k r \<and> past t' = past t @ [(op, r)] \<and>
    trace sh' = trace sh @ [(op, r)] \<and> int (free sh') = int (free sh) - slot_change (op, r)"
  using assms effect_possible [of srv _ "var t" sh]
  by (fastforce simp: step_task_def record_event_def split: io.splits option.splits)

section \<open>Invariants\<close>

text \<open>A task keeps to \<open>P\<close>: its history does, and so does whatever it can still do.\<close>

definition task_keeps :: "(history \<Rightarrow> op \<times> reply \<Rightarrow> bool) \<Rightarrow> (history \<Rightarrow> bool) \<Rightarrow> task \<Rightarrow> bool" where
  "task_keeps P Q t \<longleftrightarrow> always P (past t) \<and> holds (always P) (code t) (past t) (\<lambda>_ h. Q h)"

lemma task_keeps_step:
  assumes "task_keeps P Q t" and "step_task srv t sh = Some (t', sh')"
  shows "task_keeps P Q t'"
  using step_task_Some [OF assms(2)] assms(1) by (auto simp: task_keeps_def)

definition logged :: "'w machine \<Rightarrow> task \<Rightarrow> bool" where
  "logged m t \<longleftrightarrow> set (past t) \<subseteq> set (trace (shared m))"

definition acks_inv :: "config \<Rightarrow> 'w machine \<Rightarrow> bool" where
  "acks_inv cfg m \<longleftrightarrow> acks_ok cfg (trace (shared m)) \<and>
     (\<forall>t \<in> insert (main m) (set (kids m)). task_keeps (ack_event cfg) (\<lambda>_. True) t \<and> logged m t)"

lemma justified_mono: "list_ex (justifies cfg mid) h \<Longrightarrow> set h \<subseteq> set h' \<Longrightarrow> list_ex (justifies cfg mid) h'"
  by (auto simp: list_ex_iff)

lemma ack_event_mono: "ack_event cfg h ev \<Longrightarrow> set h \<subseteq> set h' \<Longrightarrow> ack_event cfg h' ev"
  by (cases "(cfg, h, ev)" rule: ack_event.cases) (auto intro: justified_mono)

lemma acks_step_task:
  assumes "acks_ok cfg (trace sh)" and "task_keeps (ack_event cfg) Q t" and "set (past t) \<subseteq> set (trace sh)"
    and "step_task srv t sh = Some (t', sh')"
  shows "acks_ok cfg (trace sh') \<and> set (past t') \<subseteq> set (trace sh') \<and> set (trace sh) \<subseteq> set (trace sh')"
proof -
  obtain op k r where s: "code t = Call op k" "possible op r" "past t' = past t @ [(op, r)]" "trace sh' = trace sh @ [(op, r)]"
    using step_task_Some [OF assms(4)] by blast
  from assms(2) s have "ack_event cfg (past t) (op, r)" by (auto simp: task_keeps_def)
  from ack_event_mono [OF this assms(3)] have "ack_event cfg (trace sh) (op, r)" .
  with assms s show ?thesis by auto
qed

lemma acks_handlers: "keeps (ack_event cfg) (job_code cfg job)"
  by (cases job) (auto intro!: keepsI acks_handle_message acks_dead_letter_reclaimed)

lemma keeps_task:
  assumes "keeps P c" shows "task_keeps P (\<lambda>_. True) \<lparr>code = c, past = [], var = v\<rparr>"
proof -
  from assms have "holds (always P) c [] (\<lambda>x h'. always P h')" by (simp add: keeps_def)
  then show ?thesis by (auto simp: task_keeps_def elim: holds_mono)
qed

lemma task_keeps_start: "task_keeps (ack_event cfg) (\<lambda>_. True) (start cfg v job)"
  unfolding start_def by (intro keeps_task acks_handlers)

lemma acks_inv_kid:
  assumes "acks_inv cfg m" shows "acks_inv cfg (step_kid srv j m)"
proof (cases "j < length (kids m) \<and> step_task srv (kids m ! j) (shared m) \<noteq> None")
  case True
  then obtain t sh where s: "step_task srv (kids m ! j) (shared m) = Some (t, sh)" and j: "j < length (kids m)" by auto
  then have k: "kids m ! j \<in> set (kids m)" by simp
  with assms have t: "task_keeps (ack_event cfg) (\<lambda>_. True) (kids m ! j)" "set (past (kids m ! j)) \<subseteq> set (trace (shared m))"
    "acks_ok cfg (trace (shared m))" by (auto simp: acks_inv_def logged_def)
  note new = acks_step_task [OF t(3,1,2) s] task_keeps_step [OF t(1) s]
  have m: "step_kid srv j m = m\<lparr>kids := (kids m)[j := t], shared := sh\<rparr>"
    using j s by (simp add: step_kid_def)
  have "task_keeps (ack_event cfg) (\<lambda>_. True) t' \<and> set (past t') \<subseteq> set (trace sh)"
    if "t' \<in> insert (main m) (set ((kids m)[j := t]))" for t'
  proof (cases "t' = t")
    case False
    with that have "t' \<in> insert (main m) (set (kids m))"
      using set_update_subset_insert [of "kids m" j t] by auto
    with assms new show ?thesis unfolding acks_inv_def logged_def by blast
  qed (use new in simp)
  with new show ?thesis unfolding acks_inv_def logged_def m by simp
next
  case False
  with assms show ?thesis by (auto simp: step_kid_def split: option.split)
qed

lemma acks_inv_main_task:
  assumes "acks_inv cfg m" and "step_task srv (main m) (shared m) = Some (t, sh)"
  shows "acks_inv cfg (m\<lparr>main := t, shared := sh\<rparr>)"
proof -
  from assms(1) have t: "task_keeps (ack_event cfg) (\<lambda>_. True) (main m)" "set (past (main m)) \<subseteq> set (trace (shared m))"
    "acks_ok cfg (trace (shared m))" by (auto simp: acks_inv_def logged_def)
  from assms(1) acks_step_task [OF t(3,1,2) assms(2)] task_keeps_step [OF t(1) assms(2)] show ?thesis
    by (fastforce simp: acks_inv_def logged_def)
qed

lemma acks_inv_collect:
  assumes "acks_inv cfg m" and "code (main m) = Call (Gather jobs) k"
  shows "acks_inv cfg (collect srv jobs k m)"
proof -
  obtain r st w where w: "srv (world (shared m)) (Gather jobs) = (r, st, w)" by (cases "srv (world (shared m)) (Gather jobs)")
  have "possible (Gather jobs) (fit (Gather jobs) r)" by (rule possible_fit)
  with assms w show ?thesis
    by (auto simp: acks_inv_def logged_def collect_def await_def record_event_def task_keeps_def simp del: fit.simps possible.simps)
qed

lemma acks_inv_step: "acks_inv cfg m \<Longrightarrow> acks_inv cfg (step srv cfg i m)"
proof (cases i)
  case (Suc j)
  assume "acks_inv cfg m" with Suc show ?thesis by (simp add: acks_inv_kid)
next
  case 0
  assume inv: "acks_inv cfg m"
  have spawned: "acks_inv cfg (spawn cfg jobs m)" for jobs
    using inv by (auto simp: acks_inv_def spawn_def logged_def task_keeps_start) (simp add: start_def)
  show ?thesis
    using 0 inv acks_inv_main_task [OF inv] acks_inv_collect [OF inv] spawned
    by (auto simp: step_main_def split: io.split op.split option.split)
qed

lemma acks_inv_run: "acks_inv cfg m \<Longrightarrow> acks_inv cfg (run_schedule srv cfg schedule m)"
  unfolding run_schedule_def by (induction schedule arbitrary: m) (simp_all add: acks_inv_step)

lemma acks_inv_boot: "acks_inv cfg (boot turns fuel cfg w)"
  unfolding acks_inv_def boot_def logged_def
  by (auto intro!: keeps_task keeps_bind keeps_run)

text \<open>
  C1. No message is lost: in every run of the worker, whatever Redis answers, whatever the handlers of the
  service do and however the coroutines interleave, every XACK is of a message of the consumer's own stream and
  group that was, before that, processed with success, or written to the dead letter stream under its id,
  or reported by XAUTOCLAIM as no longer in the stream.
\<close>

theorem worker_acks_are_justified:
  "acks_ok cfg (trace (shared (run_schedule srv cfg schedule (boot turns fuel cfg w))))"
  using acks_inv_run [OF acks_inv_boot] unfolding acks_inv_def by (rule conjunct1)

end
