(* ===== verification/ConsumerSlots.thy ===== *)
theory ConsumerSlots imports ConsumerMachine begin

text \<open>
  The semaphore in every run of the worker: the free slots and the held ones are always
  \<open>concurrency\<close>, a slot is held exactly around an attempt, and the coroutines of a gather always
  come to their end.
\<close>

section \<open>The main coroutine takes no slot\<close>

fun is_slot :: "op \<Rightarrow> bool" where
  "is_slot Acquire = True"
| "is_slot Release = True"
| "is_slot _ = False"

fun is_gather :: "op \<Rightarrow> bool" where
  "is_gather (Gather _) = True"
| "is_gather _ = False"

text \<open>\<open>avoids p t\<close>: no operation of the kind \<open>p\<close>.\<close>

abbreviation avoids :: "(op \<Rightarrow> bool) \<Rightarrow> 'a io \<Rightarrow> bool" where
  "avoids p t \<equiv> uses p t 0"

lemma avoids_bind: "avoids p m \<Longrightarrow> (\<And>a. avoids p (f a)) \<Longrightarrow> avoids p (bindI m f)"
  using uses_bind [of p m 0 f 0] by simp

lemma avoids_catch: "avoids p m \<Longrightarrow> (\<And>e. avoids p (f e)) \<Longrightarrow> avoids p (catchI q m f)"
  using uses_catch [of p m 0 f 0 q] by simp

lemma avoids_op:
  "\<not> p op \<Longrightarrow> avoids p (do_op op)" "\<not> p op \<Longrightarrow> avoids p (do_rows op)" "\<not> p op \<Longrightarrow> avoids p (do_claim op)"
  "\<not> p op \<Longrightarrow> avoids p (do_read op)" "\<not> p Monotonic \<Longrightarrow> avoids p do_time" "\<not> p GetRunning \<Longrightarrow> avoids p is_running"
  using uses_op [of p op] uses_local [of p] by simp_all

lemma avoids_attempt: "avoids p m \<Longrightarrow> avoids p (attemptI m)"
  unfolding attemptI_def by (intro avoids_catch avoids_bind) simp_all

lemmas avoids_rules = avoids_bind avoids_catch avoids_op avoids_attempt uses_lift

lemma avoids_reclaimed_tasks: "avoids is_slot (reclaimed_tasks cfg claimed tasks)"
  by (induction cfg claimed tasks rule: reclaimed_tasks.induct)
    (auto simp: xack_def delivery_count_def intro!: avoids_rules)

lemma avoids_gather: "avoids is_slot (gather tasks)"
  by (auto simp: gather_def intro!: avoids_rules)

lemma avoids_reclaim: "avoids is_slot (reclaim_pending fuel cfg n st)"
  by (induction fuel arbitrary: n st)
    (auto simp: handle_reclaimed_def intro!: avoids_rules avoids_reclaimed_tasks avoids_gather)

lemma avoids_loop_turn: "avoids is_slot (loop_turn fuel cfg failures t)"
  unfolding loop_turn_def reclaim_if_due_def read_entries_def
  by (auto intro!: avoids_rules avoids_reclaim avoids_gather split: option.split sum.split)

lemma avoids_run_loop: "avoids is_slot (run_loop turns fuel cfg failures t)"
  by (induction turns arbitrary: failures t)
    (auto intro!: avoids_rules avoids_loop_turn split: option.split sum.split)

lemma avoids_run: "avoids is_slot (bindI (run turns fuel cfg) (\<lambda>_. Return ()))"
  unfolding run_def ensure_consumer_group_def
  by (auto intro!: avoids_rules avoids_run_loop)

lemma avoids_send: "avoids is_gather (send_to_dlq cfg mid p e)"
  by (rule uses_send_to_dlq) simp

lemma avoids_gather_job: "avoids is_gather (job_code cfg job)"
proof (cases job)
  case (HandleMessage mid raw)
  have "uses is_gather (one_attempt cfg mid a p) 0" for a p
    using uses_one_attempt [of is_gather cfg mid a p] by simp
  from uses_handle_message [OF uses_handle_entry [where q = is_gather and d = 0, OF this]] show ?thesis
    by (simp add: HandleMessage)
next
  case (DeadLetterReclaimed mid raw n)
  then show ?thesis
    by (auto simp: dead_letter_reclaimed_def xack_def intro!: avoids_rules avoids_send)
qed

text \<open>The longest job.\<close>

definition job_bound :: "config \<Rightarrow> nat" where
  "job_bound cfg = 5 * nat (max_retries cfg) + 4"

lemma job_ends: "ends_in (job_code cfg job) (job_bound cfg)"
proof (cases job)
  case (HandleMessage mid raw)
  then show ?thesis using handle_message_ends [of cfg mid raw] by (simp add: job_bound_def)
next
  case (DeadLetterReclaimed mid raw n)
  then show ?thesis
    using uses_mono [OF dead_letter_ends [of cfg mid raw n], of "job_bound cfg"] by (simp add: job_bound_def)
qed

section \<open>The invariant\<close>

definition kid_ok :: "config \<Rightarrow> task \<Rightarrow> bool" where
  "kid_ok cfg t \<longleftrightarrow> task_keeps slot_event (\<lambda>h. held h = 0) t \<and> avoids is_gather (code t) \<and>
     length (past t) \<le> job_bound cfg \<and> ends_in (code t) (job_bound cfg - length (past t))"

definition held_by_kids :: "task list \<Rightarrow> int" where
  "held_by_kids ts = (\<Sum>t\<leftarrow>ts. held (past t))"

definition slots_inv :: "config \<Rightarrow> 'w machine \<Rightarrow> bool" where
  "slots_inv cfg m \<longleftrightarrow> list_all (kid_ok cfg) (kids m) \<and> avoids is_slot (code (main m)) \<and>
     int (free (shared m)) + held_by_kids (kids m) = int (concurrency cfg) \<and>
     (gathering m \<or> kids m = [])"

lemma slots_01: "slots_ok h \<Longrightarrow> held h = 0 \<or> held h = 1"
proof (induction h rule: rev_induct)
  case (snoc ev h)
  obtain op r where ev: "ev = (op, r)" by (cases ev)
  with snoc show ?case by (cases op) auto
qed simp

lemma held_by_update:
  "j < length ts \<Longrightarrow> held_by_kids (ts[j := t]) = held_by_kids ts - held (past (ts ! j)) + held (past t)"
  by (induction ts arbitrary: j) (auto simp: held_by_kids_def split: nat.split)

lemma kid_ok_start: "kid_ok cfg (start cfg v job)"
proof -
  have "frees (job_code cfg job)"
    by (cases job) (simp_all add: frees_handle_message frees_dead_letter_reclaimed)
  then have "holds slots_ok (job_code cfg job) [] (\<lambda>_ h. held h = 0)"
    by (auto simp: frees_def elim!: allE [of _ "[]"] holds_mono)
  then show ?thesis
    by (simp add: kid_ok_def task_keeps_def start_def avoids_gather_job job_ends)
qed

lemma held_start: "held_by_kids (map (start cfg v) jobs) = 0"
  by (induction jobs) (auto simp: held_by_kids_def start_def)

lemma kid_ok_step:
  assumes "kid_ok cfg t" and "step_task srv t sh = Some (t', sh')"
  shows "kid_ok cfg t' \<and> length (past t') = Suc (length (past t)) \<and> length (past t) < job_bound cfg \<and>
    int (free sh') + held (past t') = int (free sh) + held (past t)"
proof -
  obtain op k r where s: "code t = Call op k" "code t' = k r" "past t' = past t @ [(op, r)]"
    "int (free sh') = int (free sh) - slot_change (op, r)"
    using step_task_Some [OF assms(2)] by blast
  have "task_keeps slot_event (\<lambda>h. held h = 0) t'"
    using assms(1) by (auto simp: kid_ok_def intro: task_keeps_step [OF _ assms(2)])
  moreover have "avoids is_gather (code t')"
    using assms(1) s(1,2) by (auto simp: kid_ok_def split: if_splits)
  ultimately show ?thesis
    using assms(1) s by (auto simp: kid_ok_def diff_Suc split: nat.splits)
qed

lemma kid_finished: "kid_ok cfg t \<Longrightarrow> finished (code t) \<Longrightarrow> held (past t) = 0"
  by (cases "code t") (auto simp: kid_ok_def task_keeps_def)

lemma held_finished: "list_all (kid_ok cfg) ts \<Longrightarrow> list_all (\<lambda>t. finished (code t)) ts \<Longrightarrow> held_by_kids ts = 0"
  by (induction ts) (auto simp: held_by_kids_def kid_finished)

lemma slots_inv_kid:
  assumes "slots_inv cfg m" shows "slots_inv cfg (step_kid srv j m)"
proof (cases "j < length (kids m) \<and> step_task srv (kids m ! j) (shared m) \<noteq> None")
  case True
  then obtain t sh where s: "step_task srv (kids m ! j) (shared m) = Some (t, sh)" and j: "j < length (kids m)" by auto
  have "kid_ok cfg (kids m ! j)" using assms j by (auto simp: slots_inv_def list_all_length)
  from kid_ok_step [OF this s] assms j s show ?thesis
    by (auto simp: slots_inv_def step_kid_def held_by_update list_all_length nth_list_update)
next
  case False
  with assms show ?thesis by (auto simp: step_kid_def split: option.split)
qed

lemma slots_inv_main_task:
  assumes "slots_inv cfg m" and "step_task srv (main m) (shared m) = Some (t, sh)"
  shows "slots_inv cfg (m\<lparr>main := t, shared := sh\<rparr>)"
proof -
  obtain op k r where s: "code (main m) = Call op k" "code t = k r"
    "int (free sh) = int (free (shared m)) - slot_change (op, r)"
    using step_task_Some [OF assms(2)] by blast
  from assms(1) s(1,2) have "\<not> is_slot op" "avoids is_slot (code t)"
    by (auto simp: slots_inv_def split: if_splits)
  moreover from this(1) have "slot_change (op, r) = 0" by (cases op) auto
  ultimately show ?thesis using assms(1) s by (simp add: slots_inv_def)
qed

lemma slots_inv_collect:
  assumes "slots_inv cfg m" and "code (main m) = Call (Gather jobs) k"
    and "list_all (\<lambda>t. finished (code t)) (kids m)"
  shows "slots_inv cfg (collect srv jobs k m)"
proof -
  have "held_by_kids (kids m) = 0" using assms by (auto simp: slots_inv_def intro: held_finished)
  with assms show ?thesis
    by (auto simp: slots_inv_def collect_def await_def record_event_def held_by_kids_def split: prod.split)
qed

lemma slots_inv_step: "slots_inv cfg m \<Longrightarrow> slots_inv cfg (step srv cfg i m)"
proof (cases i)
  case (Suc j)
  assume "slots_inv cfg m" with Suc show ?thesis by (simp add: slots_inv_kid)
next
  case 0
  assume inv: "slots_inv cfg m"
  have spawned: "slots_inv cfg (spawn cfg jobs m)" if "\<not> gathering m" for jobs
    using inv that kid_ok_start held_start
    by (auto simp: slots_inv_def spawn_def list_all_iff held_by_kids_def)
  show ?thesis
    using 0 inv slots_inv_main_task [OF inv] slots_inv_collect [OF inv] spawned
    by (auto simp: step_main_def split: io.split op.split option.split)
qed

lemma slots_inv_run: "slots_inv cfg m \<Longrightarrow> slots_inv cfg (run_schedule srv cfg schedule m)"
  unfolding run_schedule_def by (induction schedule arbitrary: m) (simp_all add: slots_inv_step)

lemma slots_inv_boot: "slots_inv cfg (boot turns fuel cfg w)"
  using avoids_run by (auto simp: slots_inv_def boot_def held_by_kids_def)

section \<open>What the semaphore guarantees\<close>

fun next_op :: "task \<Rightarrow> op option" where
  "next_op t = (case code t of Call op k \<Rightarrow> Some op | _ \<Rightarrow> None)"

definition next_is :: "(op \<Rightarrow> bool) \<Rightarrow> task \<Rightarrow> bool" where
  "next_is p t \<longleftrightarrow> (case next_op t of None \<Rightarrow> False | Some op \<Rightarrow> p op)"

lemma next_is_Call: "next_is p t \<longleftrightarrow> (\<exists>op k. code t = Call op k \<and> p op)"
  by (auto simp: next_is_def split: io.splits)

lemma kid_next_event:
  assumes "kid_ok cfg t" and "code t = Call op k"
  shows "slot_event (past t) (op, fit op RNone)"
  using assms possible_fit [of op RNone] by (auto simp: kid_ok_def task_keeps_def simp del: possible_fit)

lemma kid_held: "kid_ok cfg t \<Longrightarrow> held (past t) = 0 \<or> held (past t) = 1"
  by (auto simp: kid_ok_def task_keeps_def dest: slots_01)

lemma kid_processing: "kid_ok cfg t \<Longrightarrow> next_is is_process t \<Longrightarrow> held (past t) = 1"
  by (auto simp: next_is_Call dest!: kid_next_event elim: is_process.elims)

lemma kid_waiting: "kid_ok cfg t \<Longrightarrow> next_is (\<lambda>op. is_sleep op \<or> is_xadd op \<or> op = Acquire) t \<Longrightarrow> held (past t) = 0"
  by (auto simp: next_is_Call dest!: kid_next_event elim: is_sleep.elims is_xadd.elims)

lemma processing_held:
  "list_all (kid_ok cfg) ts \<Longrightarrow> int (length (filter (next_is is_process) ts)) \<le> held_by_kids ts"
proof (induction ts)
  case (Cons t ts)
  then show ?case
    using kid_held [of cfg t] kid_processing [of cfg t] by (auto simp: held_by_kids_def)
qed (simp add: held_by_kids_def)

text \<open>
  C3. In every run of the worker, the free slots and the slots held by the messages being handled add up to
  \<open>concurrency\<close>; so at most \<open>concurrency\<close> messages are processed at the same time, and a message that
  sleeps before its next attempt, or writes to the dead letter stream, holds no slot.
\<close>

theorem worker_concurrency:
  "case run_schedule srv cfg schedule (boot turns fuel cfg w) of m \<Rightarrow>
     int (free (shared m)) + held_by_kids (kids m) = int (concurrency cfg) \<and>
     length (filter (next_is is_process) (kids m)) \<le> concurrency cfg \<and>
     list_all (\<lambda>t. held (past t) = 0)
       (filter (next_is (\<lambda>op. is_sleep op \<or> is_xadd op \<or> op = Acquire)) (kids m))"
proof -
  let ?m = "run_schedule srv cfg schedule (boot turns fuel cfg w)"
  have inv: "slots_inv cfg ?m" by (rule slots_inv_run [OF slots_inv_boot])
  then have kids: "list_all (kid_ok cfg) (kids ?m)"
    and sum: "int (free (shared ?m)) + held_by_kids (kids ?m) = int (concurrency cfg)"
    by (simp_all add: slots_inv_def)
  from processing_held [OF kids] sum have "length (filter (next_is is_process) (kids ?m)) \<le> concurrency cfg"
    by simp
  moreover have "list_all (\<lambda>t. held (past t) = 0)
      (filter (next_is (\<lambda>op. is_sleep op \<or> is_xadd op \<or> op = Acquire)) (kids ?m))"
    using kids kid_waiting [of cfg] unfolding list_all_iff by (simp only: set_filter) blast
  ultimately show ?thesis using sum by simp
qed

section \<open>The coroutines of a gather end\<close>

definition all_done :: "'w machine \<Rightarrow> bool" where
  "all_done m \<longleftrightarrow> list_all (\<lambda>t. finished (code t)) (kids m)"

text \<open>The operations the tasks may still do.\<close>

definition remaining :: "config \<Rightarrow> 'w machine \<Rightarrow> nat" where
  "remaining cfg m = (\<Sum>t\<leftarrow>kids m. job_bound cfg - length (past t))"

lemma sum_list_decrease:
  "j < length ts \<Longrightarrow> (f t :: nat) < f (ts ! j) \<Longrightarrow> sum_list (map f (ts[j := t])) < sum_list (map f ts)"
  by (induction ts arbitrary: j) (auto split: nat.split)

lemma remaining_decreases:
  assumes "slots_inv cfg m" and "j < length (kids m)" and "step_task srv (kids m ! j) (shared m) = Some (t, sh)"
  shows "remaining cfg (step_kid srv j m) < remaining cfg m"
proof -
  have "kid_ok cfg (kids m ! j)" using assms by (auto simp: slots_inv_def list_all_length)
  from kid_ok_step [OF this assms(3)] assms(2,3) show ?thesis
    unfolding remaining_def step_kid_def by (auto intro!: sum_list_decrease)
qed

lemma held_none: "list_all (kid_ok cfg) ts \<Longrightarrow> list_all (\<lambda>t. held (past t) = 0) ts \<Longrightarrow> held_by_kids ts = 0"
  by (induction ts) (auto simp: held_by_kids_def)

lemma some_kid_enabled:
  assumes "slots_inv cfg m" and "0 < concurrency cfg" and "\<not> all_done m"
  shows "\<exists>j < length (kids m). step_task srv (kids m ! j) (shared m) \<noteq> None"
proof (rule ccontr)
  assume none: "\<not> ?thesis"
  have stuck: "step_task srv t (shared m) = None" if "t \<in> set (kids m)" for t
    using none that by (metis in_set_conv_nth)
  have ok: "kid_ok cfg t" if "t \<in> set (kids m)" for t
    using assms(1) that by (auto simp: slots_inv_def list_all_iff)
  have waits: "finished (code t) \<or> (next_is (\<lambda>op. op = Acquire) t \<and> free (shared m) = 0)" if t: "t \<in> set (kids m)" for t
  proof (cases "code t")
    case (Call op k)
    with stuck [OF t] have "effect srv op (var t) (shared m) = None"
      by (auto simp: step_task_def split: option.splits)
    with effect_None [OF this] ok [OF t] Call show ?thesis
      by (auto simp: kid_ok_def next_is_Call)
  qed simp_all
  have "held (past t) = 0" if "t \<in> set (kids m)" for t
    using waits [OF that] kid_finished [OF ok [OF that]] kid_waiting [OF ok [OF that]]
    by (auto simp: next_is_Call)
  then have "held_by_kids (kids m) = 0"
    using assms(1) by (auto simp: slots_inv_def list_all_iff intro: held_none)
  with assms(1,2) have "free (shared m) \<noteq> 0" by (auto simp: slots_inv_def)
  with waits assms(3) show False by (auto simp: all_done_def list_all_iff)
qed

text \<open>A coroutine that does not wait for a slot can always go on.\<close>

lemma kid_enabled:
  assumes "kid_ok cfg t" and "\<not> finished (code t)" and "next_is (\<lambda>op. op = Acquire) t \<longrightarrow> 0 < free sh"
  shows "step_task srv t sh \<noteq> None"
proof (cases "code t")
  case (Call op k)
  show ?thesis
  proof
    assume "step_task srv t sh = None"
    with Call have "effect srv op (var t) sh = None" by (auto simp: step_task_def split: option.splits)
    with effect_None [OF this] assms(1,3) Call show False by (auto simp: kid_ok_def next_is_Call)
  qed
qed (use assms(2) in simp_all)

text \<open>
  C23. A gather never hangs by itself: in every run of the worker with at least one slot, as long as a
  coroutine of the gather has not ended, some coroutine can do its next operation (no deadlock on the
  semaphore). Every coroutine that has not ended and does not wait for a slot that is taken can do its next one; each
  such step, of whichever coroutine, lowers the number of operations that remain and touches no other coroutine; and no
  coroutine ever does more than \<open>5 * max_retries + 4\<close> operations.
\<close>

theorem gather_progress:
  assumes "0 < concurrency cfg" and "m = run_schedule srv cfg schedule (boot turns fuel cfg w)"
    and "\<not> all_done m"
  shows "(\<exists>j < length (kids m). step_task srv (kids m ! j) (shared m) \<noteq> None) \<and>
    (\<forall>j < length (kids m). \<not> finished (code (kids m ! j)) \<and>
        (next_is (\<lambda>op. op = Acquire) (kids m ! j) \<longrightarrow> 0 < free (shared m)) \<longrightarrow>
      step_task srv (kids m ! j) (shared m) \<noteq> None) \<and>
    (\<forall>j < length (kids m). step_task srv (kids m ! j) (shared m) \<noteq> None \<longrightarrow>
      remaining cfg (step_kid srv j m) < remaining cfg m \<and>
      length (past (kids (step_kid srv j m) ! j)) = Suc (length (past (kids m ! j))) \<and>
      (\<forall>i < length (kids m). i \<noteq> j \<longrightarrow> kids (step_kid srv j m) ! i = kids m ! i)) \<and>
    (\<forall>t \<in> set (kids m). length (past t) \<le> 5 * nat (max_retries cfg) + 4)"
proof (intro conjI)
  have inv: "slots_inv cfg m" unfolding assms(2) by (rule slots_inv_run [OF slots_inv_boot])
  then have ok: "kid_ok cfg t" if "t \<in> set (kids m)" for t
    using that by (auto simp: slots_inv_def list_all_iff)
  show "\<exists>j < length (kids m). step_task srv (kids m ! j) (shared m) \<noteq> None"
    by (rule some_kid_enabled [OF inv assms(1,3)])
  show "\<forall>j < length (kids m). \<not> finished (code (kids m ! j)) \<and>
        (next_is (\<lambda>op. op = Acquire) (kids m ! j) \<longrightarrow> 0 < free (shared m)) \<longrightarrow>
      step_task srv (kids m ! j) (shared m) \<noteq> None"
    using kid_enabled [OF ok [OF nth_mem]] by blast
  show "\<forall>t \<in> set (kids m). length (past t) \<le> 5 * nat (max_retries cfg) + 4"
    using ok by (auto simp: kid_ok_def job_bound_def)
  show "\<forall>j < length (kids m). step_task srv (kids m ! j) (shared m) \<noteq> None \<longrightarrow>
      remaining cfg (step_kid srv j m) < remaining cfg m \<and>
      length (past (kids (step_kid srv j m) ! j)) = Suc (length (past (kids m ! j))) \<and>
      (\<forall>i < length (kids m). i \<noteq> j \<longrightarrow> kids (step_kid srv j m) ! i = kids m ! i)"
  proof (intro allI impI)
    fix j assume j: "j < length (kids m)" "step_task srv (kids m ! j) (shared m) \<noteq> None"
    then obtain t sh where s: "step_task srv (kids m ! j) (shared m) = Some (t, sh)" by auto
    from remaining_decreases [OF inv j(1) s] kid_ok_step [OF ok [OF nth_mem [OF j(1)]] s] j(1) s
    show "remaining cfg (step_kid srv j m) < remaining cfg m \<and>
        length (past (kids (step_kid srv j m) ! j)) = Suc (length (past (kids m ! j))) \<and>
        (\<forall>i < length (kids m). i \<noteq> j \<longrightarrow> kids (step_kid srv j m) ! i = kids m ! i)"
      by (simp add: step_kid_def)
  qed
qed

text \<open>So some order of steps ends all of them, whatever the server answers.\<close>

lemma gather_can_end:
  assumes "0 < concurrency cfg" and "slots_inv cfg m"
  shows "\<exists>js. all_done (fold (step_kid srv) js m) \<and> length js \<le> remaining cfg m"
  using assms(2)
proof (induction "remaining cfg m" arbitrary: m rule: less_induct)
  case less
  show ?case
  proof (cases "all_done m")
    case True
    then show ?thesis by (intro exI [of _ "[]"]) simp
  next
    case False
    obtain j t sh where "j < length (kids m)" "step_task srv (kids m ! j) (shared m) = Some (t, sh)"
      using some_kid_enabled [OF less.prems assms(1) False, of srv] by auto
    from remaining_decreases [OF less.prems this]
    have dec: "remaining cfg (step_kid srv j m) < remaining cfg m" .
    obtain js where "all_done (fold (step_kid srv) js (step_kid srv j m))"
      "length js \<le> remaining cfg (step_kid srv j m)"
      using less.hyps [OF dec slots_inv_kid [OF less.prems]] by blast
    with dec show ?thesis by (intro exI [of _ "j # js"]) simp
  qed
qed

text \<open>
  C24. From every point of every run of the worker with at least one slot, whatever the server answers from
  then on, some order of at most \<open>5 * max_retries + 4\<close> steps per message ends every coroutine of the gather.
\<close>

theorem gather_ends:
  assumes "0 < concurrency cfg" and "m = run_schedule srv cfg schedule (boot turns fuel cfg w)"
  shows "\<exists>js. all_done (fold (step_kid srv') js m) \<and>
    length js \<le> (5 * nat (max_retries cfg) + 4) * length (kids m)"
proof -
  have inv: "slots_inv cfg m" unfolding assms(2) by (rule slots_inv_run [OF slots_inv_boot])
  have "(\<Sum>t\<leftarrow>ts. job_bound cfg - length (past t)) \<le> job_bound cfg * length ts" for ts
    by (induction ts) auto
  with gather_can_end [OF assms(1) inv, of srv'] show ?thesis
    by (fastforce simp: remaining_def job_bound_def intro: order_trans)
qed

section \<open>Example\<close>

text \<open>Two messages arrive at once.\<close>

fun one_read :: "nat \<Rightarrow> op \<Rightarrow> reply \<times> bool \<times> nat" where
  "one_read n (XReadGroup g c s m b) =
     (if n = 0 then RRead [(u ''calls_events'', [(u ''1-0'', []), (u ''2-0'', [])])] else RNone, False, Suc n)"
| "one_read n (XAutoclaim st g c idle st0 m) = (RClaim (RStr (u ''0-0'')) [], False, n)"
| "one_read n op = (RNone, False, n)"


definition two_messages :: "nat machine" where
  "two_messages = run_schedule one_read example_config (replicate 9 0) (boot 2 1 example_config 0)"

lemmas machine_eval = run_schedule_def boot_def run_def ensure_consumer_group_def do_op_def is_running_def
  step_main_def step_task_def await_def record_event_def loop_turn_def attemptI_def reclaim_if_due_def do_time_def
  reclaim_due_def do_claim_def scan_end_def read_entries_def do_read_def gather_def entry_jobs_def spawn_def

lemma two_messages_kids: "kids two_messages = map (start example_config no_request_id)
    [HandleMessage (u ''1-0'') [], HandleMessage (u ''2-0'') []]"
  by (simp add: two_messages_def machine_eval eval_nat_numeral)

lemma two_messages_not_done: "\<not> all_done two_messages"
  by (simp add: all_done_def two_messages_kids start_def handle_message_def do_text_def)

text \<open>Both messages can go on, and each step of either brings the end closer.\<close>

theorem gather_progress_witness:
  "step_task one_read (kids two_messages ! 0) (shared two_messages) \<noteq> None \<and>
    step_task one_read (kids two_messages ! 1) (shared two_messages) \<noteq> None \<and>
    remaining example_config (step_kid one_read 0 two_messages) < remaining example_config two_messages \<and>
    remaining example_config (step_kid one_read 1 two_messages) < remaining example_config two_messages"
proof -
  have "\<not> finished (code t) \<and> \<not> next_is (\<lambda>op. op = Acquire) t" if "t \<in> set (kids two_messages)" for t
    using that by (auto simp: two_messages_kids start_def handle_message_def do_text_def next_is_def)
  moreover have "length (kids two_messages) = 2" by (simp add: two_messages_kids)
  ultimately show ?thesis
    using gather_progress [OF _ two_messages_def two_messages_not_done] by (simp add: example_simps)
qed

theorem gather_ends_witness:
  "\<exists>js. all_done (fold (step_kid one_read) js two_messages) \<and> length js \<le> 38"
  using gather_ends [OF _ two_messages_def, of one_read]
  by (simp add: example_simps two_messages_kids)

end
