(* ===== verification/Pagination.thy ===== *)
theory Pagination imports Exceptions "HOL-Library.Multiset" begin

text \<open>
  \<open>pagination/schemas.py\<close> and \<open>pagination/service.py\<close>: the parameters of a list, the ORDER BY the code builds
  for them and the answer of a page. A query is what the code builds of it: where its rows come from, its ORDER
  BY criteria in their order, and its OFFSET and LIMIT. The database is a parameter, with what SQL promises
  about it (\<open>answers\<close>).
\<close>

section \<open>The parameters and the answer\<close>

record pagination_params =
  page :: int
  limit :: int
  sort :: "pystr option"
  order :: "pystr option"

definition default_pagination :: pagination_params where
  "default_pagination = \<lparr>page = 1, limit = 10, sort = None, order = Some (u ''asc'')\<rparr>"

text \<open>What the schema accepts.\<close>

definition valid_pagination :: "pagination_params \<Rightarrow> bool" where
  "valid_pagination p \<longleftrightarrow> 1 \<le> page p \<and> limit p \<le> 1000 \<and> order p \<in> {None, Some (u ''asc''), Some (u ''desc'')}"

definition offset :: "pagination_params \<Rightarrow> int" where
  "offset p = (page p - 1) * limit p"

record 'r paginated_response =
  resp_total :: int
  resp_page :: int
  resp_limit :: int
  items :: "'r list"
  has_next :: bool
  has_previous :: bool
  total_pages :: int

definition zero_division :: exn where
  "zero_division = Builtin ''ZeroDivisionError'' (u ''integer division or modulo by zero'')"

definition floor_div :: "int \<Rightarrow> int \<Rightarrow> exn + int" where
  "floor_div a b = (if b = 0 then Inl zero_division else Inr (a div b))"

definition count_pages :: "int \<Rightarrow> int \<Rightarrow> exn + int" where
  "count_pages tot l = (if 0 < tot then floor_div (tot + l - 1) l else Inr 0)"

definition build_paginated_response :: "pagination_params \<Rightarrow> int \<Rightarrow> 'r list \<Rightarrow> exn + 'r paginated_response" where
  "build_paginated_response p tot rs = (case count_pages tot (limit p) of
     Inl e \<Rightarrow> Inl e
   | Inr n \<Rightarrow> Inr \<lparr>resp_total = tot, resp_page = page p, resp_limit = limit p, items = rs,
       has_next = offset p + limit p < tot, has_previous = 1 < page p, total_pages = n\<rparr>)"

section \<open>What a list may be sorted by\<close>

text \<open>
  The mapper of a model: the keys of its columns, and its descriptors with whether each is a hybrid property. A
  class that is not mapped has none. \<open>column\<close> is \<open>getattr\<close> on the class.
\<close>

record mapper =
  column_attrs :: "pystr list"
  orm_descriptors :: "(pystr \<times> bool) list"

record 'c sa_model =
  mapper_of :: "mapper option"
  column :: "pystr \<Rightarrow> 'c option"

definition sortable_names :: "'c sa_model \<Rightarrow> pystr set" where
  "sortable_names m = (case mapper_of m of
     None \<Rightarrow> {} | Some mp \<Rightarrow> set (column_attrs mp) \<union> set (map fst (filter snd (orm_descriptors mp))))"

definition sort_column :: "'c sa_model \<Rightarrow> pystr option \<Rightarrow> 'c option" where
  "sort_column m name = (case name of
     None \<Rightarrow> None | Some n \<Rightarrow> (if n \<notin> sortable_names m then None else column m n))"

section \<open>The query of a page\<close>

datatype direction = Asc | Desc

record ('q, 'c) query =
  source :: 'q
  criteria :: "(direction \<times> 'c) list"
  slice :: "(int \<times> int) option"

definition order_by :: "('q, 'c) query \<Rightarrow> direction \<times> 'c \<Rightarrow> ('q, 'c) query" where
  "order_by q k = q\<lparr>criteria := criteria q @ [k]\<rparr>"

text \<open>\<open>text or default\<close>.\<close>

definition or_text :: "pystr option \<Rightarrow> pystr \<Rightarrow> pystr" where
  "or_text t d = (case t of None \<Rightarrow> d | Some s \<Rightarrow> (if s = [] then d else s))"

abbreviation (input) id_name :: pystr where "id_name \<equiv> u ''id''"
abbreviation (input) created_name :: pystr where "created_name \<equiv> u ''created_at''"

definition id_or_created :: "'c sa_model \<Rightarrow> 'c option" where
  "id_or_created m = (case sort_column m (Some id_name) of
     None \<Rightarrow> sort_column m (Some created_name) | Some c \<Rightarrow> Some c)"

text \<open>The name and the column the list is sorted by.\<close>

definition choose_sort :: "'c sa_model \<Rightarrow> 'c sa_model option \<Rightarrow> pystr \<Rightarrow> pystr \<times> 'c option" where
  "choose_sort m sm name =
     (let c = sort_column (case sm of None \<Rightarrow> m | Some m' \<Rightarrow> m') (Some name);
          c = (if c = None \<and> sm \<noteq> None then sort_column m (Some name) else c)
      in if c = None then (id_name, id_or_created m) else (name, c))"

definition order_query ::
  "('q, 'c) query \<Rightarrow> 'c sa_model \<Rightarrow> pystr \<times> 'c option \<Rightarrow> pystr \<Rightarrow> ('q, 'c) query" where
  "order_query q m chosen dir = (case chosen of
     (_, None) \<Rightarrow> q
   | (name, Some c) \<Rightarrow>
       (let q = order_by q (if dir = u ''asc'' then Asc else Desc, c)
        in if name \<notin> {id_name, created_name} then
             (case id_or_created m of None \<Rightarrow> q | Some c2 \<Rightarrow> order_by q (Desc, c2))
           else q))"

text \<open>The two statements the code runs on a session.\<close>

record ('q, 'c, 'r, 'w) sql_session =
  scalar_count :: "('q, 'c) query \<Rightarrow> ('w, exn, int option) prog"
  scalars_all :: "('q, 'c) query \<Rightarrow> ('w, exn, 'r list) prog"

definition page_query ::
  "('q, 'c) query \<Rightarrow> 'c sa_model \<Rightarrow> pagination_params \<Rightarrow> 'c sa_model option \<Rightarrow> pystr \<Rightarrow> pystr \<Rightarrow> ('q, 'c) query" where
  "page_query q m p sm default_sort default_order =
     (order_query q m (choose_sort m sm (or_text (sort p) default_sort)) (or_text (order p) default_order))
       \<lparr>slice := Some (offset p, limit p)\<rparr>"

definition paginate_raw ::
  "('q, 'c) query \<Rightarrow> 'c sa_model \<Rightarrow> ('q, 'c, 'r, 'w) sql_session \<Rightarrow> pagination_params \<Rightarrow> 'c sa_model option
   \<Rightarrow> pystr \<Rightarrow> pystr \<Rightarrow> ('w, exn, 'r list \<times> int) prog" where
  "paginate_raw q m S p sm default_sort default_order =
     bindM (scalar_count S q) (\<lambda>n.
     bindM (scalars_all S (page_query q m p sm default_sort default_order)) (\<lambda>rs.
       ret (rs, case n of None \<Rightarrow> 0 | Some n \<Rightarrow> n)))"

definition paginate_query ::
  "('q, 'c) query \<Rightarrow> 'c sa_model \<Rightarrow> ('q, 'c, 'r, 'w) sql_session \<Rightarrow> pagination_params \<Rightarrow> 'c sa_model option
   \<Rightarrow> pystr \<Rightarrow> pystr \<Rightarrow> ('w, exn, 'r paginated_response) prog" where
  "paginate_query q m S p sm default_sort default_order =
     bindM (paginate_raw q m S p sm default_sort default_order)
       (\<lambda>(rs, tot). liftE (build_paginated_response p tot rs))"

section \<open>The arithmetic of the pages\<close>

lemma ceil_div: "0 < l \<Longrightarrow> 0 < t \<Longrightarrow> ((t + l - 1) div l - 1) * l < t \<and> t \<le> (t + l - 1) div l * (l :: int)"
proof -
  assume l: "0 < l"
  have "t + l - 1 = (t + l - 1) div l * l + (t + l - 1) mod l" by simp
  moreover have "0 \<le> (t + l - 1) mod l" "(t + l - 1) mod l < l" using l by simp_all
  moreover have "((t + l - 1) div l - 1) * l = (t + l - 1) div l * l - l" by (simp add: left_diff_distrib)
  ultimately show ?thesis by linarith
qed

lemma next_page: "0 < (l :: int) \<Longrightarrow> (n - 1) * l < t \<Longrightarrow> t \<le> n * l \<Longrightarrow> (p - 1) * l + l < t \<longleftrightarrow> p < n"
proof -
  assume l: "0 < l" and lo: "(n - 1) * l < t" and hi: "t \<le> n * l"
  have eq: "(p - 1) * l + l = p * l" by (simp add: left_diff_distrib)
  show ?thesis
  proof
    assume "(p - 1) * l + l < t"
    with eq hi have "p * l < n * l" by linarith
    with l show "p < n" by (simp add: mult_less_cancel_right)
  next
    assume "p < n"
    with l have "p * l \<le> (n - 1) * l" by (intro mult_right_mono) auto
    with eq lo show "(p - 1) * l + l < t" by linarith
  qed
qed

lemma page_counts:
  assumes "0 < limit p" and "0 \<le> tot"
  shows "\<exists>r. build_paginated_response p tot rs = Inr r \<and>
    tot \<le> total_pages r * limit p \<and> (0 < tot \<longrightarrow> (total_pages r - 1) * limit p < tot) \<and>
    0 \<le> total_pages r \<and> total_pages r \<le> tot \<and>
    (1 \<le> page p \<longrightarrow> has_next r = (page p < total_pages r)) \<and> has_previous r = (1 < page p)"
proof (cases "0 < tot")
  case True
  let ?n = "(tot + limit p - 1) div limit p"
  have n: "(?n - 1) * limit p < tot" "tot \<le> ?n * limit p" using ceil_div [OF assms(1) True] by auto
  have "0 < ?n * limit p" using n(2) True by linarith
  with assms(1) have "0 < ?n" by (simp add: zero_less_mult_iff)
  moreover have "?n - 1 \<le> (?n - 1) * limit p"
    using calculation assms(1) by (simp add: mult_le_cancel_left1)
  with n(1) have "?n \<le> tot" by linarith
  ultimately show ?thesis
    using n True assms(1) next_page [OF assms(1) n, of "page p"]
    by (simp add: build_paginated_response_def count_pages_def floor_div_def offset_def)
next
  case False
  have "0 \<le> offset p" if "1 \<le> page p" using that assms(1) by (simp add: offset_def)
  moreover have "tot = 0" using False assms(2) by simp
  ultimately show ?thesis
    using assms(1) by (auto simp: build_paginated_response_def count_pages_def)
qed

text \<open>
  For a positive limit the answer of a page counts right: \<open>total_pages\<close> is the least number of pages that
  hold all rows, \<open>has_next\<close> tells whether one of them comes after this page, and \<open>has_previous\<close> whether this is
  not the first.
\<close>

theorem page_arithmetic:
  assumes "0 < limit p" and "0 \<le> tot"
  shows "\<exists>r. build_paginated_response p tot rs = Inr r \<and>
    tot \<le> total_pages r * limit p \<and> (0 < tot \<longrightarrow> (total_pages r - 1) * limit p < tot) \<and>
    0 \<le> total_pages r \<and> total_pages r \<le> tot \<and>
    (1 \<le> page p \<longrightarrow> has_next r = (page p < total_pages r)) \<and> has_previous r = (1 < page p)"
  by (rule page_counts [OF assms])

theorem page_arithmetic_witness:
  "\<exists>r. build_paginated_response (default_pagination\<lparr>page := 3\<rparr>) 21 [()] = Inr r \<and> total_pages r = 3 \<and> \<not> has_next r"
proof -
  obtain r where "build_paginated_response (default_pagination\<lparr>page := 3\<rparr>) 21 [()] = Inr r"
    "21 \<le> total_pages r * 10" "(total_pages r - 1) * 10 < 21" "has_next r = (3 < total_pages r)"
    using page_arithmetic [of "default_pagination\<lparr>page := 3\<rparr>" 21 "[()]"] by (auto simp: default_pagination_def)
  moreover have "total_pages r = 3"
  proof -
    from \<open>21 \<le> total_pages r * 10\<close> \<open>(total_pages r - 1) * 10 < 21\<close> show ?thesis by presburger
  qed
  ultimately show ?thesis by auto
qed

text \<open>The schema has no lower bound for the limit: with 0 a list that is not empty cannot be answered.\<close>

lemma limit_zero_fails:
  "valid_pagination (default_pagination\<lparr>limit := 0\<rparr>) \<and>
   (0 < tot \<longrightarrow> build_paginated_response (default_pagination\<lparr>limit := 0\<rparr>) tot rs = Inl zero_division)"
  by (simp add: valid_pagination_def default_pagination_def build_paginated_response_def count_pages_def
      floor_div_def)

section \<open>What SQL promises\<close>

text \<open>The rows of two keys in the order of the criteria; later criteria break ties.\<close>

fun precedes :: "('c \<Rightarrow> 'r \<Rightarrow> 'k::linorder) \<Rightarrow> (direction \<times> 'c) list \<Rightarrow> 'r \<Rightarrow> 'r \<Rightarrow> bool" where
  "precedes key [] a b \<longleftrightarrow> True"
| "precedes key ((Asc, c) # ks) a b \<longleftrightarrow> key c a < key c b \<or> (key c a = key c b \<and> precedes key ks a b)"
| "precedes key ((Desc, c) # ks) a b \<longleftrightarrow> key c b < key c a \<or> (key c a = key c b \<and> precedes key ks a b)"

text \<open>
  The database holds the rows of the query and does not change between the requests. COUNT counts them; a SELECT
  gives the slice of some order of the rows that the criteria allow, and no more: rows the criteria do not tell
  apart may come in another order every time.
\<close>

definition answers ::
  "('q, 'c, 'r, 'w) sql_session \<Rightarrow> ('c \<Rightarrow> 'r \<Rightarrow> 'k::linorder) \<Rightarrow> 'r list \<Rightarrow> 'q \<Rightarrow> bool" where
  "answers S key rows src \<longleftrightarrow>
     (\<forall>q w. source q = src \<longrightarrow> fst (scalar_count S q w) = Inr (Some (int (length rows)))) \<and>
     (\<forall>q w first n. source q = src \<and> slice q = Some (first, n) \<and> 0 \<le> first \<and> 0 \<le> n \<longrightarrow>
        (\<exists>xs. mset xs = mset rows \<and> sorted_wrt (precedes key (criteria q)) xs \<and>
           fst (scalars_all S q w) = Inr (take (nat n) (drop (nat first) xs))))"

lemma precedes_antisym:
  assumes "precedes key ks a b" and "precedes key ks b a" and "(d, c) \<in> set ks"
  shows "key c a = key c b"
  using assms
proof (induction ks)
  case (Cons k ks)
  then show ?case by (cases k; cases "fst k") auto
qed simp

lemma sorted_wrt_unique:
  assumes "mset xs = mset ys" and "sorted_wrt le xs" and "sorted_wrt le ys"
    and "\<And>a b. a \<in> set xs \<Longrightarrow> b \<in> set xs \<Longrightarrow> le a b \<Longrightarrow> le b a \<Longrightarrow> a = b"
  shows "xs = ys"
  using assms
proof (induction xs arbitrary: ys)
  case (Cons x xs)
  obtain y ys' where ys: "ys = y # ys'" using Cons.prems(1) by (cases ys) auto
  have sets: "set (x # xs) = set ys" using Cons.prems(1) by (rule mset_eq_setD)
  have "x = y"
  proof (rule ccontr)
    assume ne: "x \<noteq> y"
    with sets ys have "x \<in> set ys'" "y \<in> set xs" by auto
    with Cons.prems(2,3) ys have "le x y" "le y x" by auto
    with Cons.prems(4) \<open>y \<in> set xs\<close> ne show False by auto
  qed
  moreover have "xs = ys'"
    using Cons.prems \<open>x = y\<close> ys by (intro Cons.IH) auto
  ultimately show ?case by (simp add: ys)
qed simp

lemma concat_slices: "concat (map (\<lambda>i. take n (drop (i * n) xs)) [0..<k]) = take (k * n) xs"
  by (induction k) (simp_all add: take_add [symmetric] add.commute)

section \<open>The order of a list\<close>

lemma sort_column_sortable: "sort_column m name = Some c \<Longrightarrow> \<exists>n. n \<in> sortable_names m \<and> column m n = Some c"
  by (auto simp: sort_column_def split: option.splits if_splits)

lemma id_or_created_sortable: "id_or_created m = Some c \<Longrightarrow> \<exists>n. n \<in> sortable_names m \<and> column m n = Some c"
  by (auto simp: id_or_created_def split: option.splits dest: sort_column_sortable)

lemma choose_sort_sortable:
  "choose_sort m sm name = (n, Some c) \<Longrightarrow>
   \<exists>m' \<in> set_option (Some m) \<union> set_option sm. \<exists>n. n \<in> sortable_names m' \<and> column m' n = Some c"
  by (fastforce simp: choose_sort_def Let_def split: option.splits if_splits
      dest: sort_column_sortable id_or_created_sortable)

text \<open>
  Whatever text a client sends as \<open>sort\<close>, the query it gets is ordered by columns and hybrid properties of
  the models only, after the criteria the query already had; a text that names none of them gives exactly the
  query of the primary order.
\<close>

theorem sort_stays_sortable:
  "(\<exists>ks. criteria (page_query q m p sm ds dord) = criteria q @ ks \<and>
     (\<forall>k \<in> set ks. \<exists>m' \<in> set_option (Some m) \<union> set_option sm. \<exists>n. n \<in> sortable_names m' \<and> column m' n = Some (snd k))) \<and>
   source (page_query q m p sm ds dord) = source q \<and>
   (sort p = Some t \<and> t \<noteq> [] \<and> (\<forall>m' \<in> set_option (Some m) \<union> set_option sm. t \<notin> sortable_names m') \<longrightarrow>
     page_query q m p sm ds dord = page_query q m (p\<lparr>sort := Some id_name\<rparr>) None ds dord)"
proof (intro conjI)
  obtain name c where ch: "choose_sort m sm (or_text (sort p) ds) = (name, c)"
    by (cases "choose_sort m sm (or_text (sort p) ds)")
  show "\<exists>ks. criteria (page_query q m p sm ds dord) = criteria q @ ks \<and>
     (\<forall>k \<in> set ks. \<exists>m' \<in> set_option (Some m) \<union> set_option sm. \<exists>n. n \<in> sortable_names m' \<and> column m' n = Some (snd k))"
    using ch choose_sort_sortable [of m sm "or_text (sort p) ds"] id_or_created_sortable [of m]
    by (cases c) (fastforce simp: page_query_def order_query_def order_by_def Let_def split: option.splits)+
  show "source (page_query q m p sm ds dord) = source q"
    by (auto simp: page_query_def order_query_def order_by_def Let_def split: prod.splits option.splits)
  show "sort p = Some t \<and> t \<noteq> [] \<and> (\<forall>m' \<in> set_option (Some m) \<union> set_option sm. t \<notin> sortable_names m') \<longrightarrow>
     page_query q m p sm ds dord = page_query q m (p\<lparr>sort := Some id_name\<rparr>) None ds dord"
    by (auto simp: page_query_def choose_sort_def or_text_def sort_column_def id_or_created_def offset_def Let_def
        split: option.splits)
qed

section \<open>Going through all pages\<close>

text \<open>The list has an order with no ties: one of the columns it is sorted by is different in every row.\<close>

definition tie_free :: "('c \<Rightarrow> 'r \<Rightarrow> 'k::linorder) \<Rightarrow> 'r list \<Rightarrow> (direction \<times> 'c) list \<Rightarrow> bool" where
  "tie_free key rows ks \<longleftrightarrow> (\<exists>(d, c) \<in> set ks. inj_on (key c) (set rows))"

lemma order_query_tie_free:
  assumes "sort_column m (Some id_name) = Some c" and "inj_on (key c) (set rows)"
    and "or_text (sort p) ds \<noteq> created_name"
  shows "tie_free key rows (criteria (page_query q m p None ds dord))"
  using assms
  by (auto simp: tie_free_def page_query_def order_query_def choose_sort_def id_or_created_def order_by_def Let_def
      split: option.splits)

lemma tie_free_unique:
  assumes "tie_free key rows ks" and "mset xs = mset rows" and "mset ys = mset rows"
    and "sorted_wrt (precedes key ks) xs" and "sorted_wrt (precedes key ks) ys"
  shows "xs = ys"
proof (rule sorted_wrt_unique [of _ _ "precedes key ks"])
  fix a b
  assume "a \<in> set xs" "b \<in> set xs" and ab: "precedes key ks a b" "precedes key ks b a"
  moreover have "set xs = set rows" using assms(2) by (rule mset_eq_setD)
  ultimately show "a = b"
    using assms(1) precedes_antisym [OF ab] by (auto simp: tie_free_def inj_on_def)
qed (use assms in simp_all)

lemma page_query_source [simp]:
  "source (page_query q m p sm ds dord) = source q"
  "slice (page_query q m p sm ds dord) = Some (offset p, limit p)"
  by (auto simp: page_query_def order_query_def order_by_def Let_def split: prod.splits option.splits)

lemma page_query_criteria: "criteria (page_query q m (p\<lparr>page := k\<rparr>) sm ds dord) = criteria (page_query q m p sm ds dord)"
  by (auto simp: page_query_def)

lemma built_pages: "build_paginated_response p t v = Inr r \<Longrightarrow> count_pages t (limit p) = Inr (total_pages r)"
  by (auto simp: build_paginated_response_def split: sum.splits)

text \<open>One page of a database that answers.\<close>

lemma paginate_query_page:
  assumes "answers S key rows (source q)" and "0 < limit p" and "1 \<le> page p"
    and "fst (paginate_query q m S p sm ds dord w) = Inr r"
  shows "\<exists>xs. mset xs = mset rows \<and> sorted_wrt (precedes key (criteria (page_query q m p sm ds dord))) xs \<and>
     items r = take (nat (limit p)) (drop (nat (offset p)) xs) \<and>
     build_paginated_response p (int (length rows)) (items r) = Inr r"
proof -
  have "fst (scalar_count S q w) = Inr (Some (int (length rows)))"
    using assms(1) unfolding answers_def by blast
  then obtain w1 where c: "scalar_count S q w = (Inr (Some (int (length rows))), w1)"
    by (metis prod.collapse)
  have "0 \<le> offset p" using assms(2,3) by (simp add: offset_def)
  with assms(1,2) obtain xs where xs: "mset xs = mset rows"
      "sorted_wrt (precedes key (criteria (page_query q m p sm ds dord))) xs"
      "fst (scalars_all S (page_query q m p sm ds dord) w1) = Inr (take (nat (limit p)) (drop (nat (offset p)) xs))"
    unfolding answers_def by (metis page_query_source less_imp_le)
  then obtain w2 where "scalars_all S (page_query q m p sm ds dord) w1 = (Inr (take (nat (limit p)) (drop (nat (offset p)) xs)), w2)"
    by (cases "scalars_all S (page_query q m p sm ds dord) w1") auto
  with c assms(4)
  have b: "build_paginated_response p (int (length rows)) (take (nat (limit p)) (drop (nat (offset p)) xs)) = Inr r"
    by (auto simp: paginate_query_def paginate_raw_def prog_defs)
  then have "items r = take (nat (limit p)) (drop (nat (offset p)) xs)"
    by (auto simp: build_paginated_response_def split: sum.splits)
  with xs b show ?thesis by auto
qed

lemma page_count_covers:
  assumes "0 < l" and "count_pages (int (length rows)) l = Inr (int n)"
  shows "length rows \<le> n * nat l"
proof -
  have "int (length rows) \<le> int n * l"
    using assms ceil_div [OF assms(1), of "int (length rows)"] by (auto simp: count_pages_def floor_div_def split: if_splits)
  also have "\<dots> = int (n * nat l)" using assms(1) by simp
  finally show ?thesis by linarith
qed

lemma page_numbers:
  assumes "build_paginated_response (p\<lparr>page := int i + 1\<rparr>) (int (length rows)) v = Inr r" and "0 < limit p"
    and "count_pages (int (length rows)) (limit p) = Inr (int n)"
  shows "total_pages r = int n \<and> has_next r = (i + 1 < n)"
proof -
  have "total_pages r = int n" using assms(1,3) by (auto dest: built_pages)
  moreover have "has_next r = (int i + 1 < total_pages r)"
    using page_counts [of "p\<lparr>page := int i + 1\<rparr>" "int (length rows)" v] assms(1,2) by auto
  ultimately show ?thesis by auto
qed


section \<open>Example\<close>

lemma precedes_total: "precedes key ks a b \<or> precedes key ks b a"
proof (induction ks)
  case (Cons k ks)
  then show ?case by (cases k; cases "fst k") auto
qed simp

text \<open>
  A table of two rows, each with an id and a time, whose database swaps equal rows from one SELECT to the next.
\<close>

definition example_key :: "pystr \<Rightarrow> nat \<times> nat \<Rightarrow> nat" where
  "example_key c r = (if c = id_name then fst r else snd r)"

definition example_model :: "pystr sa_model" where
  "example_model = \<lparr>mapper_of = Some \<lparr>column_attrs = [id_name, created_name], orm_descriptors = []\<rparr>, column = Some\<rparr>"

definition example_rows :: "(nat \<times> nat) list" where
  "example_rows = [(1, 5), (2, 5)]"

definition swapping_session :: "(unit, pystr, nat \<times> nat, bool) sql_session" where
  "swapping_session = \<lparr>scalar_count = (\<lambda>q. ret (Some 2)), scalars_all = (\<lambda>q w.
     (let a = (1, 5); b = (2, 5); ks = criteria q;
          xs = (if precedes example_key ks a b \<and> (w \<or> \<not> precedes example_key ks b a) then [a, b] else [b, a])
      in (Inr (case slice q of None \<Rightarrow> xs | Some (first, n) \<Rightarrow> take (nat n) (drop (nat first) xs)), \<not> w)))\<rparr>"

lemma swapping_answers: "answers swapping_session example_key example_rows ()"
  unfolding answers_def
proof (intro conjI allI impI)
  fix q :: "(unit, pystr) query" and w first n
  assume "source q = () \<and> slice q = Some (first, n) \<and> 0 \<le> first \<and> 0 \<le> n"
  then show "\<exists>xs. mset xs = mset example_rows \<and> sorted_wrt (precedes example_key (criteria q)) xs \<and>
      fst (scalars_all swapping_session q w) = Inr (take (nat n) (drop (nat first) xs))"
    using precedes_total [of example_key "criteria q" "(1, 5)" "(2, 5)"]
    by (intro exI [of _ "if precedes example_key (criteria q) (1, 5) (2, 5) \<and>
        (w \<or> \<not> precedes example_key (criteria q) (2, 5) (1, 5)) then [(1, 5), (2, 5)] else [(2, 5), (1, 5)]"])
      (auto simp: swapping_session_def example_rows_def Let_def)
qed (simp add: swapping_session_def example_rows_def ret_def)

definition example_page :: "pystr option \<Rightarrow> nat \<Rightarrow> bool \<Rightarrow> (nat \<times> nat) paginated_response" where
  "example_page srt i w =
     \<lparr>resp_total = 2, resp_page = int i + 1, resp_limit = 1,
      items = [if srt = None then (i + 1, 5) else if w = (i = 0) then (1, 5) else (2, 5)],
      has_next = (i = 0), has_previous = (i \<noteq> 0), total_pages = 2\<rparr>"

lemma example_paginate:
  assumes "i < 2" and "srt \<in> {None, Some created_name}"
  shows "fst (paginate_query \<lparr>source = (), criteria = [], slice = None\<rparr> example_model swapping_session
      (default_pagination\<lparr>limit := 1, sort := srt, page := int i + 1\<rparr>) None id_name id_name w) = Inr (example_page srt i w)"
proof -
  from assms(1) consider "i = 0" | "i = 1" by linarith
  then show ?thesis
    by cases (use assms(2) in \<open>auto simp: paginate_query_def paginate_raw_def prog_defs swapping_session_def
      page_query_def choose_sort_def sort_column_def sortable_names_def example_model_def or_text_def
      default_pagination_def order_query_def order_by_def offset_def build_paginated_response_def count_pages_def
      floor_div_def example_key_def example_page_def Let_def\<close>)
qed


text \<open>
  Sorted by \<open>created_at\<close> the list has no second criterion, and the two pages of the table may both show the first
  row and never the second.
\<close>

lemma created_at_pages_repeat:
  "map (\<lambda>i. items (example_page (Some created_name) i (i = 0))) [0, 1] = [[(1, 5)], [(1, 5)]] \<and>
   (\<forall>i < 2. fst (paginate_query \<lparr>source = (), criteria = [], slice = None\<rparr> example_model swapping_session
      (default_pagination\<lparr>limit := 1, sort := Some created_name, page := int i + 1\<rparr>) None id_name id_name (i = 0)) =
      Inr (example_page (Some created_name) i (i = 0)))"
  using example_paginate [of _ "Some created_name"] by (simp add: example_page_def)

text \<open>A name that is not a column.\<close>

theorem sort_stays_sortable_witness:
  "page_query \<lparr>source = (), criteria = [], slice = None\<rparr> example_model (default_pagination\<lparr>sort := Some (u ''registry'')\<rparr>) None created_name id_name =
     page_query \<lparr>source = (), criteria = [], slice = None\<rparr> example_model (default_pagination\<lparr>sort := Some id_name\<rparr>) None created_name id_name \<and>
   u ''registry'' \<notin> sortable_names example_model"
proof -
  have "\<forall>m' \<in> set_option (Some example_model) \<union> set_option None. u ''registry'' \<notin> sortable_names m'"
    by (simp add: sortable_names_def example_model_def)
  with sort_stays_sortable [of "\<lparr>source = (), criteria = [], slice = None\<rparr>" example_model "default_pagination\<lparr>sort := Some (u ''registry'')\<rparr>" None created_name
      id_name "u ''registry''"]
  show ?thesis by simp
qed

end
