(* ===== verification/UserGroups.thy ===== *)
theory UserGroups imports JsonCodec Exceptions "HOL-Library.Sublist" begin

text \<open>
  The groups of a user: \<open>auth/groups.py\<close>, and the contract of the rule that decides whether a group
  gives another one, which the scope check of the routes and the roles of the context share.
\<close>

section \<open>Groups\<close>

datatype GroupEnum =
    EVALUATOR | APPLICANT | SECRETARY | DEPARTMENT_SECRETARY | PROGRAM_SECRETARY
  | ADMIN | AGENT | PARENT_AGENT | CHILD_AGENT

fun group_value :: "GroupEnum \<Rightarrow> pystr" where
  "group_value EVALUATOR = u ''/Evaluators''"
| "group_value APPLICANT = u ''/Applicants''"
| "group_value SECRETARY = u ''/Secretary''"
| "group_value DEPARTMENT_SECRETARY = u ''/Secretary/Department''"
| "group_value PROGRAM_SECRETARY = u ''/Secretary/Program''"
| "group_value ADMIN = u ''/Administrators''"
| "group_value AGENT = u ''/Agents''"
| "group_value PARENT_AGENT = u ''/Agents/Parent''"
| "group_value CHILD_AGENT = u ''/Agents/Child''"

definition SUPER_GROUPS :: "pystr list" where
  "SUPER_GROUPS = [group_value ADMIN]"

definition MAIN_GROUPS :: "pystr list" where
  "MAIN_GROUPS = [group_value APPLICANT, group_value SECRETARY, group_value EVALUATOR, group_value AGENT]"

text \<open>The rule: the group itself, or a group below it.\<close>

definition in_scope :: "pystr \<Rightarrow> pystr \<Rightarrow> bool" where
  "in_scope user_group required \<longleftrightarrow> user_group = required \<or> startswith user_group (required @ [47])"

section \<open>The contract of the rule\<close>

text \<open>A group is a path: \<open>below g r\<close> says that the parts of \<open>r\<close> start those of \<open>g\<close>.\<close>

definition parts :: "pystr \<Rightarrow> pystr list" where
  "parts g = split_on 47 g"

lemma parts_inject [simp]: "parts g = parts h \<longleftrightarrow> g = h"
  by (metis parts_def join_split_on)

locale group_rule =
  fixes below :: "pystr \<Rightarrow> pystr \<Rightarrow> bool"
  assumes below_iff: "below g r \<longleftrightarrow> prefix (parts r) (parts g)"
begin

lemma below_refl [simp]: "below g g"
  by (simp add: below_iff)

lemma below_trans: "below a b \<Longrightarrow> below b c \<Longrightarrow> below a c"
  unfolding below_iff by (rule prefix_order.trans)

lemma below_antisym: "below a b \<Longrightarrow> below b a \<Longrightarrow> a = b"
  unfolding below_iff using prefix_order.antisym [of "parts a" "parts b"] by simp

text \<open>The groups above one group are in a line: two siblings have nothing below both.\<close>

lemma below_linear: "below g a \<Longrightarrow> below g b \<Longrightarrow> below a b \<or> below b a"
  unfolding below_iff using prefix_same_cases by blast

lemma siblings_apart: "below g a \<Longrightarrow> \<not> below a b \<Longrightarrow> \<not> below b a \<Longrightarrow> \<not> below g b"
  using below_linear by blast

lemma below_length: "below g r \<Longrightarrow> length (parts r) \<le> length (parts g)"
  unfolding below_iff by (rule prefix_length_le)

end

lemma in_scope_parts: "in_scope g r \<longleftrightarrow> prefix (parts r) (parts g)"
proof
  assume "in_scope g r"
  then show "prefix (parts r) (parts g)"
    by (auto simp: in_scope_def startswith_iff parts_def split_on_append)
next
  assume "prefix (parts r) (parts g)"
  then obtain zs where z: "parts g = parts r @ zs" by (auto simp: prefix_def)
  show "in_scope g r"
  proof (cases zs)
    case Nil
    with z show ?thesis by (simp add: in_scope_def)
  next
    case (Cons y ys)
    have "g = join [47] (parts r @ zs)" using z by (metis parts_def join_split_on)
    also have "\<dots> = join [47] (parts r) @ [47] @ join [47] zs"
      using Cons join_append [of "parts r" zs] by (simp add: parts_def)
    also have "\<dots> = (r @ [47]) @ join [47] zs" by (simp add: parts_def join_split_on)
    finally show ?thesis by (auto simp: in_scope_def startswith_iff)
  qed
qed

interpretation scope: group_rule in_scope
  by unfold_locales (rule in_scope_parts)

section \<open>The scope check\<close>

text \<open>\<open>for x in v\<close> over a value of a token: the elements, or the type error.\<close>

definition not_iterable :: exn where
  "not_iterable = Builtin ''TypeError'' (u ''object is not iterable'')"

fun iter_value :: "pyval \<Rightarrow> exn + pyval list" where
  "iter_value (VList vs) = Inr vs"
| "iter_value (VStr s) = Inr (map (\<lambda>c. VStr [c]) s)"
| "iter_value (VBytes b) = Inr (map (\<lambda>c. VInt (int c)) b)"
| "iter_value (VDict d) = Inr (map (VStr \<circ> fst) d)"
| "iter_value _ = Inl not_iterable"

text \<open>\<open>x in v\<close> for a string: membership, or a substring.\<close>

fun contains_value :: "pyval \<Rightarrow> pystr \<Rightarrow> exn + bool" where
  "contains_value (VList vs) x = Inr (VStr x \<in> set vs)"
| "contains_value (VStr s) x = Inr (contains x s)"
| "contains_value (VDict d) x = Inr (x \<in> fst ` set d)"
| "contains_value _ x = Inl not_iterable"

text \<open>\<open>any(...)\<close> stops at the first true element and at the first error.\<close>

fun any_value :: "('a \<Rightarrow> exn + bool) \<Rightarrow> 'a list \<Rightarrow> exn + bool" where
  "any_value p [] = Inr False"
| "any_value p (x # xs) = (case p x of Inl e \<Rightarrow> Inl e | Inr b \<Rightarrow> (if b then Inr True else any_value p xs))"

fun in_scope_value :: "pystr \<Rightarrow> pyval \<Rightarrow> exn + bool" where
  "in_scope_value required (VStr g) = Inr (in_scope g required)"
| "in_scope_value required (VBytes b) =
     Inl (Builtin ''TypeError'' (u ''startswith first arg must be bytes''))"
| "in_scope_value required _ = Inl (Builtin ''AttributeError'' (u ''object has no attribute startswith''))"

definition validate_user_groups :: "pyval \<Rightarrow> pystr list \<Rightarrow> pystr list \<Rightarrow> exn + bool" where
  "validate_user_groups user_groups required_scopes super_groups =
     (case any_value (contains_value user_groups) super_groups of
        Inl e \<Rightarrow> Inl e
      | Inr True \<Rightarrow> Inr True
      | Inr False \<Rightarrow>
          (if required_scopes = [] then Inr True
           else any_value (\<lambda>required. case iter_value user_groups of
                  Inl e \<Rightarrow> Inl e
                | Inr gs \<Rightarrow> any_value (in_scope_value required) gs) required_scopes))"

text \<open>The groups of a token as they should be: a list of strings.\<close>

definition group_list :: "pystr list \<Rightarrow> pyval" where
  "group_list gs = VList (map VStr gs)"

definition allowed :: "pystr list \<Rightarrow> pystr list \<Rightarrow> pystr list \<Rightarrow> bool" where
  "allowed gs required super \<longleftrightarrow>
     set gs \<inter> set super \<noteq> {} \<or> required = [] \<or> (\<exists>r \<in> set required. \<exists>g \<in> set gs. in_scope g r)"

lemma any_value_pure: "any_value (\<lambda>x. Inr (p x)) xs = Inr (list_ex p xs)"
  by (induction xs) auto

lemma any_in_scope: "any_value (in_scope_value r) (map VStr gs) = Inr (list_ex (\<lambda>g. in_scope g r) gs)"
  by (induction gs) auto

lemma validate_group_list: "validate_user_groups (group_list gs) required super = Inr (allowed gs required super)"
proof -
  have "any_value (contains_value (group_list gs)) super = Inr (set gs \<inter> set super \<noteq> {})"
  proof -
    have "contains_value (group_list gs) = (\<lambda>x. Inr (x \<in> set gs))"
      by (auto simp: group_list_def fun_eq_iff)
    then show ?thesis by (auto simp: any_value_pure list_ex_iff)
  qed
  moreover have "any_value (\<lambda>r. any_value (in_scope_value r) (map VStr gs)) required =
      Inr (\<exists>r \<in> set required. \<exists>g \<in> set gs. in_scope g r)"
    using any_value_pure [of "\<lambda>r. list_ex (\<lambda>g. in_scope g r) gs" required]
    by (simp add: any_in_scope list_ex_iff)
  ultimately show ?thesis
    by (auto simp: validate_user_groups_def allowed_def group_list_def split: bool.split)
qed

text \<open>
  C12. The scope check of a route, as the code and its tests have it, for a token with a list of groups: the user passes
  exactly when one of the groups is a super group, no scope is required, or one of the groups is a required scope or a
  path below it, part by part of the path (never a mere prefix of the text). The docstring of the function and the
  comment over its loop describe the other direction (a user of \<open>/Secretary\<close> is said to be granted \<open>/Secretary/Program\<close>);
  the last two equations are what the code does with the example they give: it refuses that user, and lets a user of
  \<open>/Secretary/Program\<close> into a route for \<open>/Secretary\<close>.
\<close>

theorem scope_check:
  "validate_user_groups (group_list gs) required super = Inr (
     (\<exists>g \<in> set gs. g \<in> set super) \<or> required = [] \<or>
     (\<exists>r \<in> set required. \<exists>g \<in> set gs. prefix (parts r) (parts g))) \<and>
   validate_user_groups (group_list [u ''/Secretary'']) [u ''/Secretary/Program''] SUPER_GROUPS = Inr False \<and>
   validate_user_groups (group_list [u ''/Secretary/Program'']) [u ''/Secretary''] SUPER_GROUPS = Inr True"
proof (intro conjI)
  show "validate_user_groups (group_list gs) required super = Inr (
     (\<exists>g \<in> set gs. g \<in> set super) \<or> required = [] \<or>
     (\<exists>r \<in> set required. \<exists>g \<in> set gs. prefix (parts r) (parts g)))"
    by (auto simp: validate_group_list allowed_def scope.below_iff)
qed (simp_all add: validate_group_list allowed_def in_scope_def startswith_def SUPER_GROUPS_def u_def)

text \<open>
  In general: a user of a parent group does not get a scope below it, while a user of a group below does get the scope
  of the parent.
\<close>

theorem parent_group_gets_no_sub_scope:
  assumes "r \<noteq> g" and "in_scope r g" and "g \<notin> set super"
  shows "validate_user_groups (group_list [g]) [r] super = Inr False \<and>
    validate_user_groups (group_list [r]) [g] super = Inr True"
  using assms scope.below_antisym [of r g] by (auto simp: validate_group_list allowed_def)

theorem parent_group_gets_no_sub_scope_witness:
  "validate_user_groups (group_list [group_value SECRETARY]) [group_value PROGRAM_SECRETARY] SUPER_GROUPS = Inr False \<and>
   validate_user_groups (group_list [group_value PROGRAM_SECRETARY]) [group_value SECRETARY] SUPER_GROUPS = Inr True"
  by (rule parent_group_gets_no_sub_scope) (simp_all add: in_scope_def startswith_def SUPER_GROUPS_def u_def)

end
