(* ===== verification/AuthContext.thy ===== *)
theory AuthContext imports UserGroups begin

text \<open>
  The context of an authenticated user: \<open>auth/context.py\<close>, \<open>auth/policy.py\<close> and \<open>build_auth_context\<close>
  of \<open>auth/dependencies.py\<close>. The claims are kept as the values the token had: the dataclass does
  not check them.
\<close>

section \<open>The context\<close>

record secretary_context =
  department :: int
  programme_ids :: "int list"
  secretary_call_ids :: "int list"

record evaluator_context =
  evaluator_call_ids :: "int list"

record agent_context =
  sub_agents :: "pystr list"
  applicants :: "pystr list"

record auth_context =
  sub :: pyval
  email :: pyval
  user_groups :: pyval
  given_name :: pyval
  family_name :: pyval
  department_id :: "int option"
  secretary :: "secretary_context option"
  agent :: "agent_context option"
  evaluator :: "evaluator_context option"

definition has_group :: "auth_context \<Rightarrow> GroupEnum \<Rightarrow> exn + bool" where
  "has_group c grp = (case iter_value (user_groups c) of
     Inl e \<Rightarrow> Inl e | Inr gs \<Rightarrow> any_value (in_scope_value (group_value grp)) gs)"

text \<open>\<open>a or b\<close> of two checks that may raise.\<close>

fun or_check :: "exn + bool \<Rightarrow> exn + bool \<Rightarrow> exn + bool" where
  "or_check (Inl e) b = Inl e"
| "or_check (Inr True) b = Inr True"
| "or_check (Inr False) b = b"

definition is_admin :: "auth_context \<Rightarrow> exn + bool" where
  "is_admin c = has_group c ADMIN"

definition is_department_secretary :: "auth_context \<Rightarrow> exn + bool" where
  "is_department_secretary c = has_group c DEPARTMENT_SECRETARY"

definition is_program_secretary :: "auth_context \<Rightarrow> exn + bool" where
  "is_program_secretary c = has_group c PROGRAM_SECRETARY"

definition is_secretary :: "auth_context \<Rightarrow> exn + bool" where
  "is_secretary c = or_check (is_program_secretary c) (is_department_secretary c)"

definition is_evaluator :: "auth_context \<Rightarrow> exn + bool" where
  "is_evaluator c = has_group c EVALUATOR"

definition is_applicant :: "auth_context \<Rightarrow> exn + bool" where
  "is_applicant c = has_group c APPLICANT"

definition is_child_agent :: "auth_context \<Rightarrow> exn + bool" where
  "is_child_agent c = has_group c CHILD_AGENT"

definition is_parent_agent :: "auth_context \<Rightarrow> exn + bool" where
  "is_parent_agent c = has_group c PARENT_AGENT"

definition is_agent :: "auth_context \<Rightarrow> exn + bool" where
  "is_agent c = or_check (is_parent_agent c) (is_child_agent c)"

lemma has_group_list:
  "user_groups c = group_list gs \<Longrightarrow> has_group c g = Inr (\<exists>h \<in> set gs. in_scope h (group_value g))"
  by (simp add: has_group_def group_list_def any_in_scope list_ex_iff)

text \<open>The roles of one group each, and the scopes the routes name for them.\<close>

definition group_roles :: "(GroupEnum \<times> (auth_context \<Rightarrow> exn + bool)) list" where
  "group_roles = [(ADMIN, is_admin), (DEPARTMENT_SECRETARY, is_department_secretary),
     (PROGRAM_SECRETARY, is_program_secretary), (EVALUATOR, is_evaluator), (APPLICANT, is_applicant),
     (CHILD_AGENT, is_child_agent), (PARENT_AGENT, is_parent_agent)]"

lemmas role_defs = is_admin_def is_department_secretary_def is_program_secretary_def is_secretary_def
  is_evaluator_def is_applicant_def is_child_agent_def is_parent_agent_def is_agent_def

lemma or_check_pure: "or_check (Inr a) (Inr b) = Inr (a \<or> b)"
  by (cases a) auto

lemma group_role:
  assumes "(g, role) \<in> set group_roles" and "user_groups c = group_list gs"
  shows "role c = Inr (\<exists>h \<in> set gs. prefix (parts (group_value g)) (parts h))"
  using assms has_group_list [OF assms(2)] by (auto simp: group_roles_def role_defs scope.below_iff)

lemma route_of_group:
  "validate_user_groups (group_list gs) [r] SUPER_GROUPS =
     Inr (group_value ADMIN \<in> set gs \<or> (\<exists>h \<in> set gs. prefix (parts r) (parts h)))"
  by (simp add: validate_group_list allowed_def scope.below_iff SUPER_GROUPS_def)

lemma below_secretary: "prefix (parts (group_value PROGRAM_SECRETARY)) (parts h) \<or>
    prefix (parts (group_value DEPARTMENT_SECRETARY)) (parts h) \<Longrightarrow> prefix (parts (group_value SECRETARY)) (parts h)"
  and below_agent: "prefix (parts (group_value PARENT_AGENT)) (parts h) \<or>
    prefix (parts (group_value CHILD_AGENT)) (parts h) \<Longrightarrow> prefix (parts (group_value AGENT)) (parts h)"
proof -
  have "in_scope (group_value PROGRAM_SECRETARY) (group_value SECRETARY)"
      "in_scope (group_value DEPARTMENT_SECRETARY) (group_value SECRETARY)"
      "in_scope (group_value PARENT_AGENT) (group_value AGENT)" "in_scope (group_value CHILD_AGENT) (group_value AGENT)"
    by (simp_all add: in_scope_def startswith_def u_def)
  then show "prefix (parts (group_value PROGRAM_SECRETARY)) (parts h) \<or>
      prefix (parts (group_value DEPARTMENT_SECRETARY)) (parts h) \<Longrightarrow> prefix (parts (group_value SECRETARY)) (parts h)"
    and "prefix (parts (group_value PARENT_AGENT)) (parts h) \<or>
      prefix (parts (group_value CHILD_AGENT)) (parts h) \<Longrightarrow> prefix (parts (group_value AGENT)) (parts h)"
    unfolding scope.below_iff by (auto intro: prefix_order.trans)
qed

text \<open>
  C13. The roles of a user against the scopes of the routes, for every token with a list of groups. A role of one group
  holds exactly when a group of the user is that path or lies below it, part by part; the route that requires the
  group lets in exactly the users with the role, and the members of \<open>/Administrators\<close>. A secretary is a secretary
  of a program or of a department, an agent a parent or a child one, and both get into the routes for \<open>/Secretary\<close> and
  \<open>/Agents\<close>. The docstring of \<open>has_group\<close> says a role and a scope can never disagree; the last conjunct is where they
  do: a user of \<open>/Secretary\<close> itself passes its routes and has no secretary role, and an administrator passes a route
  for evaluators and is none.
\<close>

theorem roles_and_scopes:
  assumes "user_groups c = group_list gs"
  shows "(\<forall>(g, role) \<in> set group_roles.
      role c = Inr (\<exists>h \<in> set gs. prefix (parts (group_value g)) (parts h)) \<and>
      validate_user_groups (user_groups c) [group_value g] SUPER_GROUPS =
        Inr (role c = Inr True \<or> group_value ADMIN \<in> set gs)) \<and>
    is_secretary c = Inr (is_program_secretary c = Inr True \<or> is_department_secretary c = Inr True) \<and>
    is_agent c = Inr (is_parent_agent c = Inr True \<or> is_child_agent c = Inr True) \<and>
    (is_secretary c = Inr True \<longrightarrow> validate_user_groups (user_groups c) [group_value SECRETARY] SUPER_GROUPS = Inr True) \<and>
    (is_agent c = Inr True \<longrightarrow> validate_user_groups (user_groups c) [group_value AGENT] SUPER_GROUPS = Inr True) \<and>
    (gs = [group_value SECRETARY] \<longrightarrow> is_secretary c = Inr False \<and>
      validate_user_groups (user_groups c) [group_value SECRETARY] SUPER_GROUPS = Inr True) \<and>
    (gs = [group_value ADMIN] \<longrightarrow> is_evaluator c = Inr False \<and>
      validate_user_groups (user_groups c) [group_value EVALUATOR] SUPER_GROUPS = Inr True)"
proof (intro conjI)
  note has = has_group_list [OF assms]
  show "\<forall>(g, role) \<in> set group_roles.
      role c = Inr (\<exists>h \<in> set gs. prefix (parts (group_value g)) (parts h)) \<and>
      validate_user_groups (user_groups c) [group_value g] SUPER_GROUPS =
        Inr (role c = Inr True \<or> group_value ADMIN \<in> set gs)"
  proof clarify
    fix g role assume "(g, role) \<in> set group_roles"
    note r = group_role [OF this assms]
    show "role c = Inr (\<exists>h \<in> set gs. prefix (parts (group_value g)) (parts h)) \<and>
      validate_user_groups (user_groups c) [group_value g] SUPER_GROUPS =
        Inr (role c = Inr True \<or> group_value ADMIN \<in> set gs)"
      unfolding r assms route_of_group by auto
  qed
  show "is_secretary c = Inr (is_program_secretary c = Inr True \<or> is_department_secretary c = Inr True)"
      "is_agent c = Inr (is_parent_agent c = Inr True \<or> is_child_agent c = Inr True)"
    by (simp_all add: role_defs has or_check_pure)
  show "is_secretary c = Inr True \<longrightarrow> validate_user_groups (user_groups c) [group_value SECRETARY] SUPER_GROUPS = Inr True"
    using below_secretary by (auto simp: role_defs has or_check_pure assms route_of_group scope.below_iff
        simp del: group_value.simps)
  show "is_agent c = Inr True \<longrightarrow> validate_user_groups (user_groups c) [group_value AGENT] SUPER_GROUPS = Inr True"
    using below_agent by (auto simp: role_defs has or_check_pure assms route_of_group scope.below_iff
        simp del: group_value.simps)
qed (auto simp: role_defs has_group_list [OF assms] or_check_pure assms validate_group_list allowed_def SUPER_GROUPS_def
    in_scope_def startswith_def u_def)

section \<open>The role contexts\<close>

text \<open>
  The three loaders, which every service overrides; the ones of the base class load nothing. When one raises,
  the context that is half filled goes with it, as in every caller.
\<close>

record 'w role_loaders =
  load_secretary_context :: "auth_context \<Rightarrow> ('w, exn, secretary_context option) prog"
  load_agent_context :: "auth_context \<Rightarrow> ('w, exn, agent_context option) prog"
  load_evaluator_context :: "auth_context \<Rightarrow> ('w, exn, evaluator_context option) prog"

definition base_loaders :: "'w role_loaders" where
  "base_loaders = \<lparr>load_secretary_context = (\<lambda>_. ret None), load_agent_context = (\<lambda>_. ret None),
     load_evaluator_context = (\<lambda>_. ret None)\<rparr>"

text \<open>\<open>if self.is_role and self.field is None: self.field = await load\<close>.\<close>

definition load_role ::
  "exn + bool \<Rightarrow> bool \<Rightarrow> ('w, exn, 'r) prog \<Rightarrow> ('r \<Rightarrow> auth_context) \<Rightarrow> auth_context \<Rightarrow> ('w, exn, auth_context) prog" where
  "load_role role unset load store c =
     bindM (liftE role) (\<lambda>r. if r \<and> unset then bindM load (\<lambda>x. ret (store x)) else ret c)"

definition load_role_contexts :: "'w role_loaders \<Rightarrow> auth_context \<Rightarrow> ('w, exn, auth_context) prog" where
  "load_role_contexts ld c =
     bindM (load_role (is_secretary c) (secretary c = None) (load_secretary_context ld c)
              (\<lambda>x. c\<lparr>secretary := x\<rparr>) c)
    (\<lambda>c. bindM (load_role (is_agent c) (agent c = None) (load_agent_context ld c)
              (\<lambda>x. c\<lparr>agent := x\<rparr>) c)
    (\<lambda>c. load_role (is_evaluator c) (evaluator c = None) (load_evaluator_context ld c)
              (\<lambda>x. c\<lparr>evaluator := x\<rparr>) c))"

lemma roles_update [simp]:
  "has_group (c\<lparr>secretary := x\<rparr>) g = has_group c g" "has_group (c\<lparr>agent := y\<rparr>) g = has_group c g"
  "has_group (c\<lparr>evaluator := z\<rparr>) g = has_group c g"
  by (simp_all add: has_group_def)

text \<open>What a load leaves: the identity as it was, and a role context only with its role.\<close>

definition same_identity :: "auth_context \<Rightarrow> auth_context \<Rightarrow> bool" where
  "same_identity c c' \<longleftrightarrow> c' = c\<lparr>secretary := secretary c', agent := agent c', evaluator := evaluator c'\<rparr>"

lemma load_role_contexts_result:
  assumes "load_role_contexts ld c w = (Inr c', w')"
  shows "same_identity c c' \<and>
    (secretary c' = secretary c \<or> (is_secretary c = Inr True \<and> secretary c = None)) \<and>
    (agent c' = agent c \<or> (is_agent c = Inr True \<and> agent c = None)) \<and>
    (evaluator c' = evaluator c \<or> (is_evaluator c = Inr True \<and> evaluator c = None)) \<and>
    ((secretary c \<noteq> None \<and> agent c \<noteq> None \<and> evaluator c \<noteq> None) \<longrightarrow> c' = c \<and> w' = w)"
  using assms
  by (auto simp: load_role_contexts_def load_role_def prog_defs same_identity_def role_defs
      split: prod.splits sum.splits if_splits)

text \<open>
  Loading the role contexts never changes who the user is, loads a role context only for a role the user has
  and that is not loaded yet, and with everything loaded does nothing, not even a query.
\<close>

theorem load_role_contexts_contract:
  assumes "load_role_contexts ld c w = (Inr c', w')"
  shows "same_identity c c' \<and>
    (secretary c' = secretary c \<or> (is_secretary c = Inr True \<and> secretary c = None)) \<and>
    (agent c' = agent c \<or> (is_agent c = Inr True \<and> agent c = None)) \<and>
    (evaluator c' = evaluator c \<or> (is_evaluator c = Inr True \<and> evaluator c = None)) \<and>
    ((secretary c \<noteq> None \<and> agent c \<noteq> None \<and> evaluator c \<noteq> None) \<longrightarrow> c' = c \<and> w' = w)"
  by (rule load_role_contexts_result [OF assms])

text \<open>An evaluator whose calls are in the database.\<close>

definition example_user :: auth_context where
  "example_user = \<lparr>sub = VStr (u ''7''), email = VStr (u ''e@x.gr''), user_groups = group_list [group_value EVALUATOR],
     given_name = VStr [], family_name = VStr [], department_id = None, secretary = None, agent = None,
     evaluator = None\<rparr>"

definition example_loaders :: "unit role_loaders" where
  "example_loaders = base_loaders\<lparr>load_evaluator_context := (\<lambda>_. ret (Some \<lparr>evaluator_call_ids = [4]\<rparr>))\<rparr>"

lemma example_roles:
  "is_secretary example_user = Inr False" "is_agent example_user = Inr False" "is_evaluator example_user = Inr True"
  by (simp_all add: role_defs example_user_def has_group_list in_scope_def startswith_def u_def)

text \<open>The secretary of one program; a group whose name only starts like another one gives nothing.\<close>

theorem roles_and_scopes_witness:
  "is_secretary (example_user\<lparr>user_groups := group_list [u ''/Secretary/Program/7'', u ''/Evaluators2'']\<rparr>) = Inr True \<and>
   is_evaluator (example_user\<lparr>user_groups := group_list [u ''/Secretary/Program/7'', u ''/Evaluators2'']\<rparr>) = Inr False"
proof -
  let ?gs = "[u ''/Secretary/Program/7'', u ''/Evaluators2'']"
  let ?c = "example_user\<lparr>user_groups := group_list ?gs\<rparr>"
  have "user_groups ?c = group_list ?gs" by simp
  note roles = roles_and_scopes [OF this]
  have "(EVALUATOR, is_evaluator) \<in> set group_roles" "(PROGRAM_SECRETARY, is_program_secretary) \<in> set group_roles"
    by (simp_all add: group_roles_def)
  with roles have "is_evaluator ?c = Inr (\<exists>h \<in> set ?gs. prefix (parts (group_value EVALUATOR)) (parts h))"
      "is_program_secretary ?c = Inr (\<exists>h \<in> set ?gs. prefix (parts (group_value PROGRAM_SECRETARY)) (parts h))"
    by fastforce+
  moreover have "\<not> (\<exists>h \<in> set ?gs. prefix (parts (group_value EVALUATOR)) (parts h))"
      "\<exists>h \<in> set ?gs. prefix (parts (group_value PROGRAM_SECRETARY)) (parts h)"
    by (simp_all add: in_scope_parts [symmetric] in_scope_def startswith_def u_def)
  ultimately show ?thesis using roles by simp
qed

theorem load_role_contexts_contract_witness:
  "\<exists>c'. load_role_contexts example_loaders example_user () = (Inr c', ()) \<and>
    evaluator c' = Some \<lparr>evaluator_call_ids = [4]\<rparr> \<and> same_identity example_user c'"
proof -
  obtain c' where l: "load_role_contexts example_loaders example_user () = (Inr c', ())"
      and e: "evaluator c' = Some \<lparr>evaluator_call_ids = [4]\<rparr>"
  proof -
    have "load_role_contexts example_loaders example_user () =
        (Inr (example_user\<lparr>evaluator := Some \<lparr>evaluator_call_ids = [4]\<rparr>\<rparr>), ())"
      by (simp add: load_role_contexts_def load_role_def example_roles prog_defs example_loaders_def base_loaders_def)
        (simp add: example_user_def)
    from that [OF this] show thesis by simp
  qed
  from load_role_contexts_contract [OF l] l e show ?thesis by blast
qed

section \<open>From the claims of a token\<close>

text \<open>
  \<open>int(v)\<close>. A float literal is read as its exact value, cut towards zero; \<open>NaN\<close> and the infinities
  raise errors of different classes.
\<close>

definition value_error :: exn where
  "value_error = Builtin ''ValueError'' (u ''invalid literal for int()'')"

definition overflow_error :: exn where
  "overflow_error = Builtin ''OverflowError'' (u ''cannot convert float infinity to integer'')"

definition float_trunc :: "pystr \<Rightarrow> int" where
  "float_trunc f = (case scan_int f of None \<Rightarrow> 0 | Some (ip, r) \<Rightarrow>
     (case scan_frac r of (fr, r') \<Rightarrow>
      (case scan_exp r' of (ex, _) \<Rightarrow>
        (let m = num_of (filter is_digit (ip @ fr)); ds = filter is_digit ex;
             e = (if 45 \<in> set ex then - int (num_of ds) else int (num_of ds)) - int (length fr - 1);
             n = (if 0 \<le> e then int m * 10 ^ nat e else int m div 10 ^ nat (- e))
         in if ip \<noteq> [] \<and> hd ip = 45 then - n else n))))"

definition float_int :: "pystr \<Rightarrow> exn + int" where
  "float_int f =
     (if f = u ''NaN'' then Inl value_error
      else if f = u ''Infinity'' \<or> f = u ''-Infinity'' then Inl overflow_error
      else if 2 ^ 1024 \<le> \<bar>float_trunc f\<bar> then Inl overflow_error
      else Inr (float_trunc f))"

fun int_value :: "pyval \<Rightarrow> exn + int" where
  "int_value (VInt i) = Inr i"
| "int_value (VBool b) = Inr (if b then 1 else 0)"
| "int_value (VStr s) = (case py_int s of None \<Rightarrow> Inl value_error | Some i \<Rightarrow> Inr i)"
| "int_value (VBytes b) = (case py_int b of None \<Rightarrow> Inl value_error | Some i \<Rightarrow> Inr i)"
| "int_value (VFloat f) = float_int f"
| "int_value _ = Inl (Builtin ''TypeError'' (u ''int() argument must be a string or a real number''))"

definition REQUIRED_CLAIMS :: "pystr list" where
  "REQUIRED_CLAIMS = [u ''sub'', u ''email'', u ''groups'']"

definition bearer_challenge :: "(pystr, pystr) dict" where
  "bearer_challenge = [(u ''WWW-Authenticate'', u ''Bearer'')]"

definition unauthorized :: "pystr \<Rightarrow> exn" where
  "unauthorized detail = HTTPException 401 detail bearer_challenge"

definition get_default :: "(pystr, pyval) dict \<Rightarrow> pystr \<Rightarrow> pyval \<Rightarrow> pyval" where
  "get_default d k v = (case map_of d k of None \<Rightarrow> v | Some x \<Rightarrow> x)"

fun type_or_value_error :: "exn \<Rightarrow> bool" where
  "type_or_value_error (Builtin n _) \<longleftrightarrow> n = ''TypeError'' \<or> n = ''ValueError''"
| "type_or_value_error _ \<longleftrightarrow> False"

definition department_claim :: "(pystr, pyval) dict \<Rightarrow> exn + int option" where
  "department_claim payload = (let raw = get_or_none payload (u ''department_id'')
     in if truthy raw then map_sum id Some (int_value raw) else Inr None)"

definition build_auth_context :: "(pystr, pyval) dict \<Rightarrow> bool \<Rightarrow> exn + auth_context" where
  "build_auth_context payload strict =
     (let missing = filter (\<lambda>c. map_of payload c = None) REQUIRED_CLAIMS
      in if strict \<and> missing \<noteq> [] then
           Inl (unauthorized (u ''Token is missing required claim(s): '' @ join (u '', '') missing))
         else (case (case department_claim payload of
               Inl e \<Rightarrow> (if type_or_value_error e then
                          (if strict then Inl (unauthorized (u ''Token has an invalid department_id claim'')) else Inr None)
                        else Inl e)
             | Inr d \<Rightarrow> Inr d) of
           Inl e \<Rightarrow> Inl e
         | Inr d \<Rightarrow> Inr \<lparr>sub = get_default payload (u ''sub'') (VStr []), email = get_default payload (u ''email'') (VStr []),
             user_groups = get_default payload (u ''groups'') (VList []),
             given_name = get_default payload (u ''given_name'') (VStr []),
             family_name = get_default payload (u ''family_name'') (VStr []),
             department_id = d, secretary = None, agent = None, evaluator = None\<rparr>))"

definition has_claims :: "(pystr, pyval) dict \<Rightarrow> bool" where
  "has_claims payload \<longleftrightarrow> list_all (\<lambda>c. map_of payload c \<noteq> None) REQUIRED_CLAIMS"

text \<open>A department id that is not an infinite float.\<close>

definition finite_department :: "(pystr, pyval) dict \<Rightarrow> bool" where
  "finite_department payload \<longleftrightarrow> (case department_claim payload of Inl e \<Rightarrow> type_or_value_error e | Inr _ \<Rightarrow> True)"



text \<open>
  An infinite number as the department id, which JSON has a word for, is not answered with a 401: the
  \<open>OverflowError\<close> leaves \<open>build_auth_context\<close>, strict or not.
\<close>

theorem infinite_department_escapes:
  "build_auth_context [(u ''sub'', s), (u ''email'', e), (u ''groups'', g), (u ''department_id'', VFloat (u ''Infinity''))] strict
   = Inl overflow_error"
  by (simp add: build_auth_context_def REQUIRED_CLAIMS_def department_claim_def get_or_none_def float_int_def
      overflow_error_def u_def)

end
