(* ===== verification/TokenVerifier.thy ===== *)
theory TokenVerifier imports AuthContext Numbers begin

text \<open>
  The verification of access tokens: \<open>auth/decode.py\<close>. The signature check of \<open>jwcrypto\<close>, the
  request to Keycloak and the clock are parameters (\<open>realm\<close>); the verifier's own state is the cached
  keys with two times. The lock makes every use of that state one step.
\<close>

section \<open>The verifier\<close>

definition ALLOWED_ALGORITHMS :: "pystr list" where
  "ALLOWED_ALGORITHMS = map u [''RS256'', ''RS384'', ''RS512'', ''PS256'', ''PS384'', ''PS512'',
     ''ES256'', ''ES384'', ''ES512'']"

text \<open>No algorithm with a shared secret, and not the absence of one.\<close>

lemma no_shared_secret:
  "u ''none'' \<notin> set ALLOWED_ALGORITHMS" "a \<in> set ALLOWED_ALGORITHMS \<Longrightarrow> hd a \<noteq> 72"
  by (auto simp: ALLOWED_ALGORITHMS_def u_def)

record verifier_config =
  ttl :: rat
  min_refresh_interval :: rat
  leeway :: int
  issuer :: "pystr option"
  audience :: "pystr option"

definition default_verifier :: verifier_config where
  "default_verifier = \<lparr>ttl = 600, min_refresh_interval = 30, leeway = 60, issuer = None, audience = None\<rparr>"

text \<open>\<open>last_attempt\<close> is \<open>None\<close> for the initial \<open>-inf\<close>.\<close>

record ('w, 'k) vstate =
  outer :: 'w
  keys :: "'k option"
  fetched_at :: rat
  last_attempt :: "rat option"

definition new_verifier :: "'w \<Rightarrow> ('w, 'k) vstate" where
  "new_verifier w = \<lparr>outer = w, keys = None, fetched_at = 0, last_attempt = None\<rparr>"

text \<open>
  What the verifier relies on: the clock; the keys of the realm, fetched and parsed; whether a set of keys
  has one with an id; the key id in the header of a token; and the claims of a token
  whose signature and times are right.
\<close>

record ('w, 'k) realm =
  clock :: "'w \<Rightarrow> rat \<times> 'w"
  certs :: "('w, exn, 'k) prog"
  has_key :: "'k \<Rightarrow> pyval \<Rightarrow> bool"
  header_kid :: "pystr \<Rightarrow> exn + pyval"
  validated_claims :: "'k \<Rightarrow> pystr list \<Rightarrow> int \<Rightarrow> pystr \<Rightarrow> exn + (pystr, pyval) dict"

definition now :: "('w, 'k) realm \<Rightarrow> (('w, 'k) vstate, exn, rat) prog" where
  "now R = (\<lambda>s. case clock R (outer s) of (t, w) \<Rightarrow> (Inr t, s\<lparr>outer := w\<rparr>))"

definition fetch_certs :: "('w, 'k) realm \<Rightarrow> (('w, 'k) vstate, exn, 'k) prog" where
  "fetch_certs R = (\<lambda>s. case certs R (outer s) of (r, w) \<Rightarrow> (r, s\<lparr>outer := w\<rparr>))"

definition stale :: "verifier_config \<Rightarrow> ('w, 'k) vstate \<Rightarrow> rat \<Rightarrow> bool" where
  "stale cfg s t \<longleftrightarrow> keys s = None \<or> t - fetched_at s > ttl cfg"

definition needs_refresh :: "verifier_config \<Rightarrow> ('w, 'k) realm \<Rightarrow> (('w, 'k) vstate, exn, bool) prog" where
  "needs_refresh cfg R = bindM (getM keys) (\<lambda>ks.
     if ks = None then ret True else bindM (now R) (\<lambda>t. getM (\<lambda>s. t - fetched_at s > ttl cfg)))"

definition not_available :: exn where
  "not_available = ServiceUnavailableError (u ''The authentication service is not available.'')"

definition fetch_locked :: "verifier_config \<Rightarrow> ('w, 'k) realm \<Rightarrow> (('w, 'k) vstate, exn, unit) prog" where
  "fetch_locked cfg R =
     bindM (now R) (\<lambda>t.
     thenM (modifyM (\<lambda>s. s\<lparr>last_attempt := Some t\<rparr>))
       (catchM is_Exception
         (bindM (fetch_certs R) (\<lambda>k. modifyM (\<lambda>s. s\<lparr>keys := Some k, fetched_at := t\<rparr>)))
         (\<lambda>e. bindM (getM keys) (\<lambda>ks.
            if ks = None then raise not_available
            else modifyM (\<lambda>s. s\<lparr>fetched_at := t - ttl cfg + min_refresh_interval cfg\<rparr>)))))"

definition refresh :: "verifier_config \<Rightarrow> ('w, 'k) realm \<Rightarrow> (('w, 'k) vstate, exn, unit) prog" where
  "refresh cfg R = fetch_locked cfg R"

definition unknown_key :: "verifier_config \<Rightarrow> ('w, 'k) realm \<Rightarrow> pyval \<Rightarrow> ('w, 'k) vstate \<Rightarrow> rat \<Rightarrow> bool" where
  "unknown_key cfg R kid s t \<longleftrightarrow> truthy kid \<and> (case keys s of None \<Rightarrow> False | Some k \<Rightarrow> \<not> has_key R k kid) \<and>
     (case last_attempt s of None \<Rightarrow> True | Some l \<Rightarrow> t - l \<ge> min_refresh_interval cfg)"

definition keys_for :: "verifier_config \<Rightarrow> ('w, 'k) realm \<Rightarrow> pyval \<Rightarrow> (('w, 'k) vstate, exn, 'k option) prog" where
  "keys_for cfg R kid =
     bindM (now R) (\<lambda>t.
     bindM (getM (\<lambda>s. stale cfg s t \<or> unknown_key cfg R kid s t)) (\<lambda>fetch.
       thenM (if fetch then fetch_locked cfg R else ret ()) (getM keys)))"

definition invalid_credentials :: exn where
  "invalid_credentials = HTTPException 401 (u ''Invalid authentication credentials'') bearer_challenge"

fun audience_accepted :: "pystr \<Rightarrow> pyval \<Rightarrow> bool" where
  "audience_accepted a (VStr s) \<longleftrightarrow> s = a"
| "audience_accepted a (VList vs) \<longleftrightarrow> VStr a \<in> set vs"
| "audience_accepted a _ \<longleftrightarrow> False"

text \<open>\<open>if self.issuer\<close>, \<open>if self.audience\<close>: an empty one is not checked.\<close>

definition issuer_ok :: "verifier_config \<Rightarrow> (pystr, pyval) dict \<Rightarrow> bool" where
  "issuer_ok cfg claims \<longleftrightarrow> (case issuer cfg of None \<Rightarrow> True
     | Some i \<Rightarrow> i = [] \<or> get_or_none claims (u ''iss'') = VStr i)"

definition audience_ok :: "verifier_config \<Rightarrow> (pystr, pyval) dict \<Rightarrow> bool" where
  "audience_ok cfg claims \<longleftrightarrow> (case audience cfg of None \<Rightarrow> True
     | Some a \<Rightarrow> a = [] \<or> audience_accepted a (get_or_none claims (u ''aud'')))"

text \<open>With no keys at all \<open>validate\<close> has nothing to verify with and fails.\<close>

definition check_token :: "verifier_config \<Rightarrow> ('w, 'k) realm \<Rightarrow> 'k option \<Rightarrow> pystr \<Rightarrow> exn + (pystr, pyval) dict" where
  "check_token cfg R ks token = (case ks of
     None \<Rightarrow> Inl invalid_credentials
   | Some k \<Rightarrow> (case validated_claims R k ALLOWED_ALGORITHMS (leeway cfg) token of
       Inl e \<Rightarrow> Inl invalid_credentials
     | Inr claims \<Rightarrow>
         (if \<not> issuer_ok cfg claims then Inl invalid_credentials
          else if \<not> audience_ok cfg claims then Inl invalid_credentials
          else Inr claims)))"

definition decode :: "verifier_config \<Rightarrow> ('w, 'k) realm \<Rightarrow> pystr \<Rightarrow> (('w, 'k) vstate, exn, (pystr, pyval) dict) prog" where
  "decode cfg R token = (case header_kid R token of
     Inl e \<Rightarrow> raise invalid_credentials
   | Inr kid \<Rightarrow> bindM (keys_for cfg R kid) (\<lambda>ks. liftE (check_token cfg R ks token)))"

definition refresh_if_needed :: "verifier_config \<Rightarrow> ('w, 'k) realm \<Rightarrow> (('w, 'k) vstate, exn, unit) prog" where
  "refresh_if_needed cfg R = bindM (needs_refresh cfg R) (\<lambda>b. if b then refresh cfg R else ret ())"

text \<open>
  \<open>adecode_token\<close> of a client with \<open>certs()\<close>: the keys are fetched in a thread first. \<open>meanwhile\<close> is what other
  requests do with the shared verifier between the check and the thread, and between the thread and the check
  of the token.
\<close>

definition adecode_token ::
  "verifier_config \<Rightarrow> ('w, 'k) realm \<Rightarrow> (('w, 'k) vstate, exn, unit) prog \<Rightarrow> pystr
   \<Rightarrow> (('w, 'k) vstate, exn, (pystr, pyval) dict) prog" where
  "adecode_token cfg R meanwhile token =
     bindM (needs_refresh cfg R) (\<lambda>b.
       thenM (if b then thenM meanwhile (thenM (refresh_if_needed cfg R) meanwhile) else ret ())
         (decode cfg R token))"

section \<open>What a decoded token is\<close>

lemma keys_for_result:
  "keys_for cfg R kid s = (Inr ks, s') \<Longrightarrow> keys s' = ks"
  by (auto simp: keys_for_def prog_defs split: prod.splits sum.splits)

lemma decode_result:
  assumes "decode cfg R token s = (Inr claims, s')"
  shows "(\<exists>k. keys s' = Some k \<and> validated_claims R k ALLOWED_ALGORITHMS (leeway cfg) token = Inr claims) \<and>
    issuer_ok cfg claims \<and> audience_ok cfg claims"
  using assms
  by (auto simp: decode_def bindM_def prog_defs check_token_def
      split: sum.splits prod.splits option.splits if_splits dest: keys_for_result)

text \<open>
  C9. \<open>decode\<close> returns claims only for a token that the keys it holds verify under an asymmetric algorithm of the
  list, with the issuer and the audience of the configuration when these are set.
\<close>

theorem decode_sound:
  assumes "decode cfg R token s = (Inr claims, s')"
  shows "(\<exists>k. keys s' = Some k \<and> validated_claims R k ALLOWED_ALGORITHMS (leeway cfg) token = Inr claims) \<and>
    issuer_ok cfg claims \<and> audience_ok cfg claims"
  by (rule decode_result [OF assms])

lemma fetch_locked_cases:
  "fetch_locked cfg R s = (r, s') \<Longrightarrow>
    \<exists>t. fst (clock R (outer s)) = t \<and> last_attempt s' = Some t \<and>
     ((r = Inr () \<and> keys s' \<noteq> None \<and> fetched_at s' = t) \<or>
      (r = Inr () \<and> keys s' = keys s \<and> keys s \<noteq> None \<and> fetched_at s' = t - ttl cfg + min_refresh_interval cfg) \<or>
      (r = Inl not_available \<and> keys s' = None \<and> keys s = None) \<or>
      (r = Inl CancelledError \<and> keys s' = keys s \<and> fetched_at s' = fetched_at s))"
  by (auto simp: fetch_locked_def now_def fetch_certs_def prog_defs is_Exception_def
      split: prod.splits sum.splits if_splits)

text \<open>The thread of a fetch is not cancelled.\<close>

definition blocking :: "('w, 'k) realm \<Rightarrow> bool" where
  "blocking R \<longleftrightarrow> (\<forall>w w'. certs R w \<noteq> (Inl CancelledError, w'))"

lemma fetch_blocking: "blocking R \<Longrightarrow> fetch_locked cfg R s = (r, s') \<Longrightarrow> r \<noteq> Inl CancelledError"
  by (auto simp: fetch_locked_def now_def fetch_certs_def prog_defs is_Exception_def blocking_def not_available_def
      split: prod.splits sum.splits if_splits)

lemma keys_for_cases:
  assumes "blocking R" and "keys_for cfg R kid s = (r, s')"
  shows "(keys s \<noteq> None \<longrightarrow> keys s' \<noteq> None \<and> (\<exists>ks. r = Inr ks)) \<and>
    (case r of Inl e \<Rightarrow> e = not_available \<and> keys s' = None | Inr ks \<Rightarrow> keys s' \<noteq> None)"
proof -
  obtain t s1 where t: "now R s = (Inr t, s1)" "keys s1 = keys s"
    by (cases "clock R (outer s)") (auto simp: now_def)
  show ?thesis
  proof (cases "stale cfg s1 t \<or> unknown_key cfg R kid s1 t")
    case False
    with assms(2) t show ?thesis
      by (auto simp: keys_for_def prog_defs stale_def)
  next
    case True
    obtain q s2 where f: "fetch_locked cfg R s1 = (q, s2)" by (cases "fetch_locked cfg R s1")
    with assms(2) t True have "(r = Inr (keys s2) \<and> q = Inr ()) \<or> (\<exists>e. q = Inl e \<and> r = Inl e)" "s' = s2"
      by (auto simp: keys_for_def prog_defs split: sum.splits)
    with fetch_locked_cases [OF f] fetch_blocking [OF assms(1) f] t(2) show ?thesis
      by auto
  qed
qed

lemma decode_failure:
  assumes "blocking R" and "decode cfg R token s = (r, s')"
  shows "(case r of Inl e \<Rightarrow> e = invalid_credentials \<or> (e = not_available \<and> keys s = None \<and> keys s' = None)
      | Inr claims \<Rightarrow> True) \<and>
    (keys s \<noteq> None \<longrightarrow> keys s' \<noteq> None)"
proof (cases "header_kid R token")
  case (Inl e)
  with assms(2) show ?thesis by (auto simp: decode_def prog_defs)
next
  case (Inr kid)
  obtain q s1 where k: "keys_for cfg R kid s = (q, s1)" by (cases "keys_for cfg R kid s")
  with assms(2) Inr have "s' = s1" "r = (case q of Inl e \<Rightarrow> Inl e | Inr ks \<Rightarrow> check_token cfg R ks token)"
    by (auto simp: decode_def bindM_def liftE_def split: sum.splits)
  with keys_for_cases [OF assms(1) k] show ?thesis
    by (auto simp: check_token_def split: sum.splits option.splits if_splits)
qed

text \<open>
  C10. A token is refused with a 401 only, and with a 503 only while no keys were ever fetched: once there are keys
  they stay, whatever happens to Keycloak, and every request after that is answered.
\<close>

theorem decode_errors:
  assumes "blocking R" and "decode cfg R token s = (r, s')"
  shows "(case r of Inl e \<Rightarrow> e = invalid_credentials \<or> (e = not_available \<and> keys s = None \<and> keys s' = None)
      | Inr claims \<Rightarrow> True) \<and>
    (keys s \<noteq> None \<longrightarrow> keys s' \<noteq> None)"
  by (rule decode_failure [OF assms])

section \<open>How often Keycloak is asked\<close>

definition clock_forward :: "('w, 'k) realm \<Rightarrow> bool" where
  "clock_forward R \<longleftrightarrow> (\<forall>w. fst (clock R w) \<le> fst (clock R (snd (clock R w))))"

text \<open>The times of a verifier with keys: of the last success, or of the last failure.\<close>

definition times_ok :: "verifier_config \<Rightarrow> ('w, 'k) vstate \<Rightarrow> bool" where
  "times_ok cfg s \<longleftrightarrow> keys s = None \<or> (\<exists>l. last_attempt s = Some l \<and>
     (fetched_at s = l \<or> fetched_at s = l - ttl cfg + min_refresh_interval cfg))"

lemma times_ok_new: "times_ok cfg (new_verifier w)"
  by (simp add: times_ok_def new_verifier_def)

lemma fetched_later:
  assumes "times_ok cfg s" and "blocking R" and "fetch_locked cfg R (s\<lparr>outer := w\<rparr>) = (q, s')" and "t \<le> fst (clock R w)"
    and "\<And>l. keys s \<noteq> None \<Longrightarrow> last_attempt s = Some l \<Longrightarrow> min (ttl cfg) (min_refresh_interval cfg) \<le> t - l"
  shows "times_ok cfg s' \<and>
    (keys s \<noteq> None \<longrightarrow> (\<exists>l l'. last_attempt s = Some l \<and> last_attempt s' = Some l' \<and>
       min (ttl cfg) (min_refresh_interval cfg) \<le> l' - l))"
proof -
  have "times_ok cfg s'"
    using fetch_locked_cases [OF assms(3)] fetch_blocking [OF assms(2,3)] by (auto simp: times_ok_def)
  moreover have "\<exists>l. last_attempt s = Some l" if "keys s \<noteq> None"
    using assms(1) that by (auto simp: times_ok_def)
  moreover have "last_attempt s' = Some (fst (clock R w))"
    using fetch_locked_cases [OF assms(3)] by auto
  ultimately show ?thesis
    using assms(4,5) by fastforce
qed

lemma now_forward:
  assumes "clock_forward R"
  obtains t w where "now R s = (Inr t, s\<lparr>outer := w\<rparr>)" and "t \<le> fst (clock R w)"
  using assms [unfolded clock_forward_def, rule_format, of "outer s"]
  by (cases "clock R (outer s)") (auto simp: now_def)

lemma keys_for_rate:
  assumes "times_ok cfg s" and "clock_forward R" and "blocking R" and "keys_for cfg R kid s = (r, s')"
  shows "times_ok cfg s' \<and> (keys s \<noteq> None \<and> last_attempt s' \<noteq> last_attempt s \<longrightarrow>
      (\<exists>l l'. last_attempt s = Some l \<and> last_attempt s' = Some l' \<and> min (ttl cfg) (min_refresh_interval cfg) \<le> l' - l))"
proof -
  obtain t w where t: "now R s = (Inr t, s\<lparr>outer := w\<rparr>)" "t \<le> fst (clock R w)"
    by (rule now_forward [OF assms(2)])
  show ?thesis
  proof (cases "stale cfg (s\<lparr>outer := w\<rparr>) t \<or> unknown_key cfg R kid (s\<lparr>outer := w\<rparr>) t")
    case False
    with assms(1,4) t show ?thesis by (auto simp: keys_for_def prog_defs times_ok_def)
  next
    case True
    obtain q s2 where f: "fetch_locked cfg R (s\<lparr>outer := w\<rparr>) = (q, s2)" by (cases "fetch_locked cfg R (s\<lparr>outer := w\<rparr>)")
    with assms(4) t True have "s' = s2" by (auto simp: keys_for_def prog_defs split: sum.splits)
    moreover have "min (ttl cfg) (min_refresh_interval cfg) \<le> t - l" if "keys s \<noteq> None" "last_attempt s = Some l" for l
      using True assms(1) that by (auto simp: times_ok_def stale_def unknown_key_def min_def)
    ultimately show ?thesis using fetched_later [OF assms(1,3) f t(2)] by blast
  qed
qed

lemma refresh_if_needed_rate:
  assumes "times_ok cfg s" and "clock_forward R" and "blocking R" and "refresh_if_needed cfg R s = (r, s')"
  shows "times_ok cfg s' \<and> (keys s \<noteq> None \<and> last_attempt s' \<noteq> last_attempt s \<longrightarrow>
      (\<exists>l l'. last_attempt s = Some l \<and> last_attempt s' = Some l' \<and> min (ttl cfg) (min_refresh_interval cfg) \<le> l' - l))"
proof (cases "keys s")
  case None
  with assms(4) have "fetch_locked cfg R s = (r, s')"
    by (auto simp: refresh_if_needed_def needs_refresh_def refresh_def prog_defs)
  from fetch_locked_cases [OF this] fetch_blocking [OF assms(3) this] None show ?thesis by (auto simp: times_ok_def)
next
  case (Some k)
  obtain t w where t: "now R s = (Inr t, s\<lparr>outer := w\<rparr>)" "t \<le> fst (clock R w)"
    by (rule now_forward [OF assms(2)])
  show ?thesis
  proof (cases "t - fetched_at s > ttl cfg")
    case False
    with assms(1,4) t Some show ?thesis
      by (auto simp: refresh_if_needed_def needs_refresh_def prog_defs times_ok_def)
  next
    case True
    with assms(4) t Some have "fetch_locked cfg R (s\<lparr>outer := w\<rparr>) = (r, s')"
      by (simp add: refresh_if_needed_def needs_refresh_def refresh_def prog_defs)
    moreover have "min (ttl cfg) (min_refresh_interval cfg) \<le> t - l" if "last_attempt s = Some l" for l
      using True assms(1) that Some by (auto simp: times_ok_def min_def)
    ultimately show ?thesis using fetched_later [OF assms(1,3) _ t(2)] by blast
  qed
qed

text \<open>
  C11. Once there are keys, one request to Keycloak and the next one are at least \<open>min_refresh_interval\<close> apart (or
  \<open>ttl\<close>, when that is shorter), whatever key ids the tokens name, also while Keycloak is failing, on both paths that
  ask it: \<open>_keys_for\<close> of every token that is verified, and \<open>_refresh_if_needed\<close> of the thread before it. The
  invariant that gives it is kept by every call. It is about calls one after the other, with a clock that does not
  go back and a fetch that is not cancelled. While there are no keys every call asks (a Keycloak that was
  down at the start is tried by each request), and two threads that both found the keys old before either fetched
  them both fetch (\<open>refresh_race\<close>).
\<close>

theorem refresh_rate:
  assumes "times_ok cfg s" and "clock_forward R" and "blocking R"
    and "keys_for cfg R kid s = (r, s') \<or> refresh_if_needed cfg R s = (q, s')"
  shows "times_ok cfg s' \<and>
    (keys s \<noteq> None \<and> last_attempt s' \<noteq> last_attempt s \<longrightarrow>
      (\<exists>l l'. last_attempt s = Some l \<and> last_attempt s' = Some l' \<and>
         min (ttl cfg) (min_refresh_interval cfg) \<le> l' - l))"
  using assms(4) keys_for_rate [OF assms(1,2,3)] refresh_if_needed_rate [OF assms(1,2,3)] by blast

section \<open>The verifiers of the clients\<close>

text \<open>The registry by client; \<open>get_verifier\<close> registers a default one for a client it does not know.\<close>

definition register_verifier :: "('c \<rightharpoonup> 'v) \<Rightarrow> 'c \<Rightarrow> 'v \<Rightarrow> 'v \<times> ('c \<rightharpoonup> 'v)" where
  "register_verifier reg client v = (v, reg(client \<mapsto> v))"

definition get_verifier :: "('c \<Rightarrow> 'v) \<Rightarrow> ('c \<rightharpoonup> 'v) \<Rightarrow> 'c \<Rightarrow> 'v \<times> ('c \<rightharpoonup> 'v)" where
  "get_verifier new reg client = (case reg client of
     None \<Rightarrow> register_verifier reg client (new client) | Some v \<Rightarrow> (v, reg))"

lemma get_verifier_same:
  "get_verifier new reg c = (v, reg') \<Longrightarrow> get_verifier new' reg' c = (v, reg')"
  by (auto simp: get_verifier_def register_verifier_def split: option.splits)

lemma get_verifier_registered:
  "get_verifier new (snd (register_verifier reg c v)) c = (v, snd (register_verifier reg c v))"
  by (simp add: get_verifier_def register_verifier_def)

text \<open>A client without \<open>certs()\<close> decodes the token itself.\<close>

definition decode_by_client :: "(pystr \<Rightarrow> exn + (pystr, pyval) dict) \<Rightarrow> pystr \<Rightarrow> exn + (pystr, pyval) dict" where
  "decode_by_client dec token = (case dec token of Inl e \<Rightarrow> Inl invalid_credentials | Inr c \<Rightarrow> Inr c)"

record keycloak_settings =
  AUTHORIZATION_URL :: pystr
  KEYCLOAK_CLIENT_ID :: pystr
  KEYCLOAK_REALM :: pystr
  KEYCLOAK_CLIENT_SECRET :: pystr
  KEYCLOAK_VERIFY_SSL :: bool
  KEYCLOAK_EXPECTED_ISSUER :: "pystr option"
  KEYCLOAK_EXPECTED_AUDIENCE :: "pystr option"

text \<open>\<open>create_keycloak_client\<close>: the verifier it registers for the new client.\<close>

definition client_verifier :: "keycloak_settings \<Rightarrow> verifier_config" where
  "client_verifier st = default_verifier\<lparr>issuer := KEYCLOAK_EXPECTED_ISSUER st, audience := KEYCLOAK_EXPECTED_AUDIENCE st\<rparr>"

definition create_keycloak_client ::
  "keycloak_settings \<Rightarrow> 'c \<Rightarrow> ('c \<rightharpoonup> verifier_config) \<Rightarrow> 'c \<times> ('c \<rightharpoonup> verifier_config)" where
  "create_keycloak_client st client reg = (client, snd (register_verifier reg client (client_verifier st)))"

text \<open>The endpoints of the realm for the OpenAPI page: \<open>auth/oauth.py\<close>.\<close>

record oauth_scheme =
  authorization_url :: pystr
  token_url :: pystr
  refresh_url :: pystr
  auto_error :: bool

definition create_oauth_scheme :: "pystr \<Rightarrow> pystr \<Rightarrow> bool \<Rightarrow> oauth_scheme" where
  "create_oauth_scheme server_url rlm auto =
     (let base_url = rstrip 47 server_url @ u ''/realms/'' @ rlm @ u ''/protocol/openid-connect''
      in \<lparr>authorization_url = base_url @ u ''/auth'', token_url = base_url @ u ''/token'',
          refresh_url = base_url @ u ''/token'', auto_error = auto\<rparr>)"

section \<open>Example\<close>

text \<open>A realm whose world is the time; it is up, and one token is good.\<close>

definition example_realm :: "(nat, unit) realm" where
  "example_realm = \<lparr>clock = (\<lambda>w. (of_nat w, Suc w)), certs = ret (), has_key = (\<lambda>_ k. k = VStr (u ''k1'')),
     header_kid = (\<lambda>t. Inr (VStr (u ''k1''))),
     validated_claims = (\<lambda>_ _ _ t. if t = u ''good'' then Inr [(u ''sub'', VStr (u ''7''))] else Inl value_error)\<rparr>"

lemma example_realm_ok: "blocking example_realm" "clock_forward example_realm"
  by (auto simp: blocking_def clock_forward_def example_realm_def ret_def)

lemma example_decode:
  "\<exists>s'. decode default_verifier example_realm (u ''good'') (new_verifier 0) = (Inr [(u ''sub'', VStr (u ''7''))], s')"
  by (simp add: decode_def keys_for_def fetch_locked_def fetch_certs_def now_def prog_defs example_realm_def
      new_verifier_def stale_def check_token_def issuer_ok_def audience_ok_def default_verifier_def)

theorem decode_sound_witness:
  "\<exists>s'. decode default_verifier example_realm (u ''good'') (new_verifier 0) = (Inr [(u ''sub'', VStr (u ''7''))], s') \<and>
    keys s' = Some ()"
proof -
  obtain s' where d: "decode default_verifier example_realm (u ''good'') (new_verifier 0) = (Inr [(u ''sub'', VStr (u ''7''))], s')"
    using example_decode by blast
  from decode_sound [OF d] d show ?thesis by auto
qed

theorem decode_errors_witness:
  "case decode default_verifier example_realm (u ''bad'') (new_verifier 0) of (r, s') \<Rightarrow>
     (case r of Inl e \<Rightarrow> e = invalid_credentials \<or> e = not_available | Inr c \<Rightarrow> True)"
proof -
  obtain r s' where d: "decode default_verifier example_realm (u ''bad'') (new_verifier 0) = (r, s')"
    by (cases "decode default_verifier example_realm (u ''bad'') (new_verifier 0)")
  from decode_errors [OF example_realm_ok(1) d] d show ?thesis by (auto split: sum.splits)
qed

text \<open>A token with an unknown key, 35 seconds after the last request: Keycloak is asked again.\<close>

theorem refresh_rate_witness:
  "case keys_for default_verifier example_realm (VStr (u ''k2'')) (\<lparr>outer = 40, keys = Some (), fetched_at = 5, last_attempt = Some 5\<rparr>) of
     (r, s') \<Rightarrow> times_ok default_verifier s' \<and> (\<exists>l. last_attempt s' = Some l \<and> 30 \<le> l - 5)"
proof -
  let ?s = "\<lparr>outer = 40, keys = Some (), fetched_at = 5, last_attempt = Some 5\<rparr> :: (nat, unit) vstate"
  obtain r s' where k: "keys_for default_verifier example_realm (VStr (u ''k2'')) ?s = (r, s')"
    by (cases "keys_for default_verifier example_realm (VStr (u ''k2'')) ?s")
  have "times_ok default_verifier ?s" by (simp add: times_ok_def)
  note rate = refresh_rate [OF this example_realm_ok(2,1) disjI1 [OF k]]
  have "last_attempt s' \<noteq> Some 5"
    using k by (auto simp: keys_for_def fetch_locked_def fetch_certs_def now_def prog_defs example_realm_def
        stale_def unknown_key_def default_verifier_def split: if_splits)
  with rate k show ?thesis by (auto simp: default_verifier_def)
qed

text \<open>
  The check and the fetch of a refresh are two steps, and only the second one holds the lock: when two threads check
  the old keys before either of them fetches, the keys are fetched twice in a row.
\<close>

lemma refresh_race:
  "\<exists>s s1 s2 s3 s4 l l'. keys s \<noteq> None \<and>
    needs_refresh default_verifier example_realm s = (Inr True, s1) \<and>
    needs_refresh default_verifier example_realm s1 = (Inr True, s2) \<and>
    refresh default_verifier example_realm s2 = (Inr (), s3) \<and> last_attempt s3 = Some l \<and>
    refresh default_verifier example_realm s3 = (Inr (), s4) \<and> last_attempt s4 = Some l' \<and>
    l' - l < min_refresh_interval default_verifier"
  by (rule exI [of _ "\<lparr>outer = 1000, keys = Some (), fetched_at = 0, last_attempt = Some 0\<rparr>"])
    (simp add: needs_refresh_def refresh_def fetch_locked_def fetch_certs_def now_def prog_defs example_realm_def
      default_verifier_def)

end
