(* ===== verification/AuthDependencies.thy ===== *)
theory AuthDependencies imports TokenVerifier begin

text \<open>
  The dependencies of the routes: \<open>auth/dependencies.py\<close>. The token is decoded through an interface
  (\<open>token_decoder\<close>), which the verifier provides; the payload is kept in the state of the request.
\<close>

section \<open>The interface of the decoder\<close>

type_synonym claims = "(pystr, pyval) dict"

locale token_decoder =
  fixes dec :: "'d \<Rightarrow> pystr \<Rightarrow> ('w, exn, claims) prog"
    and ok :: "'d \<Rightarrow> bool"
  assumes dec_errors: "ok d \<Longrightarrow> dec d t w = (Inl e, w') \<Longrightarrow> e = invalid_credentials \<or> e = not_available"
begin

lemma dec_http: "ok d \<Longrightarrow> dec d t w = (Inl (HTTPException code m h), w') \<Longrightarrow> code = 401"
  using dec_errors [of d t w "HTTPException code m h" w'] by (auto simp: invalid_credentials_def not_available_def)

lemma dec_not_cancelled: "ok d \<Longrightarrow> dec d t w \<noteq> (Inl CancelledError, w')"
  using dec_errors [of d t w CancelledError w'] by (auto simp: invalid_credentials_def not_available_def)

end

definition verifier_decode :: "verifier_config \<times> ('w, 'k) realm \<Rightarrow> pystr \<Rightarrow> (('w, 'k) vstate, exn, claims) prog" where
  "verifier_decode d token = decode (fst d) (snd d) token"

lemma verifier_decode_errors:
  assumes "blocking (snd d)" and "verifier_decode d t w = (Inl e, w')"
  shows "e = invalid_credentials \<or> e = not_available"
  using decode_failure [OF assms(1), of "fst d" t w "Inl e" w'] assms(2)
  by (auto simp: verifier_decode_def)

interpretation verifier: token_decoder verifier_decode "\<lambda>d. blocking (snd d)"
  by unfold_locales (rule verifier_decode_errors)

section \<open>One decode per request\<close>

record 'w request =
  token_payload :: "(pystr \<times> claims) option"
  service :: 'w

definition in_service :: "('w, exn, 'a) prog \<Rightarrow> ('w request, exn, 'a) prog" where
  "in_service m = (\<lambda>s. case m (service s) of (r, w) \<Rightarrow> (r, s\<lparr>service := w\<rparr>))"

definition decode_once :: "(pystr \<Rightarrow> ('w, exn, claims) prog) \<Rightarrow> pystr \<Rightarrow> ('w request, exn, claims) prog" where
  "decode_once dec token =
     bindM (getM token_payload) (\<lambda>cached. case cached of
       Some (t, payload) \<Rightarrow>
         (if t = token then ret payload
          else bindM (in_service (dec token)) (\<lambda>p. thenM (modifyM (\<lambda>s. s\<lparr>token_payload := Some (token, p)\<rparr>)) (ret p)))
     | None \<Rightarrow> bindM (in_service (dec token)) (\<lambda>p. thenM (modifyM (\<lambda>s. s\<lparr>token_payload := Some (token, p)\<rparr>)) (ret p)))"

definition get_token_payload :: "(pystr \<Rightarrow> ('w, exn, claims) prog) \<Rightarrow> pystr \<Rightarrow> ('w request, exn, claims) prog" where
  "get_token_payload dec token = decode_once dec token"

lemma decode_once_cached:
  "token_payload s = Some (token, p) \<Longrightarrow> decode_once dec token s = (Inr p, s)"
  by (simp add: decode_once_def prog_defs)

lemma decode_once_caches:
  "decode_once dec token s = (Inr p, s') \<Longrightarrow> token_payload s' = Some (token, p)"
  by (auto simp: decode_once_def in_service_def prog_defs split: option.splits prod.splits sum.splits if_splits)

text \<open>
  C14. A request decodes its token once: after the first dependency got the payload, every further one, in
  any number, gets the same payload and does not touch the verifier or anything else.
\<close>

theorem one_decode_per_request:
  assumes "decode_once dec token s = (Inr p, s')"
  shows "fold (\<lambda>_ (rs, s). case decode_once dec token s of (r, s'') \<Rightarrow> (rs @ [r], s'')) [0..<n] ([], s') =
    (replicate n (Inr p), s')"
  using decode_once_cached [OF decode_once_caches [OF assms]]
  by (induction n) (simp_all add: replicate_append_same)

theorem one_decode_per_request_witness:
  "\<exists>p s'. decode_once (verifier_decode (default_verifier, example_realm)) (u ''good'')
      \<lparr>token_payload = None, service = new_verifier 0\<rparr> = (Inr p, s') \<and>
    decode_once (verifier_decode (default_verifier, example_realm)) (u ''good'') s' = (Inr p, s')"
proof -
  let ?s = "\<lparr>token_payload = None, service = new_verifier 0\<rparr> :: (nat, unit) vstate request"
  obtain w where w: "decode default_verifier example_realm (u ''good'') (new_verifier 0) = (Inr [(u ''sub'', VStr (u ''7''))], w)"
    using example_decode by blast
  have "\<exists>s'. decode_once (verifier_decode (default_verifier, example_realm)) (u ''good'') ?s = (Inr [(u ''sub'', VStr (u ''7''))], s')"
    by (simp add: decode_once_def in_service_def verifier_decode_def w prog_defs)
  then obtain s' where d: "decode_once (verifier_decode (default_verifier, example_realm)) (u ''good'') ?s =
      (Inr [(u ''sub'', VStr (u ''7''))], s')" by blast
  from one_decode_per_request [OF d, of 1] d show ?thesis by (auto split: prod.splits)
qed

section \<open>The checks of a route\<close>

definition forbidden :: "pystr \<Rightarrow> exn" where
  "forbidden scopes = HTTPException 403 (u ''User not in required group(s): '' @ scopes) bearer_challenge"

text \<open>\<open>get_auth\<close>; \<open>repr\<close> prints a list of scopes.\<close>

definition get_auth :: "(pystr list \<Rightarrow> pystr) \<Rightarrow> pystr list \<Rightarrow> claims \<Rightarrow> exn + claims" where
  "get_auth repr scopes payload =
     (case validate_user_groups (get_default payload (u ''groups'') (VList [])) scopes SUPER_GROUPS of
        Inl e \<Rightarrow> Inl e
      | Inr ok \<Rightarrow> (if ok then Inr payload else Inl (forbidden (repr scopes))))"

definition get_auth_context ::
  "'w role_loaders \<Rightarrow> bool \<Rightarrow> claims \<Rightarrow> ('w, exn, auth_context) prog" where
  "get_auth_context ld strict payload =
     bindM (liftE (build_auth_context payload strict)) (load_role_contexts ld)"

datatype on_invalid = Anonymous | Unauthorized401

fun http_exception :: "exn \<Rightarrow> bool" where
  "http_exception (HTTPException _ _ _) = True"
| "http_exception _ = False"

definition get_optional_auth_context ::
  "(pystr \<Rightarrow> ('w, exn, claims) prog) \<Rightarrow> 'w role_loaders \<Rightarrow> on_invalid \<Rightarrow> bool \<Rightarrow> pystr option
   \<Rightarrow> ('w request, exn, auth_context option) prog" where
  "get_optional_auth_context dec ld mode strict token = (case token of
     None \<Rightarrow> ret None
   | Some t \<Rightarrow>
       (if t = [] then ret None
        else bindM
          (catchM http_exception
             (bindM (decode_once dec t) (\<lambda>payload.
                bindM (liftE (build_auth_context payload strict)) (\<lambda>c. ret (Some c))))
             (\<lambda>e. if mode = Unauthorized401 then raise e else ret None))
          (\<lambda>c. case c of None \<Rightarrow> ret None
             | Some c \<Rightarrow> bindM (in_service (load_role_contexts ld c)) (\<lambda>c. ret (Some c)))))"

text \<open>\<open>make_get_policy\<close> and \<open>BaseAccessPolicy\<close>: a policy holds the context it was made with.\<close>

record base_access_policy =
  policy_ctx :: auth_context

definition get_policy :: "auth_context \<Rightarrow> base_access_policy" where
  "get_policy c = \<lparr>policy_ctx = c\<rparr>"

text \<open>A protected route: the token, the scope check, then the context.\<close>

definition protected_route ::
  "(pystr \<Rightarrow> ('w, exn, claims) prog) \<Rightarrow> (pystr list \<Rightarrow> pystr) \<Rightarrow> 'w role_loaders \<Rightarrow> pystr list \<Rightarrow> pystr
   \<Rightarrow> ('w request, exn, auth_context) prog" where
  "protected_route dec repr ld scopes token =
     bindM (get_token_payload dec token) (\<lambda>payload.
     bindM (liftE (get_auth repr scopes payload)) (\<lambda>_.
     bindM (get_token_payload dec token) (\<lambda>payload.
       in_service (get_auth_context ld True payload))))"

lemma get_auth_pass:
  "get_auth repr scopes payload = Inr p \<Longrightarrow>
   p = payload \<and> validate_user_groups (get_default payload (u ''groups'') (VList [])) scopes SUPER_GROUPS = Inr True"
  by (auto simp: get_auth_def split: sum.splits if_splits)

text \<open>
  C8. Nobody gets through a protected route without a token that the verifier accepted in this very request and
  whose groups pass the scope check; the context the route gets is the one of that token.
\<close>

theorem protected_route_safe:
  assumes "protected_route (verifier_decode (cfg, R)) repr ld scopes token \<lparr>token_payload = None, service = w\<rparr> = (Inr c, s')"
  shows "\<exists>payload k. validated_claims R k ALLOWED_ALGORITHMS (leeway cfg) token = Inr payload \<and>
    issuer_ok cfg payload \<and> audience_ok cfg payload \<and>
    validate_user_groups (get_default payload (u ''groups'') (VList [])) scopes SUPER_GROUPS = Inr True \<and>
    (\<exists>c0. build_auth_context payload True = Inr c0 \<and> same_identity c0 c)"
proof -
  let ?dec = "verifier_decode (cfg, R)"
  let ?s = "\<lparr>token_payload = None, service = w\<rparr>"
  obtain payload s1 where p: "decode_once ?dec token ?s = (Inr payload, s1)"
    using assms by (auto simp: protected_route_def get_token_payload_def bindM_def split: prod.splits sum.splits)
  have again: "decode_once ?dec token s1 = (Inr payload, s1)"
    by (rule decode_once_cached [OF decode_once_caches [OF p]])
  from assms p again have auth: "\<exists>q. get_auth repr scopes payload = Inr q"
    and ctx: "in_service (get_auth_context ld True payload) s1 = (Inr c, s')"
    by (auto simp: protected_route_def get_token_payload_def prog_defs split: sum.splits)
  obtain w' where d: "decode cfg R token w = (Inr payload, w')"
    using p by (auto simp: decode_once_def in_service_def verifier_decode_def prog_defs split: prod.splits sum.splits)
  obtain c0 w1 w2 where "build_auth_context payload True = Inr c0" "load_role_contexts ld c0 w1 = (Inr c, w2)"
    using ctx by (auto simp: in_service_def get_auth_context_def prog_defs split: prod.splits sum.splits)
  with load_role_contexts_result decode_result [OF d] auth show ?thesis
    by (fastforce dest: get_auth_pass)
qed

text \<open>A loader of the service raises an exception.\<close>

definition loader_raises :: "'w role_loaders \<Rightarrow> exn \<Rightarrow> bool" where
  "loader_raises ld e \<longleftrightarrow> (\<exists>c w. fst (load_secretary_context ld c w) = Inl e \<or>
     fst (load_agent_context ld c w) = Inl e \<or> fst (load_evaluator_context ld c w) = Inl e)"

lemma any_value_error: "any_value p xs = Inl e \<Longrightarrow> \<exists>x \<in> set xs. p x = Inl e"
  by (induction xs) (auto split: sum.splits if_splits)

lemma in_scope_value_error: "in_scope_value r v = Inl e \<Longrightarrow> \<not> http_exception e"
  by (cases v) auto

lemma has_group_error: "has_group c g = Inl e \<Longrightarrow> \<not> http_exception e"
  by (cases "user_groups c")
    (auto simp: has_group_def not_iterable_def dest!: any_value_error in_scope_value_error)

lemma or_check_error: "or_check a b = Inl e \<Longrightarrow> a = Inl e \<or> b = Inl e"
  by (cases "(a, b)" rule: or_check.cases) auto

lemma role_error:
  "is_secretary c = Inl e \<or> is_agent c = Inl e \<or> is_evaluator c = Inl e \<Longrightarrow> \<not> http_exception e"
  by (auto simp: role_defs dest!: or_check_error has_group_error)

lemma load_role_error:
  "load_role role unset load store c w = (Inl e, w') \<Longrightarrow> role = Inl e \<or> load w = (Inl e, w')"
  by (auto simp: load_role_def prog_defs split: prod.splits sum.splits if_splits)

lemma load_role_contexts_error:
  assumes "load_role_contexts ld c w = (Inl e, w')" and "http_exception e"
  shows "loader_raises ld e"
  using assms(1) role_error [of _ e] assms(2) unfolding loader_raises_def
  by (auto simp: load_role_contexts_def bindM_def split: prod.splits sum.splits dest!: load_role_error)
    (metis fst_conv)+

text \<open>What the optional context is, from what the token is.\<close>

lemma optional_context_run:
  assumes "t \<noteq> []"
  shows "get_optional_auth_context dec ld mode strict (Some t) s =
    (case bindM (decode_once dec t) (\<lambda>payload. liftE (build_auth_context payload strict)) s of
       (Inl e, s1) \<Rightarrow> (if http_exception e \<and> mode = Anonymous then Inr None else Inl e, s1)
     | (Inr c, s1) \<Rightarrow> (case in_service (load_role_contexts ld c) s1 of
           (Inl e, s2) \<Rightarrow> (Inl e, s2) | (Inr c', s2) \<Rightarrow> (Inr (Some c'), s2)))"
  using assms
  by (cases mode) (auto simp: get_optional_auth_context_def prog_defs split: prod.splits sum.splits)

lemma decode_once_error:
  assumes "blocking R" and "decode_once (verifier_decode (cfg, R)) t s = (Inl e, s')"
  shows "e = invalid_credentials \<or> e = not_available"
  using assms(2) verifier.dec_errors [of "(cfg, R)" t] assms(1)
  by (auto simp: decode_once_def in_service_def prog_defs split: option.splits prod.splits sum.splits if_splits)

text \<open>
  C15. On a route with an optional user in \<open>anonymous\<close> mode, a token that the verifier refuses, or from which no context
  can be built, is the same as no token: the result is \<open>None\<close>. A token that is accepted gives its context, with
  its roles loaded. So no HTTP error comes from the token, only one the loaders of the service raise themselves.
  Two errors are not made into \<open>None\<close>: a Keycloak that can not be reached while there are no keys
  (\<open>ServiceUnavailableError\<close>, which says nothing about the token), and the \<open>OverflowError\<close> of an infinite department id.
\<close>

theorem optional_context_anonymous:
  assumes "blocking R" and "t \<noteq> []"
    and "decode_once (verifier_decode (cfg, R)) t s = (d, s1)"
    and "get_optional_auth_context (verifier_decode (cfg, R)) ld Anonymous strict (Some t) s = (r, s')"
  shows "(case d of
      Inl e \<Rightarrow> s' = s1 \<and> (e = invalid_credentials \<and> r = Inr None \<or> e = not_available \<and> r = Inl not_available)
    | Inr payload \<Rightarrow> (case build_auth_context payload strict of
          Inl e \<Rightarrow> s' = s1 \<and> r = (if http_exception e then Inr None else Inl e)
        | Inr c \<Rightarrow> (\<exists>q w. load_role_contexts ld c (service s1) = (q, w) \<and> r = map_sum id Some q \<and> s' = s1\<lparr>service := w\<rparr>))) \<and>
    (\<forall>e. http_exception e \<and> \<not> loader_raises ld e \<longrightarrow> r \<noteq> Inl e)"
proof -
  have run: "(r, s') = (case d of
      Inl e \<Rightarrow> (if http_exception e then Inr None else Inl e, s1)
    | Inr payload \<Rightarrow> (case build_auth_context payload strict of
          Inl e \<Rightarrow> (if http_exception e then Inr None else Inl e, s1)
        | Inr c \<Rightarrow> (case load_role_contexts ld c (service s1) of (q, w) \<Rightarrow> (map_sum id Some q, s1\<lparr>service := w\<rparr>))))"
    using assms(4) optional_context_run [OF assms(2), of "verifier_decode (cfg, R)" ld Anonymous strict s] assms(3)
    by (auto simp: bindM_def liftE_def in_service_def split: sum.splits prod.splits)
  have errors: "e = invalid_credentials \<or> e = not_available" if "d = Inl e" for e
    using decode_once_error [OF assms(1)] assms(3) that by blast
  have "http_exception invalid_credentials" "\<not> http_exception not_available"
    by (simp_all add: invalid_credentials_def not_available_def)
  with run errors have "case d of
      Inl e \<Rightarrow> s' = s1 \<and> (e = invalid_credentials \<and> r = Inr None \<or> e = not_available \<and> r = Inl not_available)
    | Inr payload \<Rightarrow> (case build_auth_context payload strict of
          Inl e \<Rightarrow> s' = s1 \<and> r = (if http_exception e then Inr None else Inl e)
        | Inr c \<Rightarrow> (\<exists>q w. load_role_contexts ld c (service s1) = (q, w) \<and> r = map_sum id Some q \<and> s' = s1\<lparr>service := w\<rparr>))"
    by (auto split: sum.splits prod.splits)
  moreover have "r \<noteq> Inl e" if "http_exception e" "\<not> loader_raises ld e" for e
    using run errors that load_role_contexts_error [of ld _ _ e]
    by (auto simp: map_sum_def split: sum.splits prod.splits if_splits)
  ultimately show ?thesis by blast
qed

lemma optional_context_no_token:
  "get_optional_auth_context dec ld mode strict None s = (Inr None, s)"
  "get_optional_auth_context dec ld mode strict (Some []) s = (Inr None, s)"
  by (simp_all add: get_optional_auth_context_def prog_defs)

theorem optional_context_anonymous_witness:
  "fst (get_optional_auth_context (verifier_decode (default_verifier, example_realm)) base_loaders Anonymous True
     (Some (u ''bad'')) \<lparr>token_payload = None, service = new_verifier 0\<rparr>) = Inr None"
proof -
  let ?dec = "verifier_decode (default_verifier, example_realm)"
  let ?s = "\<lparr>token_payload = None, service = new_verifier 0\<rparr> :: (nat, unit) vstate request"
  obtain d s1 where d: "decode_once ?dec (u ''bad'') ?s = (d, s1)" by fastforce
  obtain r s' where r: "get_optional_auth_context ?dec base_loaders Anonymous True (Some (u ''bad'')) ?s = (r, s')" by fastforce
  have "d = Inl invalid_credentials"
    using d by (auto simp: decode_once_def in_service_def verifier_decode_def decode_def keys_for_def fetch_locked_def
        fetch_certs_def now_def prog_defs example_realm_def new_verifier_def stale_def check_token_def u_def)
  with optional_context_anonymous [OF example_realm_ok(1) _ d r] r show ?thesis
    by (simp add: u_def invalid_credentials_def not_available_def)
qed

text \<open>A route for evaluators, with the token of an evaluator.\<close>

definition evaluator_claims :: claims where
  "evaluator_claims = [(u ''sub'', VStr (u ''7'')), (u ''email'', VStr (u ''e@x.gr'')),
     (u ''groups'', group_list [group_value EVALUATOR])]"

definition evaluator_realm :: "(nat, unit) realm" where
  "evaluator_realm = example_realm\<lparr>validated_claims :=
     (\<lambda>_ _ _ t. if t = u ''good'' then Inr evaluator_claims else Inl value_error)\<rparr>"

lemma evaluator_decode:
  "\<exists>w. verifier_decode (default_verifier, evaluator_realm) (u ''good'') (new_verifier 0) = (Inr evaluator_claims, w)"
  by (simp add: verifier_decode_def decode_def keys_for_def fetch_locked_def fetch_certs_def now_def prog_defs
      evaluator_realm_def example_realm_def new_verifier_def stale_def check_token_def issuer_ok_def
      audience_ok_def default_verifier_def)

lemma evaluator_context:
  "\<exists>c. build_auth_context evaluator_claims True = Inr c \<and> user_groups c = group_list [group_value EVALUATOR]"
  by (simp add: build_auth_context_def evaluator_claims_def REQUIRED_CLAIMS_def department_claim_def get_or_none_def
      get_default_def)

theorem protected_route_safe_witness:
  "\<exists>c s'. protected_route (verifier_decode (default_verifier, evaluator_realm)) (\<lambda>_. []) base_loaders
      [group_value EVALUATOR] (u ''good'') \<lparr>token_payload = None, service = new_verifier 0\<rparr> = (Inr c, s') \<and>
    (\<exists>c0. build_auth_context evaluator_claims True = Inr c0 \<and> same_identity c0 c)"
proof -
  obtain w where w: "verifier_decode (default_verifier, evaluator_realm) (u ''good'') (new_verifier 0) = (Inr evaluator_claims, w)"
    using evaluator_decode by blast
  obtain c0 where c0: "build_auth_context evaluator_claims True = Inr c0" "user_groups c0 = group_list [group_value EVALUATOR]"
    using evaluator_context by blast
  have groups: "get_default evaluator_claims (u ''groups'') (VList []) = group_list [group_value EVALUATOR]"
    by (simp add: evaluator_claims_def get_default_def)
  have roles: "is_secretary c0 = Inr False" "is_agent c0 = Inr False" "is_evaluator c0 = Inr True"
    by (simp_all add: role_defs has_group_list [OF c0(2)] in_scope_def startswith_def u_def)
  have "\<exists>c s'. protected_route (verifier_decode (default_verifier, evaluator_realm)) (\<lambda>_. []) base_loaders
      [group_value EVALUATOR] (u ''good'') \<lparr>token_payload = None, service = new_verifier 0\<rparr> = (Inr c, s')"
    by (simp add: protected_route_def get_token_payload_def decode_once_def in_service_def w prog_defs get_auth_def
        groups validate_group_list allowed_def get_auth_context_def c0 load_role_contexts_def load_role_def roles
        base_loaders_def)
  then obtain c s' where r: "protected_route (verifier_decode (default_verifier, evaluator_realm)) (\<lambda>_. []) base_loaders
      [group_value EVALUATOR] (u ''good'') \<lparr>token_payload = None, service = new_verifier 0\<rparr> = (Inr c, s')" by blast
  from protected_route_safe [OF r] obtain payload k where
    "validated_claims evaluator_realm k ALLOWED_ALGORITHMS (leeway default_verifier) (u ''good'') = Inr payload"
    "\<exists>c0. build_auth_context payload True = Inr c0 \<and> same_identity c0 c"
    by blast
  with r show ?thesis by (auto simp: evaluator_realm_def)
qed

end
