(* ===== verification/Crud.thy ===== *)
theory Crud imports Pagination AuthDependencies begin

text \<open>
  \<open>services/base.py\<close> and \<open>services/factory.py\<close>: the services over a database session. The objects of the session
  are references into a heap of attributes, because the code changes them in place; the session and the model
  class are parameters.
\<close>

section \<open>The session\<close>

type_synonym attrs = "(pystr, pyval) dict"
type_synonym ref = nat

record 'w db =
  heap :: "ref \<Rightarrow> attrs"
  database :: 'w

text \<open>
  \<open>select(model)\<close>, and the same \<open>where(model.id.in_(ids))\<close>.
\<close>

datatype selection = SelectAll | SelectIn "pyval list"

record ('w, 's) orm =
  orm_get :: "pyval \<Rightarrow> ('w db, exn, ref option) prog"
  orm_new :: "attrs \<Rightarrow> ('w db, exn, ref) prog"
  orm_add :: "ref \<Rightarrow> ('w db, exn, unit) prog"
  orm_delete :: "ref \<Rightarrow> ('w db, exn, unit) prog"
  orm_flush :: "('w db, exn, unit) prog"
  orm_refresh :: "ref \<Rightarrow> ('w db, exn, unit) prog"
  orm_session :: "(selection, pystr, ref, 'w db) sql_session"
  orm_execute :: "selection \<Rightarrow> ('w db, exn, ref list) prog"
  has_attr :: "ref \<Rightarrow> 'w db \<Rightarrow> pystr \<Rightarrow> bool"
  is_true :: "ref \<Rightarrow> 'w db \<Rightarrow> bool"
  model_name :: pystr
  model_class :: "pystr sa_model"
  model_dump :: "bool \<Rightarrow> pystr list \<Rightarrow> 's \<Rightarrow> attrs"

text \<open>
  \<open>obj_in\<close>: a dictionary or a schema. \<open>model_dump unset exclude s\<close> is the dictionary pydantic makes of a schema;
  with \<open>unset\<close> the fields that were not sent are left out.
\<close>

datatype 's obj_in = FromDict attrs | FromSchema 's

section \<open>The operations\<close>

definition get :: "('w, 's) orm \<Rightarrow> pyval \<Rightarrow> ('w db, exn, ref option) prog" where
  "get M rid = orm_get M rid"

definition not_found :: "('w, 's) orm \<Rightarrow> exn" where
  "not_found M = NotFoundError (model_name M @ u '' not found'')"

definition get_or_404 :: "('w, 's) orm \<Rightarrow> pyval \<Rightarrow> ('w db, exn, ref) prog" where
  "get_or_404 M rid = bindM (get M rid) (\<lambda>obj. case obj of
     None \<Rightarrow> raise (not_found M)
   | Some r \<Rightarrow> bindM (getM (is_true M r)) (\<lambda>t. if t then ret r else raise (not_found M)))"

definition select_model :: "(selection, pystr) query" where
  "select_model = \<lparr>source = SelectAll, criteria = [], slice = None\<rparr>"

definition get_multi ::
  "('w, 's) orm \<Rightarrow> (selection, pystr) query option \<Rightarrow> pagination_params \<Rightarrow> pystr sa_model option
   \<Rightarrow> ('w db, exn, ref paginated_response) prog" where
  "get_multi M q p sm =
     paginate_query (case q of None \<Rightarrow> select_model | Some q \<Rightarrow> q) (model_class M) (orm_session M) p sm (u ''id'') (u ''asc'')"

definition create_data :: "('w, 's) orm \<Rightarrow> 's obj_in \<Rightarrow> pystr list \<Rightarrow> attrs" where
  "create_data M obj exclude = (case obj of FromDict d \<Rightarrow> d | FromSchema s \<Rightarrow> model_dump M False exclude s)"

definition create :: "('w, 's) orm \<Rightarrow> 's obj_in \<Rightarrow> pystr list \<Rightarrow> attrs \<Rightarrow> ('w db, exn, ref) prog" where
  "create M obj exclude extra_data =
     bindM (orm_new M (dict_merge (create_data M obj exclude) extra_data)) (\<lambda>r.
     thenM (orm_add M r)
    (thenM (orm_flush M)
    (thenM (orm_refresh M r) (ret r))))"

text \<open>The data of an update; \<open>pop(field, None)\<close> for every excluded field.\<close>

definition update_data :: "('w, 's) orm \<Rightarrow> 's obj_in \<Rightarrow> pystr list \<Rightarrow> attrs" where
  "update_data M obj exclude = (case obj of
     FromDict d \<Rightarrow> fold AList.delete exclude d
   | FromSchema s \<Rightarrow> model_dump M True exclude s)"

definition set_attr :: "ref \<Rightarrow> pystr \<Rightarrow> pyval \<Rightarrow> ('w db, exn, unit) prog" where
  "set_attr r f v = modifyM (\<lambda>s. s\<lparr>heap := (heap s)(r := AList.update f v (heap s r))\<rparr>)"

fun set_fields :: "('w, 's) orm \<Rightarrow> ref \<Rightarrow> attrs \<Rightarrow> ('w db, exn, unit) prog" where
  "set_fields M r [] = ret ()"
| "set_fields M r ((f, v) # d) =
     bindM (getM (\<lambda>s. has_attr M r s f)) (\<lambda>h. thenM (if h then set_attr r f v else ret ()) (set_fields M r d))"

definition update_obj :: "('w, 's) orm \<Rightarrow> ref \<Rightarrow> 's obj_in \<Rightarrow> pystr list \<Rightarrow> ('w db, exn, ref) prog" where
  "update_obj M r obj exclude =
     thenM (set_fields M r (update_data M obj exclude))
    (thenM (orm_flush M)
    (thenM (orm_refresh M r) (ret r)))"

definition find_and_update :: "('w, 's) orm \<Rightarrow> pyval \<Rightarrow> 's obj_in \<Rightarrow> pystr list \<Rightarrow> ('w db, exn, ref) prog" where
  "find_and_update M rid obj exclude = bindM (get_or_404 M rid) (\<lambda>r. update_obj M r obj exclude)"

definition remove :: "('w, 's) orm \<Rightarrow> pyval \<Rightarrow> ('w db, exn, unit) prog" where
  "remove M rid = bindM (get_or_404 M rid) (orm_delete M)"

definition get_all :: "('w, 's) orm \<Rightarrow> ('w db, exn, ref list) prog" where
  "get_all M = orm_execute M SelectAll"

definition get_by_ids :: "('w, 's) orm \<Rightarrow> pyval list \<Rightarrow> ('w db, exn, ref list) prog" where
  "get_by_ids M ids = orm_execute M (SelectIn ids)"

text \<open>A service with a policy; \<open>ctx\<close> is the context of the policy.\<close>

record auth_service =
  service_policy :: "base_access_policy option"
  service_ctx :: "auth_context option"

definition new_auth_service :: "base_access_policy option \<Rightarrow> auth_service" where
  "new_auth_service p = \<lparr>service_policy = p, service_ctx = map_option policy_ctx p\<rparr>"

definition not_authorized :: exn where
  "not_authorized = ForbiddenError (u ''You are not authorized to perform this action'')"

definition get_authorized ::
  "('w, 's) orm \<Rightarrow> auth_service \<Rightarrow> pyval \<Rightarrow> (ref \<Rightarrow> base_access_policy \<Rightarrow> ('w db, exn, bool) prog)
   \<Rightarrow> ('w db, exn, ref) prog" where
  "get_authorized M A rid check = bindM (get_or_404 M rid) (\<lambda>r. case service_policy A of
     None \<Rightarrow> ret r
   | Some p \<Rightarrow> bindM (check r p) (\<lambda>ok. if ok then ret r else raise not_authorized))"

section \<open>What an update writes\<close>

text \<open>
  An object has the same attributes before and after an attribute it has is set; pydantic leaves the excluded fields
  out of a dump.
\<close>

definition stable_attrs :: "('w, 's) orm \<Rightarrow> ref \<Rightarrow> bool" where
  "stable_attrs M r \<longleftrightarrow> (\<forall>s f g v. has_attr M r s g \<longrightarrow>
     has_attr M r (s\<lparr>heap := (heap s)(r := AList.update g v (heap s r))\<rparr>) f = has_attr M r s f)"

definition dump_excludes :: "('w, 's) orm \<Rightarrow> bool" where
  "dump_excludes M \<longleftrightarrow> (\<forall>unset ex s f. f \<in> set ex \<longrightarrow> f \<notin> fst ` set (model_dump M unset ex s))"

definition known_fields :: "('w, 's) orm \<Rightarrow> ref \<Rightarrow> 'w db \<Rightarrow> attrs \<Rightarrow> attrs" where
  "known_fields M r s d = filter (\<lambda>(f, _). has_attr M r s f) d"

lemma set_fields_run:
  assumes "stable_attrs M r"
  shows "set_fields M r d s = (Inr (), s\<lparr>heap := (heap s)(r := dict_merge (heap s r) (known_fields M r s d))\<rparr>)"
proof (induction d arbitrary: s)
  case Nil
  show ?case by (simp add: known_fields_def dict_merge_def ret_def)
next
  case (Cons fv d)
  obtain f v where fv: "fv = (f, v)" by (cases fv)
  show ?case
  proof (cases "has_attr M r s f")
    case True
    let ?s = "s\<lparr>heap := (heap s)(r := AList.update f v (heap s r))\<rparr>"
    have "has_attr M r ?s g = has_attr M r s g" for g
      using assms True by (simp add: stable_attrs_def)
    then have "known_fields M r ?s d = known_fields M r s d" by (simp add: known_fields_def)
    moreover have "set_fields M r ((f, v) # d) s = set_fields M r d ?s"
      using True by (simp add: prog_defs set_attr_def)
    moreover have "dict_merge (AList.update f v (heap s r)) (known_fields M r s d) =
        dict_merge (heap s r) (known_fields M r s ((f, v) # d))"
      using True by (simp add: known_fields_def dict_merge_def)
    ultimately show ?thesis
      using Cons.IH [of ?s] fv by (simp cong: if_cong)
  next
    case False
    with Cons.IH [of s] fv show ?thesis
      by (simp add: prog_defs known_fields_def dict_merge_def)
  qed
qed

lemma map_of_filter_keys: "map_of (filter (\<lambda>(f, _). P f) d) f = (if P f then map_of d f else None)"
  by (induction d) auto

lemma map_of_fold_delete: "map_of (fold AList.delete ex d) = map_of d |` (- set ex)"
  by (induction ex arbitrary: d) (auto simp: delete_conv' restrict_map_def fun_eq_iff)

lemma update_data_excludes:
  assumes "dump_excludes M" and "f \<in> set ex"
  shows "f \<notin> fst ` set (update_data M obj ex)"
proof (cases obj)
  case (FromDict d)
  have "map_of (fold AList.delete ex d) f = None" using assms(2) by (simp add: map_of_fold_delete)
  with FromDict show ?thesis by (simp add: update_data_def map_of_eq_None_iff)
qed (use assms in \<open>simp add: update_data_def dump_excludes_def\<close>)


text \<open>A dictionary is stored whole: \<open>exclude\<close> only counts for a schema.\<close>

lemma create_keeps_excluded: "create M (FromDict d) exclude extra_data = create M (FromDict d) [] extra_data"
  by (simp add: create_def create_data_def)

section \<open>Who gets an object\<close>

lemma get_or_404_result:
  "get_or_404 M rid s = (Inr r, s') \<Longrightarrow> orm_get M rid s = (Inr (Some r), s') \<and> is_true M r s'"
  by (auto simp: get_or_404_def get_def prog_defs split: prod.splits sum.splits option.splits if_splits)

text \<open>With a policy an object is given out only when the check accepted it; without one there is no check.\<close>

lemma get_authorized_result:
  "get_authorized M (new_auth_service pol) rid check s = (Inr r, s') \<Longrightarrow>
   \<exists>s1. get_or_404 M rid s = (Inr r, s1) \<and>
     (case pol of None \<Rightarrow> s' = s1 | Some p \<Rightarrow> check r p s1 = (Inr True, s'))"
  by (auto simp: get_authorized_def new_auth_service_def prog_defs split: prod.splits sum.splits option.splits if_splits)

lemma no_policy_no_check:
  "get_or_404 M rid s = (Inr r, s') \<Longrightarrow> get_authorized M (new_auth_service None) rid check s = (Inr r, s')"
  by (simp add: get_authorized_def new_auth_service_def prog_defs)

text \<open>An object asked for on a protected route, once its token is decoded.\<close>

definition authorized_object ::
  "(pystr list \<Rightarrow> pystr) \<Rightarrow> pystr list \<Rightarrow> 'w db role_loaders \<Rightarrow> claims
   \<Rightarrow> ('w, 's) orm \<Rightarrow> pyval \<Rightarrow> (ref \<Rightarrow> base_access_policy \<Rightarrow> ('w db, exn, bool) prog) \<Rightarrow> ('w db, exn, ref) prog" where
  "authorized_object repr scopes ld payload M rid check =
     bindM (liftE (get_auth repr scopes payload)) (\<lambda>payload.
     bindM (get_auth_context ld True payload) (\<lambda>c.
       get_authorized M (new_auth_service (Some (get_policy c))) rid check))"

text \<open>
  C20. The check of a service with the policy of a protected route: the object goes only to a user whose groups pass
  the scopes of the route, after the check of this very object accepted the policy of this very user.
\<close>

theorem authorized_object_safe:
  assumes "authorized_object repr scopes ld payload M rid check s = (Inr r, s')"
  shows "\<exists>c0 c s1 s2. validate_user_groups (get_default payload (u ''groups'') (VList [])) scopes SUPER_GROUPS = Inr True \<and>
    build_auth_context payload True = Inr c0 \<and> same_identity c0 c \<and>
    orm_get M rid s1 = (Inr (Some r), s2) \<and> check r (get_policy c) s2 = (Inr True, s')"
proof -
  from assms obtain p c s1 where p: "get_auth repr scopes payload = Inr p"
    and c: "get_auth_context ld True p s = (Inr c, s1)"
    and g: "get_authorized M (new_auth_service (Some (get_policy c))) rid check s1 = (Inr r, s')"
    by (auto simp: authorized_object_def bindM_def liftE_def split: prod.splits sum.splits)
  from p have v: "p = payload" "validate_user_groups (get_default payload (u ''groups'') (VList [])) scopes SUPER_GROUPS = Inr True"
    by (auto dest: get_auth_pass)
  from c obtain c0 s0 where "build_auth_context p True = Inr c0" "load_role_contexts ld c0 s0 = (Inr c, s1)"
    by (auto simp: get_auth_context_def bindM_def liftE_def split: sum.splits)
  with v g show ?thesis
    by (fastforce dest: load_role_contexts_result get_authorized_result get_or_404_result)
qed

section \<open>The factory of the services\<close>

text \<open>
  \<open>make_service_factory\<close>: the dependencies by name; \<open>return_hint\<close> is the annotation of what a dependency returns,
  \<open>is_identifier\<close> tells which names a parameter may have.
\<close>

record ('d, 't) parameter =
  par_name :: pystr
  par_default :: 'd
  par_type :: 't

record ('d, 't) factory =
  get_session :: 'd
  available_deps :: "(pystr, 'd) dict"
  return_hint :: "'d \<Rightarrow> exn + 't option"
  any_type :: 't
  session_type :: 't
  is_identifier :: "pystr \<Rightarrow> bool"
  repr_set :: "pystr set \<Rightarrow> pystr"

definition unknown_deps :: "('d, 't) factory \<Rightarrow> pystr list \<Rightarrow> pystr set" where
  "unknown_deps F extra = set extra - fst ` set (available_deps F)"

definition unknown_error :: "('d, 't) factory \<Rightarrow> pystr set \<Rightarrow> exn" where
  "unknown_error F names = Builtin ''ValueError'' (u ''Unknown service dependency(ies): '' @ repr_set F names)"

definition parameter_error :: "pystr \<Rightarrow> exn" where
  "parameter_error name = Builtin ''ValueError'' name"

definition dep_parameter :: "('d, 't) factory \<Rightarrow> pystr \<Rightarrow> exn + ('d, 't) parameter" where
  "dep_parameter F name = (case map_of (available_deps F) name of
     None \<Rightarrow> Inl (Builtin ''KeyError'' name)
   | Some d \<Rightarrow> (case return_hint F d of
       Inl e \<Rightarrow> Inl e
     | Inr h \<Rightarrow> (if \<not> is_identifier F name then Inl (parameter_error name)
         else Inr \<lparr>par_name = name, par_default = d, par_type = (case h of None \<Rightarrow> any_type F | Some t \<Rightarrow> t)\<rparr>)))"

fun dep_parameters :: "('d, 't) factory \<Rightarrow> pystr list \<Rightarrow> exn + ('d, 't) parameter list" where
  "dep_parameters F [] = Inr []"
| "dep_parameters F (name # names) = (case dep_parameter F name of
     Inl e \<Rightarrow> Inl e
   | Inr p \<Rightarrow> (case dep_parameters F names of Inl e \<Rightarrow> Inl e | Inr ps \<Rightarrow> Inr (p # ps)))"

text \<open>\<open>inspect.Signature\<close> refuses two parameters of one name.\<close>

definition signature :: "('d, 't) parameter list \<Rightarrow> exn + ('d, 't) parameter list" where
  "signature ps = (if distinct (map par_name ps) then Inr ps else Inl (parameter_error (u ''duplicate parameter name'')))"

definition get_service :: "('d, 't) factory \<Rightarrow> pystr list option \<Rightarrow> exn + ('d, 't) parameter list" where
  "get_service F extra =
     (let names = (case extra of None \<Rightarrow> [] | Some ns \<Rightarrow> ns)
      in if unknown_deps F names \<noteq> {} then Inl (unknown_error F (unknown_deps F names))
         else (case dep_parameters F names of
           Inl e \<Rightarrow> Inl e
         | Inr ps \<Rightarrow> signature (\<lparr>par_name = u ''session'', par_default = get_session F, par_type = session_type F\<rparr> # ps)))"

lemma dep_parameters_result:
  "dep_parameters F names = Inr ps \<Longrightarrow> map par_name ps = names \<and>
   list_all (\<lambda>p. map_of (available_deps F) (par_name p) = Some (par_default p)) ps"
  by (induction names arbitrary: ps) (auto simp: dep_parameter_def split: sum.splits option.splits if_splits)

lemma dep_parameters_ok:
  assumes "set names \<subseteq> fst ` set (available_deps F)" and "\<And>d. \<exists>h. return_hint F d = Inr h"
    and "\<And>n. n \<in> set names \<Longrightarrow> is_identifier F n"
  shows "\<exists>ps. dep_parameters F names = Inr ps"
  using assms
proof (induction names)
  case (Cons n names)
  from Cons.prems(1) obtain d where "map_of (available_deps F) n = Some d"
    by (metis list.set_intros(1) subsetD map_of_eq_None_iff not_Some_eq)
  moreover obtain h where "return_hint F d = Inr h" using Cons.prems(2) by blast
  ultimately show ?case using Cons by (auto simp: dep_parameter_def)
qed simp

text \<open>
  A service is built exactly for a list of known, different extra dependencies none of which is called
  \<open>session\<close>; its parameters are the session and then the extras in their order, each with its own dependency.
\<close>

theorem get_service_signature:
  assumes "\<And>d. \<exists>h. return_hint F d = Inr h" and "\<And>n. n \<in> set names \<Longrightarrow> is_identifier F n"
  shows "(set names \<subseteq> fst ` set (available_deps F) \<and> distinct (u ''session'' # names) \<longleftrightarrow>
      (\<exists>ps. get_service F (Some names) = Inr ps)) \<and>
    (\<forall>ps. get_service F (Some names) = Inr ps \<longrightarrow> map par_name ps = u ''session'' # names \<and>
      par_default (hd ps) = get_session F \<and>
      list_all (\<lambda>p. map_of (available_deps F) (par_name p) = Some (par_default p)) (tl ps))"
proof (cases "set names \<subseteq> fst ` set (available_deps F)")
  case True
  then obtain ps where "dep_parameters F names = Inr ps" using dep_parameters_ok [OF _ assms] by blast
  with dep_parameters_result [OF this] True show ?thesis
    by (auto simp: get_service_def unknown_deps_def signature_def)
next
  case False
  then have "unknown_deps F names \<noteq> {}" by (auto simp: unknown_deps_def)
  with False show ?thesis by (simp add: get_service_def)
qed

section \<open>Example\<close>

text \<open>A table with one course, whose model has two columns.\<close>

definition example_orm :: "(unit, attrs) orm" where
  "example_orm = \<lparr>orm_get = (\<lambda>rid. ret (if rid = VInt 1 then Some 0 else None)), orm_new = (\<lambda>d. ret 1),
     orm_add = (\<lambda>_. ret ()), orm_delete = (\<lambda>_. ret ()), orm_flush = ret (), orm_refresh = (\<lambda>_. ret ()),
     orm_session = \<lparr>scalar_count = (\<lambda>_. ret (Some 1)), scalars_all = (\<lambda>_. ret [0])\<rparr>,
     orm_execute = (\<lambda>_. ret [0]), has_attr = (\<lambda>r s f. f = u ''id'' \<or> f = u ''title''), is_true = (\<lambda>_ _. True),
     model_name = u ''Course'', model_class = example_model,
     model_dump = (\<lambda>unset ex d. filter (\<lambda>(f, _). f \<notin> set ex) d)\<rparr>"

definition example_db :: "unit db" where
  "example_db = \<lparr>heap = (\<lambda>_. [(u ''id'', VInt 1), (u ''title'', VStr (u ''Logic''))]), database = ()\<rparr>"

lemma example_orm_laws: "stable_attrs example_orm r" "dump_excludes example_orm"
  by (auto simp: stable_attrs_def dump_excludes_def example_orm_def)

lemma example_found: "get_or_404 example_orm (VInt 1) s = (Inr 0, s)"
  by (simp add: get_or_404_def get_def example_orm_def prog_defs)


theorem authorized_object_safe_witness:
  "\<exists>c0. build_auth_context evaluator_claims True = Inr c0 \<and>
    authorized_object (\<lambda>_. []) [group_value EVALUATOR] base_loaders evaluator_claims example_orm (VInt 1)
      (\<lambda>_ p. liftE (is_evaluator (policy_ctx p))) example_db = (Inr 0, example_db)"
proof -
  let ?check = "\<lambda>_ p. liftE (is_evaluator (policy_ctx p))"
  obtain c where c: "build_auth_context evaluator_claims True = Inr c" "user_groups c = group_list [group_value EVALUATOR]"
    using evaluator_context by blast
  have roles: "is_secretary c = Inr False" "is_agent c = Inr False" "is_evaluator c = Inr True"
    by (simp_all add: role_defs c(2) has_group_list in_scope_def startswith_def u_def)
  have auth: "get_auth (\<lambda>_. []) [group_value EVALUATOR] evaluator_claims = Inr evaluator_claims"
    by (simp add: get_auth_def get_default_def evaluator_claims_def validate_group_list allowed_def in_scope_def)
  have loaded: "\<exists>c'. load_role_contexts base_loaders c s = (Inr c', s) \<and> is_evaluator c' = Inr True" for s :: "unit db"
    by (auto simp: load_role_contexts_def load_role_def roles prog_defs base_loaders_def)
      (simp_all add: role_defs c(2) has_group_list in_scope_def startswith_def u_def)
  then obtain c' where l: "load_role_contexts base_loaders c example_db = (Inr c', example_db)" "is_evaluator c' = Inr True"
    by blast
  have run: "authorized_object (\<lambda>_. []) [group_value EVALUATOR] base_loaders evaluator_claims example_orm (VInt 1)
      ?check example_db = (Inr 0, example_db)"
    using c(1) auth l
    by (simp add: authorized_object_def get_auth_context_def get_authorized_def new_auth_service_def get_policy_def
        example_found prog_defs)
  from authorized_object_safe [OF run] run show ?thesis by blast
qed

definition example_factory :: "(nat, unit) factory" where
  "example_factory = \<lparr>get_session = 0, available_deps = [(u ''policy'', 1), (u ''email_client'', 2)],
     return_hint = (\<lambda>_. Inr None), any_type = (), session_type = (), is_identifier = (\<lambda>_. True), repr_set = (\<lambda>_. [])\<rparr>"

theorem get_service_signature_witness:
  "\<exists>ps. get_service example_factory (Some [u ''email_client'']) = Inr ps \<and>
    map par_name ps = [u ''session'', u ''email_client'']"
proof -
  have "\<And>d. \<exists>h. return_hint example_factory d = Inr h" "\<And>n. is_identifier example_factory n"
    "set [u ''email_client''] \<subseteq> fst ` set (available_deps example_factory)"
    by (simp_all add: example_factory_def)
  with get_service_signature [of example_factory "[u ''email_client'']"] show ?thesis by auto
qed

end
