(* ===== verification/RedisManager.thy ===== *)
theory RedisManager imports Exceptions JsonCodec Numbers begin

text \<open>
  \<open>redis/manager.py\<close>: the connection of a service to Redis and the helpers over it. The client library and the
  server are a parameter (\<open>redis_client\<close>), with what a Redis server promises (\<open>redis_laws\<close>). What a cache built on the
  manager relies on is the locale \<open>json_store\<close>, interpreted on \<open>get_json\<close> and \<open>set_json\<close>.
\<close>

section \<open>The manager\<close>

record redis_params =
  redis_host :: pystr
  redis_port :: int
  redis_password :: "pystr option"
  redis_db :: int

record 'w redis_client =
  r_get :: "pystr \<Rightarrow> ('w, exn, pystr option) prog"
  r_set :: "pystr \<Rightarrow> pystr \<Rightarrow> int option \<Rightarrow> ('w, exn, unit) prog"
  r_delete :: "pystr \<Rightarrow> ('w, exn, unit) prog"
  r_exists :: "pystr \<Rightarrow> ('w, exn, int) prog"
  r_expire :: "pystr \<Rightarrow> int option \<Rightarrow> ('w, exn, unit) prog"
  r_hgetall :: "pystr \<Rightarrow> ('w, exn, (pystr, pystr) dict) prog"
  r_hset :: "pystr \<Rightarrow> (pystr, pystr) dict \<Rightarrow> ('w, exn, unit) prog"
  r_hdel :: "pystr \<Rightarrow> pystr list \<Rightarrow> ('w, exn, unit) prog"
  r_aclose :: "('w, exn, unit) prog"

text \<open>
  \<open>client\<close> holds the parameters of the connection of \<open>_redis\<close>, \<open>None\<close> before \<open>init_client\<close> and after
  \<open>close_client\<close>; \<open>world\<close> is the server and everything else outside.
\<close>

record 'w redis_state =
  client :: "redis_params option"
  world :: 'w

definition new_manager :: "'w \<Rightarrow> 'w redis_state" where
  "new_manager w = \<lparr>client = None, world = w\<rparr>"

definition in_world :: "('w, exn, 'a) prog \<Rightarrow> ('w redis_state, exn, 'a) prog" where
  "in_world m = (\<lambda>s. case m (world s) of (r, w) \<Rightarrow> (r, s\<lparr>world := w\<rparr>))"

definition init_client :: "redis_params \<Rightarrow> ('w redis_state, exn, unit) prog" where
  "init_client p = modifyM (\<lambda>s. s\<lparr>client := Some p\<rparr>)"

definition close_client :: "'w redis_client \<Rightarrow> ('w redis_state, exn, unit) prog" where
  "close_client C = bindM (getM client) (\<lambda>c. case c of
     None \<Rightarrow> ret ()
   | Some _ \<Rightarrow> thenM (in_world (r_aclose C)) (modifyM (\<lambda>s. s\<lparr>client := None\<rparr>)))"

definition not_initialized :: exn where
  "not_initialized = Builtin ''RuntimeError'' (u ''Redis not initialized yet'')"

text \<open>\<open>self.redis.command(...)\<close>; \<open>__getattr__\<close> forwards every other command the same way.\<close>

definition command :: "('w, exn, 'a) prog \<Rightarrow> ('w redis_state, exn, 'a) prog" where
  "command m = bindM (getM client) (\<lambda>c. case c of None \<Rightarrow> raise not_initialized | Some _ \<Rightarrow> in_world m)"

definition get :: "'w redis_client \<Rightarrow> pystr \<Rightarrow> ('w redis_state, exn, pystr option) prog" where
  "get C k = command (r_get C k)"

definition set_value :: "'w redis_client \<Rightarrow> pystr \<Rightarrow> pystr \<Rightarrow> int option \<Rightarrow> ('w redis_state, exn, unit) prog" where
  "set_value C k v expire = command (r_set C k v expire)"

definition delete :: "'w redis_client \<Rightarrow> pystr \<Rightarrow> ('w redis_state, exn, unit) prog" where
  "delete C k = command (r_delete C k)"

definition exists :: "'w redis_client \<Rightarrow> pystr \<Rightarrow> ('w redis_state, exn, bool) prog" where
  "exists C k = bindM (command (r_exists C k)) (\<lambda>n. ret (n \<noteq> 0))"

definition expire_key :: "'w redis_client \<Rightarrow> pystr \<Rightarrow> int option \<Rightarrow> ('w redis_state, exn, unit) prog" where
  "expire_key C k expire = command (r_expire C k expire)"

definition hgetall :: "'w redis_client \<Rightarrow> pystr \<Rightarrow> ('w redis_state, exn, (pystr, pystr) dict) prog" where
  "hgetall C k = command (r_hgetall C k)"

definition hset :: "'w redis_client \<Rightarrow> pystr \<Rightarrow> (pystr, pystr) dict \<Rightarrow> ('w redis_state, exn, unit) prog" where
  "hset C k mapping = command (r_hset C k mapping)"

definition hdel :: "'w redis_client \<Rightarrow> pystr \<Rightarrow> pystr list \<Rightarrow> ('w redis_state, exn, unit) prog" where
  "hdel C k keys = command (r_hdel C k keys)"

definition json_error :: exn where
  "json_error = Builtin ''JSONDecodeError'' (u ''invalid JSON'')"

definition not_serializable :: exn where
  "not_serializable = Builtin ''TypeError'' (u ''Object is not JSON serializable'')"

definition get_json :: "'w redis_client \<Rightarrow> pystr \<Rightarrow> ('w redis_state, exn, pyval) prog" where
  "get_json C k = bindM (get C k) (\<lambda>data. case data of
     None \<Rightarrow> ret VNone
   | Some t \<Rightarrow> (if t = [] then ret VNone
       else (case loads t of None \<Rightarrow> raise json_error | Some v \<Rightarrow> ret v)))"

definition set_json :: "'w redis_client \<Rightarrow> pystr \<Rightarrow> pyval \<Rightarrow> int option \<Rightarrow> ('w redis_state, exn, unit) prog" where
  "set_json C k v expire = (case dumps False v of None \<Rightarrow> raise not_serializable | Some t \<Rightarrow> set_value C k t expire)"

section \<open>What Redis promises\<close>

text \<open>
  The strings and the hashes the server has. Keys expire, and are evicted, at any time: between two commands some may
  go, none comes. A command that raises may or may not have been executed.
\<close>

record 'w redis_view =
  strings :: "'w \<Rightarrow> pystr \<rightharpoonup> pystr"
  hashes :: "'w \<Rightarrow> pystr \<Rightarrow> pystr \<rightharpoonup> pystr"

definition less_kept :: "'w redis_view \<Rightarrow> 'w \<Rightarrow> 'w \<Rightarrow> bool" where
  "less_kept V w w' \<longleftrightarrow> strings V w' \<subseteq>\<^sub>m strings V w \<and> (\<forall>k. hashes V w' k \<subseteq>\<^sub>m hashes V w k)"

definition redis_laws :: "'w redis_client \<Rightarrow> 'w redis_view \<Rightarrow> bool" where
  "redis_laws C V \<longleftrightarrow>
     (\<forall>k w r w'. r_get C k w = (r, w') \<longrightarrow> less_kept V w w' \<and>
        (\<forall>x. r = Inr (Some x) \<longrightarrow> strings V w k = Some x)) \<and>
     (\<forall>k v e w r w'. r_set C k v e w = (r, w') \<longrightarrow>
        (strings V w' \<subseteq>\<^sub>m (strings V w)(k \<mapsto> v) \<or> strings V w' \<subseteq>\<^sub>m strings V w) \<and>
        (\<forall>j. hashes V w' j \<subseteq>\<^sub>m hashes V w j)) \<and>
     (\<forall>k e w r w'. r_expire C k e w = (r, w') \<longrightarrow> less_kept V w w') \<and>
     (\<forall>k w r w'. r_hgetall C k w = (r, w') \<longrightarrow> less_kept V w w' \<and>
        (\<forall>d. r = Inr d \<longrightarrow> dict_wf d \<and> map_of d \<subseteq>\<^sub>m hashes V w k)) \<and>
     (\<forall>k d w r w'. r_hset C k d w = (r, w') \<longrightarrow> strings V w' \<subseteq>\<^sub>m strings V w \<and>
        (\<forall>j. hashes V w' j \<subseteq>\<^sub>m (if j = k then hashes V w j ++ map_of (rev d) else hashes V w j) \<or> hashes V w' j \<subseteq>\<^sub>m hashes V w j)) \<and>
     (\<forall>k ks w r w'. r_hdel C k ks w = (r, w') \<longrightarrow> less_kept V w w')"

text \<open>A server that keeps nothing.\<close>

definition idle_redis :: "'w redis_client" where
  "idle_redis = \<lparr>r_get = (\<lambda>_. ret None), r_set = (\<lambda>_ _ _. ret ()), r_delete = (\<lambda>_. ret ()), r_exists = (\<lambda>_. ret 0),
     r_expire = (\<lambda>_ _. ret ()), r_hgetall = (\<lambda>_. ret []), r_hset = (\<lambda>_ _. ret ()), r_hdel = (\<lambda>_ _. ret ()),
     r_aclose = ret ()\<rparr>"

lemma idle_redis_laws: "redis_laws idle_redis \<lparr>strings = \<lambda>_. Map.empty, hashes = \<lambda>_ _. Map.empty\<rparr>"
  by (simp add: redis_laws_def idle_redis_def less_kept_def ret_def dict_wf_def)

lemma r_getD: "redis_laws C V \<Longrightarrow> r_get C k w = (r, w') \<Longrightarrow> less_kept V w w'"
  and r_get_value: "redis_laws C V \<Longrightarrow> r_get C k w = (Inr (Some x), w') \<Longrightarrow> strings V w k = Some x"
  unfolding redis_laws_def by simp_all

lemma r_setD: "redis_laws C V \<Longrightarrow> r_set C k v e w = (r, w') \<Longrightarrow>
    strings V w' \<subseteq>\<^sub>m (strings V w)(k \<mapsto> v) \<or> strings V w' \<subseteq>\<^sub>m strings V w"
  and r_set_hashes: "redis_laws C V \<Longrightarrow> r_set C k v e w = (r, w') \<Longrightarrow> hashes V w' j \<subseteq>\<^sub>m hashes V w j"
  unfolding redis_laws_def by simp_all

lemma r_expireD: "redis_laws C V \<Longrightarrow> r_expire C k e w = (r, w') \<Longrightarrow> less_kept V w w'"
  and r_hdelD: "redis_laws C V \<Longrightarrow> r_hdel C k ks w = (r, w') \<Longrightarrow> less_kept V w w'"
  and r_hgetallD: "redis_laws C V \<Longrightarrow> r_hgetall C k w = (q, w') \<Longrightarrow> less_kept V w w'"
  and r_hgetall_value: "redis_laws C V \<Longrightarrow> r_hgetall C k w = (Inr d, w') \<Longrightarrow> dict_wf d \<and> map_of d \<subseteq>\<^sub>m hashes V w k"
  unfolding redis_laws_def by simp_all

lemma r_hsetD: "redis_laws C V \<Longrightarrow> r_hset C k d w = (r, w') \<Longrightarrow> strings V w' \<subseteq>\<^sub>m strings V w"
  and r_hset_hashes: "redis_laws C V \<Longrightarrow> r_hset C k d w = (r, w') \<Longrightarrow>
    hashes V w' j \<subseteq>\<^sub>m (if j = k then hashes V w j ++ map_of (rev d) else hashes V w j) \<or> hashes V w' j \<subseteq>\<^sub>m hashes V w j"
  unfolding redis_laws_def by simp_all

lemma map_leI: "(\<And>k v. f k = Some v \<Longrightarrow> g k = Some v) \<Longrightarrow> f \<subseteq>\<^sub>m g"
  by (force simp: map_le_def)

lemma map_leD: "f \<subseteq>\<^sub>m g \<Longrightarrow> f k = Some v \<Longrightarrow> g k = Some v"
  by (force simp: map_le_def)

section \<open>A store of JSON values\<close>

text \<open>The contract of the helpers: what is read was stored before, by anyone.\<close>

locale json_store =
  fixes getj :: "'d \<Rightarrow> pystr \<Rightarrow> ('s, exn, pyval) prog"
    and setj :: "'d \<Rightarrow> pystr \<Rightarrow> pyval \<Rightarrow> int option \<Rightarrow> ('s, exn, unit) prog"
    and stored :: "'d \<Rightarrow> 's \<Rightarrow> pystr \<rightharpoonup> pyval"
    and ok :: "'d \<Rightarrow> bool"
    and plain :: "pyval \<Rightarrow> bool"
  assumes getj_stored: "ok d \<Longrightarrow> getj d k s = (Inr v, s') \<Longrightarrow> v = VNone \<or> stored d s k = Some v"
    and getj_keeps: "ok d \<Longrightarrow> getj d k s = (r, s') \<Longrightarrow> stored d s' \<subseteq>\<^sub>m stored d s"
    and setj_stores: "ok d \<Longrightarrow> plain v \<Longrightarrow> setj d k v e s = (q, s') \<Longrightarrow>
      stored d s' \<subseteq>\<^sub>m (stored d s)(k \<mapsto> v) \<or> stored d s' \<subseteq>\<^sub>m stored d s"
begin

definition all_stored :: "'d \<Rightarrow> (pystr \<Rightarrow> pyval \<Rightarrow> bool) \<Rightarrow> 's \<Rightarrow> bool" where
  "all_stored d P s \<longleftrightarrow> (\<forall>k v. stored d s k = Some v \<longrightarrow> P k v)"

lemma all_stored_get:
  assumes "ok d" and "all_stored d P s" and "getj d k s = (r, s')"
  shows "all_stored d P s' \<and> (\<forall>v. r = Inr v \<longrightarrow> v = VNone \<or> P k v)"
  using getj_keeps [OF assms(1,3)] getj_stored [OF assms(1), of k s _ s'] assms(2,3)
  unfolding all_stored_def map_le_def by (metis domI)

lemma all_stored_set:
  assumes "ok d" and "all_stored d P s" and "setj d k v e s = (r, s')" and "plain v" and "P k v"
  shows "all_stored d P s'"
proof -
  have "stored d s' j = Some x \<Longrightarrow> P j x" for j x
    using setj_stores [OF assms(1,4,3)] assms(2,5) unfolding all_stored_def map_le_def
    by (metis domI fun_upd_apply option.inject)
  then show ?thesis by (simp add: all_stored_def)
qed

end

definition stored_json :: "'w redis_client \<times> 'w redis_view \<Rightarrow> 'w redis_state \<Rightarrow> pystr \<rightharpoonup> pyval" where
  "stored_json d s k = Option.bind (strings (snd d) (world s) k) loads"

definition json_value :: "pyval \<Rightarrow> bool" where
  "json_value v \<longleftrightarrow> json_ok v \<and> json_plain v"

lemma stored_json_mono: "strings V (world s') \<subseteq>\<^sub>m strings V (world s) \<Longrightarrow> stored_json (C, V) s' \<subseteq>\<^sub>m stored_json (C, V) s"
  by (auto simp: stored_json_def map_le_def bind_eq_Some_conv dom_def)

lemma command_run:
  "command m s = (r, s') \<Longrightarrow> (client s = None \<and> r = Inl not_initialized \<and> s' = s) \<or>
    (client s \<noteq> None \<and> client s' = client s \<and> m (world s) = (r, world s'))"
  by (auto simp: command_def in_world_def prog_defs split: option.splits prod.splits)

lemma get_json_stored:
  assumes "redis_laws (fst d) (snd d)" and "get_json (fst d) k s = (Inr v, s')"
  shows "v = VNone \<or> stored_json d s k = Some v"
proof -
  obtain q s1 where g: "get (fst d) k s = (q, s1)" by (cases "get (fst d) k s")
  show ?thesis
  proof (cases "\<exists>t. q = Inr (Some t)")
    case True
    then obtain t where t: "q = Inr (Some t)" by blast
    with g have "r_get (fst d) k (world s) = (Inr (Some t), world s1)"
      unfolding get_def by (auto dest: command_run)
    then have "strings (snd d) (world s) k = Some t" by (rule r_get_value [OF assms(1)])
    with assms(2) g t show ?thesis
      by (auto simp: get_json_def stored_json_def prog_defs split: if_splits option.splits)
  next
    case False
    with assms(2) g show ?thesis
      by (auto simp: get_json_def prog_defs split: option.splits sum.splits)
  qed
qed

lemma get_json_keeps:
  assumes "redis_laws (fst d) (snd d)" and "get_json (fst d) k s = (r, s')"
  shows "stored_json d s' \<subseteq>\<^sub>m stored_json d s"
proof -
  obtain q s1 where g: "get (fst d) k s = (q, s1)" by (cases "get (fst d) k s")
  with assms(2) have "s' = s1"
    by (auto simp: get_json_def prog_defs split: option.splits sum.splits if_splits)
  moreover have "strings (snd d) (world s1) \<subseteq>\<^sub>m strings (snd d) (world s)"
    using g r_getD [OF assms(1), of k "world s" q "world s1"]
    unfolding get_def less_kept_def by (auto dest!: command_run)
  ultimately show ?thesis using stored_json_mono by (cases d) auto
qed

lemma set_json_stores:
  assumes "redis_laws (fst d) (snd d)" and "json_value v" and "set_json (fst d) k v e s = (r, s')"
  shows "stored_json d s' \<subseteq>\<^sub>m (stored_json d s)(k \<mapsto> v) \<or> stored_json d s' \<subseteq>\<^sub>m stored_json d s"
proof (cases "dumps False v")
  case None
  with assms(3) show ?thesis by (simp add: set_json_def prog_defs)
next
  case (Some t)
  with assms(2) have read: "loads t = Some v"
    using json_strict.decode_encode json_norm_plain by (simp add: json_value_def)
  from Some assms(3) have "command (r_set (fst d) k t e) s = (r, s')" by (simp add: set_json_def set_value_def)
  then consider "s' = s" | "r_set (fst d) k t e (world s) = (r, world s')" by (auto dest: command_run)
  then show ?thesis
  proof cases
    case 2
    then consider "strings (snd d) (world s') \<subseteq>\<^sub>m (strings (snd d) (world s))(k \<mapsto> t)"
      | "strings (snd d) (world s') \<subseteq>\<^sub>m strings (snd d) (world s)"
      using r_setD [OF assms(1)] by blast
    then show ?thesis
    proof cases
      case 1
      then have "stored_json d s' j = Some x \<Longrightarrow> ((stored_json d s)(k \<mapsto> v)) j = Some x" for j x
        using read by (auto simp: stored_json_def map_le_def bind_eq_Some_conv dom_def split: if_splits)
      then show ?thesis by (blast intro: map_leI)
    next
      case 2
      then show ?thesis using stored_json_mono by (cases d) auto
    qed
  qed simp
qed

interpretation redis: json_store "\<lambda>d. get_json (fst d)" "\<lambda>d. set_json (fst d)" stored_json "\<lambda>d. redis_laws (fst d) (snd d)" json_value
  by unfold_locales (fact get_json_stored get_json_keeps set_json_stores)+

end
