(* ===== verification/Values.thy ===== *)
theory Values imports AuthContext Numbers begin

text \<open>
  What the components do with JSON values of other services: reading a field, iterating, formatting, comparing;
  with the exceptions Python raises when the value is of another kind.
\<close>

definition key_error :: "pystr \<Rightarrow> exn" where
  "key_error k = Builtin ''KeyError'' k"

definition type_error :: exn where
  "type_error = Builtin ''TypeError'' (u ''wrong type of object'')"

definition attribute_error :: exn where
  "attribute_error = Builtin ''AttributeError'' (u ''object has no such attribute'')"

text \<open>\<open>d[k]\<close> of a dictionary, \<open>v[k]\<close> of any value, \<open>v.get(k)\<close> and \<open>v.items()\<close>.\<close>

definition read_key :: "(pystr, pyval) dict \<Rightarrow> pystr \<Rightarrow> exn + pyval" where
  "read_key d k = (case map_of d k of None \<Rightarrow> Inl (key_error k) | Some v \<Rightarrow> Inr v)"

fun item_of :: "pyval \<Rightarrow> pystr \<Rightarrow> exn + pyval" where
  "item_of (VDict d) k = read_key d k"
| "item_of _ k = Inl type_error"

fun get_of :: "pyval \<Rightarrow> pystr \<Rightarrow> exn + pyval" where
  "get_of (VDict d) k = Inr (get_or_none d k)"
| "get_of _ k = Inl attribute_error"

fun items_of :: "pyval \<Rightarrow> exn + (pystr \<times> pyval) list" where
  "items_of (VDict d) = Inr d"
| "items_of _ = Inl attribute_error"

fun hashable :: "pyval \<Rightarrow> bool" where
  "hashable (VList _) \<longleftrightarrow> False"
| "hashable (VDict _) \<longleftrightarrow> False"
| "hashable _ \<longleftrightarrow> True"

text \<open>\<open>str(v)\<close>; how a container prints is left to \<open>repr\<close>.\<close>

fun py_str :: "(pyval \<Rightarrow> pystr) \<Rightarrow> pyval \<Rightarrow> pystr" where
  "py_str repr VNone = u ''None''"
| "py_str repr (VBool b) = (if b then u ''True'' else u ''False'')"
| "py_str repr (VInt i) = str_int i"
| "py_str repr (VFloat f) = f"
| "py_str repr (VStr s) = s"
| "py_str repr (VBytes b) = str_bytes b"
| "py_str repr (VOther (Some t)) = t"
| "py_str repr v = repr v"

text \<open>\<open>v == n\<close> for an integer.\<close>

fun equals_int :: "pyval \<Rightarrow> int \<Rightarrow> bool" where
  "equals_int (VInt i) n \<longleftrightarrow> i = n"
| "equals_int (VBool b) n \<longleftrightarrow> n = (if b then 1 else 0)"
| "equals_int (VFloat f) n \<longleftrightarrow> f \<notin> {u ''NaN'', u ''Infinity'', u ''-Infinity''} \<and> float_value f = of_int n"
| "equals_int _ n \<longleftrightarrow> False"

text \<open>A list comprehension whose body may raise, and a loop over a list.\<close>

fun traverse :: "('a \<Rightarrow> exn + 'b) \<Rightarrow> 'a list \<Rightarrow> exn + 'b list" where
  "traverse f [] = Inr []"
| "traverse f (x # xs) = (case f x of Inl e \<Rightarrow> Inl e
     | Inr y \<Rightarrow> (case traverse f xs of Inl e \<Rightarrow> Inl e | Inr ys \<Rightarrow> Inr (y # ys)))"

lemma traverse_set: "traverse f xs = Inr ys \<Longrightarrow> y \<in> set ys \<Longrightarrow> \<exists>x \<in> set xs. f x = Inr y"
  by (induction xs arbitrary: ys) (auto split: sum.splits)

lemma str_int_inject [simp]: "str_int i = str_int j \<longleftrightarrow> i = j"
proof -
  have "hd (digits n) \<noteq> 45" for n using digits_are_digits [of n] by (cases "digits n") (auto simp: is_digit_def)
  then have "45 # a \<noteq> digits n" for a n by (metis list.sel(1))
  then show ?thesis by (auto simp: str_int_def dest: sym)
qed

end
