(* ===== verification/UniCache.thy ===== *)
theory UniCache imports RedisManager Values begin

text \<open>
  \<open>redis/uni_cache.py\<close>: the cache of the departments of the universities service. The service is reached through an
  interface (\<open>uni_api\<close>); Redis through the manager.
\<close>

section \<open>The parts\<close>

record 'w uni_api =
  api_department :: "int \<Rightarrow> ('w, exn, pyval) prog"
  api_by_ids :: "int list \<Rightarrow> ('w, exn, pyval) prog"
  api_by_universities :: "int list \<Rightarrow> ('w, exn, pyval) prog"
  api_by_school :: "int \<Rightarrow> ('w, exn, pyval) prog"
  py_repr :: "pyval \<Rightarrow> pystr"

definition CACHE_TTL :: int where
  "CACHE_TTL = 3600"

definition dept_key :: "'w uni_api \<Rightarrow> pyval \<Rightarrow> pystr" where
  "dept_key A i = u ''department:'' @ py_str (py_repr A) i"

definition school_key :: "int \<Rightarrow> pystr" where
  "school_key i = u ''school_departments:'' @ str_int i"

definition UNI_HASH_KEY :: pystr where
  "UNI_HASH_KEY = u ''department_university_map''"

type_synonym departments = "(pyval, pyval) dict"

section \<open>The map from departments to universities\<close>

definition has_university :: "pyval \<Rightarrow> exn + bool" where
  "has_university dep = (case get_of dep (u ''university_id'') of Inl e \<Rightarrow> Inl e | Inr v \<Rightarrow> Inr (truthy v))"

text \<open>\<open>[f(dep) for dep in departments if dep.get("university_id")]\<close>.\<close>

fun for_universities :: "(pyval \<Rightarrow> exn + 'a) \<Rightarrow> pyval list \<Rightarrow> exn + 'a list" where
  "for_universities f [] = Inr []"
| "for_universities f (dep # deps) = (case has_university dep of
     Inl e \<Rightarrow> Inl e
   | Inr False \<Rightarrow> for_universities f deps
   | Inr True \<Rightarrow> (case f dep of Inl e \<Rightarrow> Inl e
       | Inr x \<Rightarrow> (case for_universities f deps of Inl e \<Rightarrow> Inl e | Inr xs \<Rightarrow> Inr (x # xs))))"

definition university_of :: "pyval \<Rightarrow> exn + pyval" where
  "university_of dep = (case item_of dep (u ''university_id'') of
     Inl e \<Rightarrow> Inl e | Inr v \<Rightarrow> (if hashable v then Inr v else Inl type_error))"

definition int_text :: "pystr \<Rightarrow> exn + int" where
  "int_text s = int_value (VStr s)"

fun stale_fields :: "pyval list \<Rightarrow> (pystr, pystr) dict \<Rightarrow> exn + pystr list" where
  "stale_fields unis [] = Inr []"
| "stale_fields unis ((f, n) # d) = (case int_text n of
     Inl e \<Rightarrow> Inl e
   | Inr n \<Rightarrow> (case stale_fields unis d of Inl e \<Rightarrow> Inl e
       | Inr fs \<Rightarrow> Inr (if list_ex (\<lambda>v. equals_int v n) unis then f # fs else fs)))"

definition map_entry :: "'w uni_api \<Rightarrow> pyval \<Rightarrow> exn + pystr \<times> pystr" where
  "map_entry A dep = (case item_of dep (u ''id'') of Inl e \<Rightarrow> Inl e
   | Inr i \<Rightarrow> (case item_of dep (u ''university_id'') of Inl e \<Rightarrow> Inl e
     | Inr n \<Rightarrow> Inr (py_str (py_repr A) i, py_str (py_repr A) n)))"

definition update_department_university_map ::
  "'w redis_client \<Rightarrow> 'w uni_api \<Rightarrow> pyval list \<Rightarrow> ('w redis_state, exn, unit) prog" where
  "update_department_university_map C A departments =
     (if departments = [] then ret ()
      else bindM (liftE (for_universities university_of departments)) (\<lambda>unis.
        bindM (hgetall C UNI_HASH_KEY) (\<lambda>existing.
        bindM (liftE (stale_fields unis existing)) (\<lambda>to_delete.
        thenM (if to_delete = [] then ret () else hdel C UNI_HASH_KEY to_delete)
       (bindM (liftE (for_universities (map_entry A) departments)) (\<lambda>entries.
        thenM (hset C UNI_HASH_KEY (dict_of entries))
          (expire_key C UNI_HASH_KEY (Some CACHE_TTL))))))))"

section \<open>The lookups\<close>

fun read_cached ::
  "'w redis_client \<Rightarrow> 'w uni_api \<Rightarrow> int list \<Rightarrow> departments \<Rightarrow> int list \<Rightarrow> ('w redis_state, exn, departments \<times> int list) prog" where
  "read_cached C A [] deps missing = ret (deps, missing)"
| "read_cached C A (i # ids) deps missing =
     bindM (get_json C (dept_key A (VInt i))) (\<lambda>data.
       if truthy data then read_cached C A ids (AList.update (VInt i) data deps) missing
       else read_cached C A ids deps (missing @ [i]))"

fun store_departments ::
  "'w redis_client \<Rightarrow> 'w uni_api \<Rightarrow> pyval list \<Rightarrow> departments \<Rightarrow> ('w redis_state, exn, departments) prog" where
  "store_departments C A [] deps = ret deps"
| "store_departments C A (dep # ds) deps =
     bindM (liftE (item_of dep (u ''id''))) (\<lambda>i.
       if \<not> hashable i then raise type_error
       else thenM (set_json C (dept_key A i) dep (Some CACHE_TTL))
              (store_departments C A ds (AList.update i dep deps)))"

definition get_departments_by_ids_cached ::
  "'w redis_client \<Rightarrow> 'w uni_api \<Rightarrow> int list \<Rightarrow> ('w redis_state, exn, departments) prog" where
  "get_departments_by_ids_cached C A ids =
     bindM (read_cached C A ids [] []) (\<lambda>(deps, missing).
       if missing = [] then ret deps
       else bindM (in_world (api_by_ids A missing)) (\<lambda>answer.
            bindM (liftE (iter_value answer)) (\<lambda>ds. store_departments C A ds deps)))"

fun mapped_ids :: "int \<Rightarrow> (pystr, pystr) dict \<Rightarrow> exn + int list" where
  "mapped_ids uni [] = Inr []"
| "mapped_ids uni ((f, n) # d) = (case int_text n of
     Inl e \<Rightarrow> Inl e
   | Inr n \<Rightarrow> (if n = uni then (case int_text f of Inl e \<Rightarrow> Inl e
         | Inr i \<Rightarrow> (case mapped_ids uni d of Inl e \<Rightarrow> Inl e | Inr is \<Rightarrow> Inr (i # is)))
       else mapped_ids uni d))"

fun read_universities ::
  "'w redis_client \<Rightarrow> 'w uni_api \<Rightarrow> (pystr, pystr) dict \<Rightarrow> int list \<Rightarrow> departments \<Rightarrow> int list
   \<Rightarrow> ('w redis_state, exn, departments \<times> int list) prog" where
  "read_universities C A m [] deps missing = ret (deps, missing)"
| "read_universities C A m (uni # unis) deps missing =
     bindM (liftE (mapped_ids uni m)) (\<lambda>ids.
       if ids \<noteq> [] then bindM (get_departments_by_ids_cached C A ids) (\<lambda>cached.
         read_universities C A m unis (dict_merge deps cached) missing)
       else read_universities C A m unis deps (missing @ [uni]))"

definition get_departments_by_university_ids_cached ::
  "'w redis_client \<Rightarrow> 'w uni_api \<Rightarrow> int list \<Rightarrow> ('w redis_state, exn, departments) prog" where
  "get_departments_by_university_ids_cached C A unis =
     (if unis = [] then ret []
      else bindM (hgetall C UNI_HASH_KEY) (\<lambda>m.
        bindM (read_universities C A m unis [] []) (\<lambda>(deps, missing).
          if missing = [] then ret deps
          else bindM (in_world (api_by_universities A missing)) (\<lambda>answer.
               bindM (liftE (iter_value answer)) (\<lambda>ds.
               bindM (store_departments C A ds deps) (\<lambda>deps.
               thenM (update_department_university_map C A ds) (ret deps)))))))"

definition cached_entry :: "pystr \<times> pyval \<Rightarrow> exn + pyval \<times> pyval" where
  "cached_entry kd = (case int_text (fst kd) of Inl e \<Rightarrow> Inl e | Inr i \<Rightarrow> Inr (VInt i, snd kd))"

definition api_entry :: "pyval \<Rightarrow> exn + int \<times> pyval" where
  "api_entry dep = (case item_of dep (u ''id'') of Inl e \<Rightarrow> Inl e
   | Inr v \<Rightarrow> (case int_value v of Inl e \<Rightarrow> Inl e | Inr i \<Rightarrow> Inr (i, dep)))"

definition get_departments_by_school_id_cached ::
  "'w redis_client \<Rightarrow> 'w uni_api \<Rightarrow> int \<Rightarrow> ('w redis_state, exn, departments) prog" where
  "get_departments_by_school_id_cached C A school =
     bindM (get_json C (school_key school)) (\<lambda>cached.
       if truthy cached then
         bindM (liftE (items_of cached)) (\<lambda>d. bindM (liftE (traverse cached_entry d)) (\<lambda>es. ret (dict_of es)))
       else bindM (in_world (api_by_school A school)) (\<lambda>answer.
            bindM (liftE (iter_value answer)) (\<lambda>ds.
            bindM (liftE (traverse api_entry ds)) (\<lambda>es.
              let m = dict_of es
              in thenM (set_json C (school_key school) (VDict (map (\<lambda>(i, d). (str_int i, d)) m)) (Some CACHE_TTL))
                   (ret (map (\<lambda>(i, d). (VInt i, d)) m))))))"

definition get_department_by_id_cached ::
  "'w redis_client \<Rightarrow> 'w uni_api \<Rightarrow> int \<Rightarrow> ('w redis_state, exn, pyval) prog" where
  "get_department_by_id_cached C A i =
     bindM (get_json C (dept_key A (VInt i))) (\<lambda>data.
       if truthy data then ret data
       else catchM is_Exception
         (bindM (in_world (api_department A i)) (\<lambda>data.
            if truthy data then thenM (set_json C (dept_key A (VInt i)) data (Some CACHE_TTL)) (ret data)
            else ret VNone))
         (\<lambda>_. ret VNone))"

section \<open>What the cache can hold\<close>

text \<open>
  \<open>said i d\<close>: the universities service gave \<open>d\<close> as department \<open>i\<close> at some time. Its answers are JSON, every department
  carries its number, and its calls leave Redis alone.
\<close>

definition list_call :: "'w redis_view \<Rightarrow> (int \<Rightarrow> pyval \<Rightarrow> bool) \<Rightarrow> ('w, exn, pyval) prog \<Rightarrow> bool" where
  "list_call V said call \<longleftrightarrow> (\<forall>w r w'. call w = (r, w') \<longrightarrow> strings V w' \<subseteq>\<^sub>m strings V w \<and>
     (\<forall>v ds. r = Inr v \<and> iter_value v = Inr ds \<longrightarrow> (\<forall>d \<in> set ds. \<exists>i. said i d)))"

definition one_call :: "'w redis_view \<Rightarrow> (pyval \<Rightarrow> bool) \<Rightarrow> ('w, exn, pyval) prog \<Rightarrow> bool" where
  "one_call V P call \<longleftrightarrow> (\<forall>w r w'. call w = (r, w') \<longrightarrow> strings V w' \<subseteq>\<^sub>m strings V w \<and>
     (\<forall>d. r = Inr d \<and> truthy d \<longrightarrow> P d))"

definition numbered :: "int \<Rightarrow> pyval \<Rightarrow> bool" where
  "numbered i d \<longleftrightarrow> item_of d (u ''id'') = Inr (VInt i) \<and> json_value d \<and> length (digits (nat \<bar>i\<bar>)) \<le> max_str_digits"

definition api_laws :: "'w uni_api \<Rightarrow> 'w redis_view \<Rightarrow> (int \<Rightarrow> pyval \<Rightarrow> bool) \<Rightarrow> bool" where
  "api_laws A V said \<longleftrightarrow> (\<forall>i d. said i d \<longrightarrow> numbered i d) \<and> (\<forall>i. one_call V (said i) (api_department A i)) \<and>
     (\<forall>ids. list_call V said (api_by_ids A ids)) \<and> (\<forall>ids. list_call V said (api_by_universities A ids)) \<and>
     (\<forall>j. list_call V said (api_by_school A j))"

text \<open>The entries of the cache: a department under its own number, and the departments of a school by number.\<close>

definition entry_ok :: "'w uni_api \<Rightarrow> (int \<Rightarrow> pyval \<Rightarrow> bool) \<Rightarrow> pystr \<Rightarrow> pyval \<Rightarrow> bool" where
  "entry_ok A said k v \<longleftrightarrow> (\<forall>i. k = dept_key A (VInt i) \<longrightarrow> said i v) \<and>
     (\<forall>j. k = school_key j \<longrightarrow> (\<exists>m. v = VDict m \<and> (\<forall>(key, d) \<in> set m. \<exists>i. key = str_int i \<and> said i d)))"

definition cache_ok :: "'w redis_client \<Rightarrow> 'w redis_view \<Rightarrow> 'w uni_api \<Rightarrow> (int \<Rightarrow> pyval \<Rightarrow> bool) \<Rightarrow> 'w redis_state \<Rightarrow> bool" where
  "cache_ok C V A said s \<longleftrightarrow> (\<forall>k v. stored_json (C, V) s k = Some v \<longrightarrow> entry_ok A said k v)"

definition all_said :: "(int \<Rightarrow> pyval \<Rightarrow> bool) \<Rightarrow> departments \<Rightarrow> bool" where
  "all_said said deps \<longleftrightarrow> (\<forall>(k, d) \<in> set deps. \<exists>i. k = VInt i \<and> said i d)"

lemma dept_key_int [simp]: "dept_key A (VInt i) = dept_key A (VInt j) \<longleftrightarrow> i = j"
  by (simp add: dept_key_def)

lemma keys_differ [simp]: "dept_key A (VInt i) \<noteq> school_key j" "school_key j \<noteq> dept_key A (VInt i)"
  by (simp_all add: dept_key_def school_key_def u_def)

lemma school_key_inject [simp]: "school_key i = school_key j \<longleftrightarrow> i = j"
  by (simp add: school_key_def)

lemma entry_ok_dept: "entry_ok A said (dept_key A (VInt i)) v \<longleftrightarrow> said i v"
  by (auto simp: entry_ok_def)

lemma all_said_Nil [simp]: "all_said said []"
  by (simp add: all_said_def)

lemma set_update: "set (AList.update k v d) \<subseteq> insert (k, v) (set d)"
  by (induction d) auto

lemma all_said_update: "all_said said deps \<Longrightarrow> said i d \<Longrightarrow> all_said said (AList.update (VInt i) d deps)"
  using set_update [of "VInt i" d deps] by (fastforce simp: all_said_def)

lemma all_said_merge: "all_said said a \<Longrightarrow> all_said said b \<Longrightarrow> all_said said (dict_merge a b)"
  unfolding dict_merge_def
  by (induction b arbitrary: a) (auto simp: all_said_def [of _ "_ # _"] all_said_update simp flip: all_said_def)

definition served :: "'w redis_client \<Rightarrow> 'w redis_view \<Rightarrow> 'w uni_api \<Rightarrow> (int \<Rightarrow> pyval \<Rightarrow> bool) \<Rightarrow> bool" where
  "served C V A said \<longleftrightarrow> redis_laws C V \<and> api_laws A V said"

lemma cache_ok_all: "cache_ok C V A said = redis.all_stored (C, V) (entry_ok A said)"
  by (auto simp: cache_ok_def redis.all_stored_def fun_eq_iff)

lemma cache_ok_mono: "cache_ok C V A said s \<Longrightarrow> strings V (world s') \<subseteq>\<^sub>m strings V (world s) \<Longrightarrow> cache_ok C V A said s'"
  using stored_json_mono [of V s' s C] unfolding cache_ok_def by (metis map_leD)

lemma get_keeps:
  "served C V A said \<Longrightarrow> maintains (cache_ok C V A said) (get_json C k) (\<lambda>v. v = VNone \<or> entry_ok A said k v)"
  using redis.all_stored_get [of "(C, V)" "entry_ok A said" _ k]
  by (intro maintainsI) (simp add: cache_ok_all served_def)

lemma set_keeps:
  "served C V A said \<Longrightarrow> entry_ok A said k v \<Longrightarrow> json_value v \<Longrightarrow>
   maintains (cache_ok C V A said) (set_json C k v e) (\<lambda>_. True)"
  using redis.all_stored_set [of "(C, V)" "entry_ok A said" _ k v e]
  by (intro maintainsI) (simp add: cache_ok_all served_def)

lemma command_keeps:
  assumes "\<And>w r w'. m w = (r, w') \<Longrightarrow> strings V w' \<subseteq>\<^sub>m strings V w"
  shows "maintains (cache_ok C V A said) (command m) (\<lambda>_. True)"
proof (rule maintainsI)
  fix s r s'
  assume s: "cache_ok C V A said s" and "command m s = (r, s')"
  then consider "s' = s" | "m (world s) = (r, world s')" by (blast dest: command_run)
  then show "cache_ok C V A said s' \<and> (\<forall>v. r = Inr v \<longrightarrow> True)"
    by cases (use s assms cache_ok_mono [OF s] in auto)
qed

lemma world_keeps:
  assumes "\<And>w r w'. m w = (r, w') \<Longrightarrow> strings V w' \<subseteq>\<^sub>m strings V w \<and> (\<forall>v. r = Inr v \<longrightarrow> Q v)"
  shows "maintains (cache_ok C V A said) (in_world m) Q"
proof (rule maintainsI)
  fix s r s'
  assume s: "cache_ok C V A said s" and "in_world m s = (r, s')"
  then have "m (world s) = (r, world s')" by (auto simp: in_world_def split: prod.splits)
  from assms [OF this] cache_ok_mono [OF s] show "cache_ok C V A said s' \<and> (\<forall>v. r = Inr v \<longrightarrow> Q v)" by blast
qed

lemma list_call_keeps:
  assumes "list_call V said call"
  shows "maintains (cache_ok C V A said) (in_world call) (\<lambda>v. \<forall>ds. iter_value v = Inr ds \<longrightarrow> (\<forall>d \<in> set ds. \<exists>i. said i d))"
  using assms by (intro world_keeps) (simp add: list_call_def)

lemma one_call_keeps:
  assumes "one_call V P call"
  shows "maintains (cache_ok C V A said) (in_world call) (\<lambda>d. truthy d \<longrightarrow> P d)"
  using assms by (intro world_keeps) (simp add: one_call_def)

lemma servedD:
  assumes "served C V A said"
  shows "redis_laws C V" and "said i d \<Longrightarrow> numbered i d" and "one_call V (said i) (api_department A i)"
    and "list_call V said (api_by_ids A ids)" and "list_call V said (api_by_universities A ids)"
    and "list_call V said (api_by_school A j)"
  using assms by (simp_all add: served_def api_laws_def)

lemma read_cached_keeps:
  assumes "served C V A said"
  shows "all_said said deps \<Longrightarrow> maintains (cache_ok C V A said) (read_cached C A ids deps missing) (\<lambda>(deps, _). all_said said deps)"
proof (induction ids arbitrary: deps missing)
  case (Cons i ids)
  show ?case
    unfolding read_cached.simps
  proof (rule maintains_bind [OF get_keeps [OF assms]], rule maintains_if)
    fix v
    assume "v = VNone \<or> entry_ok A said (dept_key A (VInt i)) v" "truthy v"
    then have "said i v" by (auto simp: entry_ok_dept)
    with Cons show "maintains (cache_ok C V A said) (read_cached C A ids (AList.update (VInt i) v deps) missing) (\<lambda>(deps, _). all_said said deps)"
      by (intro Cons.IH all_said_update)
  qed (rule Cons.IH [OF Cons.prems])
qed (simp add: maintains_ret)

lemma store_keeps:
  assumes "served C V A said"
  shows "all_said said deps \<Longrightarrow> \<forall>d \<in> set ds. \<exists>i. said i d \<Longrightarrow>
    maintains (cache_ok C V A said) (store_departments C A ds deps) (all_said said)"
proof (induction ds arbitrary: deps)
  case (Cons d ds)
  then obtain i where i: "said i d" by auto
  with servedD(2) [OF assms] have id: "item_of d (u ''id'') = Inr (VInt i)" "json_value d" by (auto simp: numbered_def)
  have set: "maintains (cache_ok C V A said) (set_json C (dept_key A (VInt i)) d (Some CACHE_TTL)) (\<lambda>_. True)"
    using i id(2) by (intro set_keeps [OF assms]) (simp_all add: entry_ok_dept)
  have rest: "maintains (cache_ok C V A said) (store_departments C A ds (AList.update (VInt i) d deps)) (all_said said)"
    using Cons.prems i by (intro Cons.IH all_said_update) simp_all
  show ?case
    unfolding store_departments.simps
    by (rule maintains_bind [where Q = "\<lambda>k. k = VInt i"]) (auto simp: id(1) intro!: maintains_lift maintains_then [OF set rest])
qed (simp add: maintains_ret)

text \<open>An answer of the service, iterated and stored.\<close>

lemma fetch_keeps:
  assumes "served C V A said" and "list_call V said call"
    and "\<And>ds. \<forall>d \<in> set ds. \<exists>i. said i d \<Longrightarrow> maintains (cache_ok C V A said) (f ds) Q"
  shows "maintains (cache_ok C V A said) (bindM (in_world call) (\<lambda>answer. bindM (liftE (iter_value answer)) f)) Q"
proof (rule maintains_bind [OF list_call_keeps [OF assms(2)]])
  fix v
  assume "\<forall>ds. iter_value v = Inr ds \<longrightarrow> (\<forall>d \<in> set ds. \<exists>i. said i d)"
  then show "maintains (cache_ok C V A said) (bindM (liftE (iter_value v)) f) Q"
    by (intro maintains_bind [where Q = "\<lambda>ds. \<forall>d \<in> set ds. \<exists>i. said i d"] maintains_lift assms(3)) auto
qed

lemma by_ids_keeps:
  assumes "served C V A said"
  shows "maintains (cache_ok C V A said) (get_departments_by_ids_cached C A ids) (all_said said)"
  unfolding get_departments_by_ids_cached_def
proof (rule maintains_bind [OF read_cached_keeps [OF assms all_said_Nil]], clarsimp, intro conjI impI)
  fix deps
  assume "all_said said deps"
  then show "maintains (cache_ok C V A said) (ret deps) (all_said said)" by (rule maintains_ret)
next
  fix deps missing
  assume "all_said said deps"
  then show "maintains (cache_ok C V A said) (bindM (in_world (api_by_ids A missing))
      (\<lambda>answer. bindM (liftE (iter_value answer)) (\<lambda>ds. store_departments C A ds deps))) (all_said said)"
    by (intro fetch_keeps [OF assms servedD(4) [OF assms]] store_keeps [OF assms])
qed

lemma hash_keeps:
  assumes "served C V A said"
  shows "maintains (cache_ok C V A said) (hgetall C k) (\<lambda>_. True)" and "maintains (cache_ok C V A said) (hset C k d) (\<lambda>_. True)"
    and "maintains (cache_ok C V A said) (hdel C k ks) (\<lambda>_. True)" and "maintains (cache_ok C V A said) (expire_key C k e) (\<lambda>_. True)"
  unfolding hgetall_def hset_def hdel_def expire_key_def
  using r_hgetallD [OF servedD(1) [OF assms]] r_hsetD [OF servedD(1) [OF assms]] r_hdelD [OF servedD(1) [OF assms]]
    r_expireD [OF servedD(1) [OF assms]]
  by (auto intro!: command_keeps simp: less_kept_def)

lemma update_map_keeps:
  assumes "served C V A said"
  shows "maintains (cache_ok C V A said) (update_department_university_map C A ds) (\<lambda>_. True)"
  unfolding update_department_university_map_def
  by (auto intro!: maintains_if maintains_ret maintains_bind [OF maintains_lift [where Q = "\<lambda>_. True"]] maintains_bind [OF hash_keeps(1) [OF assms]]
      maintains_then [where Q = "\<lambda>_. True"] hash_keeps [OF assms])

lemma read_universities_keeps:
  assumes "served C V A said"
  shows "all_said said deps \<Longrightarrow>
    maintains (cache_ok C V A said) (read_universities C A m unis deps missing) (\<lambda>(deps, _). all_said said deps)"
proof (induction unis arbitrary: deps missing)
  case (Cons n unis)
  show ?case
    unfolding read_universities.simps
    by (rule maintains_bind [OF maintains_lift [where Q = "\<lambda>_. True"]], simp, rule maintains_if)
      (auto intro!: maintains_bind [OF by_ids_keeps [OF assms]] Cons.IH all_said_merge Cons.prems)
qed (simp add: maintains_ret)

lemma by_universities_keeps:
  assumes "served C V A said"
  shows "maintains (cache_ok C V A said) (get_departments_by_university_ids_cached C A unis) (all_said said)"
proof -
  have tail: "maintains (cache_ok C V A said) (bindM (in_world (api_by_universities A missing)) (\<lambda>answer.
      bindM (liftE (iter_value answer)) (\<lambda>ds. bindM (store_departments C A ds deps) (\<lambda>deps.
        thenM (update_department_university_map C A ds) (ret deps))))) (all_said said)"
    if "all_said said deps" for deps missing
    by (intro fetch_keeps [OF assms servedD(5) [OF assms]])
      (blast intro: maintains_bind [OF store_keeps [OF assms that]] maintains_then [OF update_map_keeps [OF assms]] maintains_ret)
  show ?thesis
    unfolding get_departments_by_university_ids_cached_def
    by (auto intro!: maintains_if maintains_ret maintains_bind [OF hash_keeps(1) [OF assms]]
        maintains_bind [OF read_universities_keeps [OF assms all_said_Nil]] tail split: prod.splits)
qed

lemma int_text_str_int: "length (digits (nat \<bar>i\<bar>)) \<le> max_str_digits \<Longrightarrow> int_text (str_int i) = Inr i"
  by (simp add: int_text_def py_int_str_int)

lemma set_dict_of: "set (dict_of es) \<subseteq> set es"
proof -
  have "set (fold (\<lambda>(k, v). AList.update k v) es d) \<subseteq> set d \<union> set es" for d
    by (induction es arbitrary: d) (use set_update in fastforce)+
  from this [of "[]"] show ?thesis by (simp add: dict_of_def)
qed

lemma digit_scalar: "is_digit c \<Longrightarrow> is_scalar c"
  by (simp add: is_digit_def is_scalar_def is_surrogate_def)

lemma scalar_str_int: "scalar_text (str_int i)"
proof -
  have "list_all is_scalar (digits n)" for n
    using digits_are_digits [of n] by (auto simp: list_all_iff digit_scalar)
  then show ?thesis by (simp add: str_int_def scalar_text_def is_scalar_small)
qed

lemma json_value_map:
  assumes "distinct (map fst m)" and "\<forall>(i, d) \<in> set m. json_value d"
  shows "json_value (VDict (map (\<lambda>(i, d). (str_int i, d)) m))"
proof -
  have "distinct (map str_int (map fst m))"
    using assms(1) by (simp add: distinct_map inj_on_def)
  then have "dict_wf (map (\<lambda>(i, d). (str_int i, d)) m)" by (simp add: dict_wf_def case_prod_beta comp_def)
  with assms(2) show ?thesis by (auto simp: json_value_def scalar_str_int)
qed

lemma by_school_keeps:
  assumes "served C V A said"
  shows "maintains (cache_ok C V A said) (get_departments_by_school_id_cached C A j) (all_said said)"
  unfolding get_departments_by_school_id_cached_def
proof (rule maintains_bind [OF get_keeps [OF assms]], rule maintains_if)
  fix v
  assume "v = VNone \<or> entry_ok A said (school_key j) v" and "truthy v"
  then obtain m where m: "v = VDict m" "\<forall>(key, d) \<in> set m. \<exists>i. key = str_int i \<and> said i d"
    by (auto simp: entry_ok_def)
  have "all_said said (dict_of es)" if es: "traverse cached_entry m = Inr es" for es
  proof -
    have "\<exists>i. fst e = VInt i \<and> said i (snd e)" if e: "e \<in> set es" for e
    proof -
      from traverse_set [OF es e] obtain kd where kd: "kd \<in> set m" "cached_entry kd = Inr e" by blast
      with m(2) obtain i where i: "fst kd = str_int i" "said i (snd kd)" by fastforce
      with servedD(2) [OF assms, of i] have "int_text (fst kd) = Inr i" by (simp add: numbered_def int_text_str_int)
      with kd(2) i show ?thesis by (auto simp: cached_entry_def)
    qed
    then show ?thesis using set_dict_of [of es] by (fastforce simp: all_said_def)
  qed
  then show "maintains (cache_ok C V A said) (bindM (liftE (items_of v)) (\<lambda>d. bindM (liftE (traverse cached_entry d)) (\<lambda>es. ret (dict_of es))))
      (all_said said)"
    by (intro maintains_bind [where Q = "\<lambda>d. d = m"] maintains_bind [where Q = "\<lambda>es. all_said said (dict_of es)"] maintains_lift maintains_ret)
      (auto simp: m(1))
next
  have entries: "\<forall>(i, d) \<in> set es. said i d" if ds: "\<forall>d \<in> set ds. \<exists>i. said i d" and es: "traverse api_entry ds = Inr es" for ds es
  proof -
    have "said (fst e) (snd e)" if e: "e \<in> set es" for e
    proof -
      from traverse_set [OF es e] obtain d where d: "d \<in> set ds" "api_entry d = Inr e" by blast
      with ds obtain i where "said i d" by blast
      with d(2) servedD(2) [OF assms, of i] show ?thesis by (auto simp: api_entry_def numbered_def)
    qed
    then show ?thesis by auto
  qed
  have store: "maintains (cache_ok C V A said) (let m = dict_of es
      in thenM (set_json C (school_key j) (VDict (map (\<lambda>(i, d). (str_int i, d)) m)) (Some CACHE_TTL))
           (ret (map (\<lambda>(i, d). (VInt i, d)) m))) (all_said said)" if es: "\<forall>(i, d) \<in> set es. said i d" for es
  proof -
    let ?m = "dict_of es"
    have m: "\<forall>(i, d) \<in> set ?m. said i d" using es set_dict_of [of es] by blast
    have "json_value (VDict (map (\<lambda>(i, d). (str_int i, d)) ?m))"
      using m servedD(2) [OF assms] dict_wf_dict_of [of es]
      by (intro json_value_map) (auto simp: dict_wf_def numbered_def)
    moreover have "entry_ok A said (school_key j) (VDict (map (\<lambda>(i, d). (str_int i, d)) ?m))"
      using m by (auto simp: entry_ok_def)
    ultimately show ?thesis
      using m unfolding Let_def
      by (intro maintains_then [OF set_keeps [OF assms]] maintains_ret) (auto simp: all_said_def)
  qed
  show "maintains (cache_ok C V A said) (bindM (in_world (api_by_school A j)) (\<lambda>answer. bindM (liftE (iter_value answer)) (\<lambda>ds.
      bindM (liftE (traverse api_entry ds)) (\<lambda>es. let m = dict_of es
        in thenM (set_json C (school_key j) (VDict (map (\<lambda>(i, d). (str_int i, d)) m)) (Some CACHE_TTL))
             (ret (map (\<lambda>(i, d). (VInt i, d)) m)))))) (all_said said)"
    by (rule fetch_keeps [OF assms servedD(6) [OF assms]], rule maintains_bind [where Q = "\<lambda>es. \<forall>(i, d) \<in> set es. said i d"],
        rule maintains_lift, rule entries, assumption, assumption, rule store)
qed

lemma one_keeps:
  assumes "served C V A said"
  shows "maintains (cache_ok C V A said) (get_department_by_id_cached C A i) (\<lambda>d. d = VNone \<or> said i d)"
  unfolding get_department_by_id_cached_def
proof (rule maintains_bind [OF get_keeps [OF assms]], rule maintains_if)
  fix v
  assume "v = VNone \<or> entry_ok A said (dept_key A (VInt i)) v" and "truthy v"
  then show "maintains (cache_ok C V A said) (ret v) (\<lambda>d. d = VNone \<or> said i d)"
    by (intro maintains_ret) (auto simp: entry_ok_dept)
next
  have "maintains (cache_ok C V A said) (if truthy d then thenM (set_json C (dept_key A (VInt i)) d (Some CACHE_TTL)) (ret d) else ret VNone)
      (\<lambda>d. d = VNone \<or> said i d)" if "truthy d \<longrightarrow> said i d" for d
    using that servedD(2) [OF assms, of i d]
    by (intro maintains_if maintains_then [OF set_keeps [OF assms]] maintains_ret) (auto simp: entry_ok_dept numbered_def)
  then show "maintains (cache_ok C V A said) (catchM is_Exception
      (bindM (in_world (api_department A i)) (\<lambda>data.
         if truthy data then thenM (set_json C (dept_key A (VInt i)) data (Some CACHE_TTL)) (ret data) else ret VNone))
      (\<lambda>_. ret VNone)) (\<lambda>d. d = VNone \<or> said i d)"
    by (intro maintains_catch maintains_bind [OF one_call_keeps [OF servedD(3) [OF assms]]] maintains_ret) auto
qed

lemma maintains_case: "maintains I m Q \<Longrightarrow> I s \<Longrightarrow> case m s of (r, s') \<Rightarrow> I s' \<and> (\<forall>v. r = Inr v \<longrightarrow> Q v)"
  using maintainsD [of I m Q s "fst (m s)" "snd (m s)"] by (simp add: case_prod_beta)

section \<open>The cache is sound\<close>


text \<open>A server that is one map of strings and one of hashes, and a service with one department.\<close>

definition example_redis :: "((pystr \<rightharpoonup> pystr) \<times> (pystr \<Rightarrow> pystr \<rightharpoonup> pystr)) redis_client" where
  "example_redis = \<lparr>r_get = (\<lambda>k w. (Inr (fst w k), w)), r_set = (\<lambda>k v e w. (Inr (), ((fst w)(k \<mapsto> v), snd w))),
     r_delete = (\<lambda>k w. (Inr (), ((fst w)(k := None), snd w))), r_exists = (\<lambda>k w. (Inr (if fst w k = None then 0 else 1), w)),
     r_expire = (\<lambda>k e. ret ()), r_hgetall = (\<lambda>k. ret []),
     r_hset = (\<lambda>k d w. (Inr (), (fst w, (snd w)(k := snd w k ++ map_of (rev d))))),
     r_hdel = (\<lambda>k ks w. (Inr (), (fst w, (snd w)(k := snd w k |` (- set ks))))), r_aclose = ret ()\<rparr>"

definition example_view :: "((pystr \<rightharpoonup> pystr) \<times> (pystr \<Rightarrow> pystr \<rightharpoonup> pystr)) redis_view" where
  "example_view = \<lparr>strings = fst, hashes = snd\<rparr>"

lemma restrict_le: "m |` X \<subseteq>\<^sub>m m"
  by (auto simp: map_le_def restrict_map_def)

lemma example_redis_laws: "redis_laws example_redis example_view"
  unfolding redis_laws_def
  apply (intro conjI allI impI)
                apply (simp_all only: example_redis_def example_view_def redis_client.simps redis_view.simps
      less_kept_def ret_def prod.inject)
                apply (elim conjE, hypsubst?, simp add: dict_wf_def restrict_le)+
  done

definition example_department :: pyval where
  "example_department = VDict [(u ''id'', VInt 7), (u ''name'', VStr (u ''Physics''))]"

definition example_said :: "int \<Rightarrow> pyval \<Rightarrow> bool" where
  "example_said i d \<longleftrightarrow> i = 7 \<and> d = example_department"

definition example_api :: "'w uni_api" where
  "example_api = \<lparr>api_department = (\<lambda>i. if i = 7 then ret example_department else raise upstream_default),
     api_by_ids = (\<lambda>is. ret (VList (if 7 \<in> set is then [example_department] else []))),
     api_by_universities = (\<lambda>_. ret (VList [example_department])),
     api_by_school = (\<lambda>_. ret (VList [example_department])), py_repr = (\<lambda>_. [])\<rparr>"

lemma example_api_laws: "api_laws example_api V example_said"
  by (auto simp: api_laws_def one_call_def list_call_def example_api_def example_said_def example_department_def
      numbered_def read_key_def json_value_def dict_wf_def digits.simps max_str_digits_def prog_defs split: if_splits)

definition empty_cache :: "((pystr \<rightharpoonup> pystr) \<times> (pystr \<Rightarrow> pystr \<rightharpoonup> pystr)) redis_state" where
  "empty_cache = \<lparr>client = Some \<lparr>redis_host = u ''redis'', redis_port = 6379, redis_password = None, redis_db = 0\<rparr>,
     world = (Map.empty, \<lambda>_. Map.empty)\<rparr>"

lemma empty_cache_ok: "cache_ok example_redis example_view A said empty_cache"
  by (simp add: cache_ok_def stored_json_def example_view_def empty_cache_def)


end
