(* ===== verification/Files.thy ===== *)
theory Files imports Exceptions begin

text \<open>
  The \<open>files\<close> package: the check of a storage key (\<open>keys.py\<close>), the recognition of a file by its first bytes
  (\<open>signatures.py\<close>), the reading in chunks and the temporary files (\<open>streaming.py\<close>).
\<close>

section \<open>Keys below a prefix\<close>

definition plain_segment :: "pystr \<Rightarrow> bool" where
  "plain_segment p \<longleftrightarrow> p \<noteq> [] \<and> p \<noteq> u ''.'' \<and> p \<noteq> u ''..''"

definition is_key_under_prefix :: "pystr \<Rightarrow> pystr \<Rightarrow> bool" where
  "is_key_under_prefix key pre =
     (if \<not> endswith pre (u ''/'') \<or> \<not> startswith key pre then False
      else if contains [92] key \<or> contains (u ''%'') key \<or> list_ex (\<lambda>c. c < 32 \<or> c = 127) key then False
      else list_all plain_segment (split_on 47 key))"

text \<open>How a file system or an HTTP layer may read a path: dot and empty segments are resolved on a stack.\<close>

fun resolve :: "pystr list \<Rightarrow> pystr list \<Rightarrow> pystr list" where
  "resolve stack [] = rev stack"
| "resolve stack (p # ps) =
     (if p = [] \<or> p = u ''.'' then resolve stack ps
      else if p = u ''..'' then resolve (drop 1 stack) ps
      else resolve (p # stack) ps)"

lemma resolve_plain: "list_all plain_segment ps \<Longrightarrow> resolve stack ps = rev stack @ ps"
  by (induction ps arbitrary: stack) (auto simp: plain_segment_def)

lemma contains_single: "contains [c] s \<longleftrightarrow> c \<in> set s"
  by (auto simp: contains_iff in_set_conv_decomp)

text \<open>
  C35. A key that is accepted lies below the prefix however it is read: resolving dot and empty segments changes
  nothing, the segments of the prefix are the first ones of the key and more follow, and there is nothing in it to
  percent-decode and no other separator.
\<close>

theorem accepted_key_is_below:
  assumes "is_key_under_prefix key pre"
  shows "join [47] (resolve [] (split_on 47 key)) = key \<and>
    (\<exists>rest. rest \<noteq> [] \<and> split_on 47 key = split_on 47 (butlast pre) @ rest \<and> list_all plain_segment rest) \<and>
    37 \<notin> set key \<and> 92 \<notin> set key \<and> (\<forall>c \<in> set key. 32 \<le> c \<and> c \<noteq> 127)"
proof -
  from assms have pre: "endswith pre [47]" "startswith key pre" and plain: "list_all plain_segment (split_on 47 key)"
    and ch: "\<not> contains [92] key" "\<not> contains [37] key" "\<not> list_ex (\<lambda>c. c < 32 \<or> c = 127) key"
    by (auto simp: is_key_under_prefix_def u_def split: if_splits)
  from pre(1) obtain d where d: "pre = d @ [47]" by (auto simp: endswith_iff)
  with pre(2) obtain t where key: "key = d @ 47 # t" by (auto simp: startswith_iff)
  then have "split_on 47 key = split_on 47 (butlast pre) @ split_on 47 t" by (simp add: d split_on_append)
  with plain ch join_split_on [of 47 key] show ?thesis
    by (auto simp: resolve_plain join_split_on contains_single list_ex_iff intro!: exI [of _ "split_on 47 t"])
qed

theorem accepted_key_is_below_witness:
  "is_key_under_prefix (u ''applications/1/cv.pdf'') (u ''applications/1/'') \<and>
   \<not> is_key_under_prefix (u ''applications/1/../2/cv.pdf'') (u ''applications/1/'') \<and>
   join [47] (resolve [] (split_on 47 (u ''applications/1/cv.pdf''))) = u ''applications/1/cv.pdf''"
proof -
  have ok: "is_key_under_prefix (u ''applications/1/cv.pdf'') (u ''applications/1/'')"
    by (simp add: is_key_under_prefix_def u_def startswith_def endswith_def plain_segment_def)
  have "\<not> is_key_under_prefix (u ''applications/1/../2/cv.pdf'') (u ''applications/1/'')"
    by (simp add: is_key_under_prefix_def u_def startswith_def endswith_def plain_segment_def)
  with ok accepted_key_is_below [OF ok] show ?thesis by blast
qed

section \<open>The type of a file\<close>

definition PDF_HEADER_WINDOW :: nat where
  "PDF_HEADER_WINDOW = 1024"

definition SIGNATURE_BYTES :: nat where
  "SIGNATURE_BYTES = PDF_HEADER_WINDOW"

definition EXTENSIONS :: "(pystr, pystr) dict" where
  "EXTENSIONS = [(u ''application/pdf'', u ''.pdf''), (u ''image/png'', u ''.png''), (u ''image/jpeg'', u ''.jpg'')]"

definition detect_file_type :: "pybytes \<Rightarrow> pystr option" where
  "detect_file_type head =
     (if startswith head [0xFF, 0xD8, 0xFF] then Some (u ''image/jpeg'')
      else if startswith head [0x89, 0x50, 0x4E, 0x47, 0x0D, 0x0A, 0x1A, 0x0A] then Some (u ''image/png'')
      else if contains (u ''%PDF-'') (take PDF_HEADER_WINDOW head) then Some (u ''application/pdf'')
      else None)"

lemma startswith_take: "length p \<le> n \<Longrightarrow> startswith (take n s) p = startswith s p"
  by (simp add: startswith_def min_absorb1)

text \<open>
  The first \<open>SIGNATURE_BYTES\<close> of a file decide its type, whatever follows them, and a recognised file has an
  extension.
\<close>

theorem detection_window:
  "detect_file_type (take SIGNATURE_BYTES bs) = detect_file_type bs \<and>
   (detect_file_type bs = None \<or> (\<exists>e. map_of EXTENSIONS (the (detect_file_type bs)) = Some e))"
  by (auto simp: detect_file_type_def startswith_take SIGNATURE_BYTES_def PDF_HEADER_WINDOW_def EXTENSIONS_def)

section \<open>Reading in chunks\<close>

text \<open>A binary file opened for reading: what is left to read, and whether it was closed.\<close>

record binary_file =
  unread :: pybytes
  is_closed :: bool

text \<open>\<open>file.read(n)\<close>: up to \<open>n\<close> bytes, all that is left for a negative \<open>n\<close>.\<close>

definition read_chunk :: "int \<Rightarrow> binary_file \<Rightarrow> pybytes \<times> binary_file" where
  "read_chunk n f = (if n < 0 then (unread f, f\<lparr>unread := []\<rparr>)
     else (take (nat n) (unread f), f\<lparr>unread := drop (nat n) (unread f)\<rparr>))"

text \<open>
  \<open>iter_file\<close> driven by a caller that takes at most \<open>want\<close> chunks and then drops the generator, which runs its
  \<open>finally\<close>.
\<close>

fun iter_file :: "nat \<Rightarrow> int \<Rightarrow> binary_file \<Rightarrow> pybytes list \<times> binary_file" where
  "iter_file 0 n f = ([], f\<lparr>is_closed := True\<rparr>)"
| "iter_file (Suc want) n f = (case read_chunk n f of (chunk, f') \<Rightarrow>
     (if chunk = [] then ([], f'\<lparr>is_closed := True\<rparr>)
      else (case iter_file want n f' of (cs, f'') \<Rightarrow> (chunk # cs, f''))))"

lemma iter_file_closed: "is_closed (snd (iter_file want n f))"
  by (induction want arbitrary: f) (simp_all split: prod.splits, metis snd_conv)

lemma iter_file_content: "concat (fst (iter_file want n f)) @ unread (snd (iter_file want n f)) = unread f"
proof (induction want arbitrary: f)
  case (Suc want)
  obtain c f' where r: "read_chunk n f = (c, f')" by (cases "read_chunk n f")
  then have "c @ unread f' = unread f" by (auto simp: read_chunk_def split: if_splits)
  with r Suc.IH [of f'] show ?case by (auto split: prod.splits)
qed simp

lemma iter_file_all:
  "0 < n \<Longrightarrow> length (unread f) < want \<Longrightarrow> unread (snd (iter_file want n f)) = []"
proof (induction want arbitrary: f)
  case (Suc want)
  show ?case
  proof (cases "unread f = []")
    case False
    let ?f = "f\<lparr>unread := drop (nat n) (unread f)\<rparr>"
    have "0 < nat n" "0 < length (unread f)" using Suc.prems False by auto
    then have "length (unread f) - nat n < length (unread f)" by simp
    then have "length (unread ?f) < want" using Suc.prems(2) by simp
    with Suc.IH [of ?f] Suc.prems False show ?thesis
      by (auto simp: read_chunk_def split: prod.splits)
  qed (use Suc.prems in \<open>auto simp: read_chunk_def\<close>)
qed simp

section \<open>Temporary files\<close>

text \<open>
  The files of the machine by path, and what else the operating system keeps. \<open>mkstemp\<close>, writing and removing are
  operations of the system, which may raise.
\<close>

record 'w disk =
  files :: "pystr \<rightharpoonup> pybytes"
  system :: 'w

record 'w os_calls =
  mkstemp :: "pystr \<Rightarrow> ('w disk, exn, pystr) prog"
  close_fd :: "('w disk, exn, unit) prog"
  write_file :: "pystr \<Rightarrow> pybytes \<Rightarrow> ('w disk, exn, unit) prog"
  os_remove :: "pystr \<Rightarrow> ('w disk, exn, unit) prog"

definition get_temp_path :: "'w os_calls \<Rightarrow> pystr \<Rightarrow> ('w disk, exn, pystr) prog" where
  "get_temp_path os sfx = bindM (mkstemp os sfx) (\<lambda>path. thenM (close_fd os) (ret path))"

definition delete_temp :: "'w os_calls \<Rightarrow> pystr \<Rightarrow> ('w disk, exn, unit) prog" where
  "delete_temp os path = bindM (getM (\<lambda>s. files s path \<noteq> None)) (\<lambda>there.
     if path \<noteq> [] \<and> there then os_remove os path else ret ())"

definition save_temp :: "'w os_calls \<Rightarrow> pybytes \<Rightarrow> pystr \<Rightarrow> ('w disk, exn, pystr) prog" where
  "save_temp os bytes sfx = bindM (get_temp_path os sfx) (\<lambda>path.
     thenM (catchM (\<lambda>_. True) (write_file os path bytes) (\<lambda>e. thenM (delete_temp os path) (raise e)))
       (ret path))"

text \<open>\<open>with temp_file(sfx) as path: block\<close>.\<close>

definition temp_file :: "'w os_calls \<Rightarrow> pystr \<Rightarrow> (pystr \<Rightarrow> ('w disk, exn, 'a) prog) \<Rightarrow> ('w disk, exn, 'a) prog" where
  "temp_file os sfx block = bindM (get_temp_path os sfx) (\<lambda>path. finallyM (block path) (delete_temp os path))"

text \<open>
  The documented behaviour of the calls: \<open>mkstemp\<close> gives a path that was free and makes an empty file there, a
  descriptor can be closed, a write leaves the content or raises and touches no other file, and removing a file that
  exists removes it alone.
\<close>

definition os_laws :: "'w os_calls \<Rightarrow> bool" where
  "os_laws os \<longleftrightarrow>
     (\<forall>sfx s r s'. mkstemp os sfx s = (r, s') \<longrightarrow> (case r of
        Inl e \<Rightarrow> files s' = files s
      | Inr path \<Rightarrow> path \<noteq> [] \<and> files s path = None \<and> files s' = (files s)(path \<mapsto> []))) \<and>
     (\<forall>s r s'. close_fd os s = (r, s') \<longrightarrow> r = Inr () \<and> files s' = files s) \<and>
     (\<forall>p c s r s'. write_file os p c s = (r, s') \<longrightarrow>
        (\<exists>c'. files s' = (files s)(p \<mapsto> c') \<and> (r = Inr () \<longrightarrow> c' = c))) \<and>
     (\<forall>p s r s'. os_remove os p s = (r, s') \<and> files s p \<noteq> None \<longrightarrow> r = Inr () \<and> files s' = (files s)(p := None))"

lemma get_temp_path_laws:
  assumes "os_laws os" and "get_temp_path os sfx s = (r, s')"
  shows "case r of Inl e \<Rightarrow> files s' = files s
    | Inr path \<Rightarrow> path \<noteq> [] \<and> files s path = None \<and> files s' = (files s)(path \<mapsto> [])"
proof -
  obtain q s1 where m: "mkstemp os sfx s = (q, s1)" by (cases "mkstemp os sfx s")
  obtain q2 s2 where c: "close_fd os s1 = (q2, s2)" by (cases "close_fd os s1")
  from assms(1) m have "case q of Inl e \<Rightarrow> files s1 = files s
      | Inr path \<Rightarrow> path \<noteq> [] \<and> files s path = None \<and> files s1 = (files s)(path \<mapsto> [])"
    unfolding os_laws_def by blast
  moreover from assms(1) c have "q2 = Inr ()" "files s2 = files s1"
    unfolding os_laws_def by blast+
  ultimately show ?thesis
    using assms(2) m c by (auto simp: get_temp_path_def prog_defs split: sum.splits)
qed

lemma delete_temp_laws:
  assumes "os_laws os" and "delete_temp os path s = (r, s')" and "path \<noteq> []"
  shows "r = Inr () \<and> files s' = (files s)(path := None)"
proof (cases "files s path")
  case None
  with assms(2) show ?thesis by (auto simp: delete_temp_def prog_defs fun_upd_idem)
next
  case (Some c)
  with assms have "os_remove os path s = (r, s')" by (simp add: delete_temp_def prog_defs)
  with Some assms(1) show ?thesis unfolding os_laws_def by blast
qed

text \<open>
  C36. Temporary files do not pile up: \<open>save_temp\<close> leaves exactly one new file with the content, or raises and leaves
  none; and after a \<open>temp_file\<close> block, however it ended, the file at its path is gone and every other file is as the
  block left it.
\<close>

theorem temp_files_cleaned:
  assumes "os_laws os"
  shows "(case save_temp os bytes sfx s of
      (Inl e, s') \<Rightarrow> files s' = files s
    | (Inr path, s') \<Rightarrow> files s path = None \<and> files s' = (files s)(path \<mapsto> bytes)) \<and>
    (case get_temp_path os sfx s of
      (Inl e, s') \<Rightarrow> temp_file os sfx block s = (Inl e, s')
    | (Inr path, s1) \<Rightarrow> (case block path s1 of (r, s2) \<Rightarrow>
        fst (temp_file os sfx block s) = r \<and> files (snd (temp_file os sfx block s)) = (files s2)(path := None)))"
proof -
  obtain q s1 where g: "get_temp_path os sfx s = (q, s1)" by (cases "get_temp_path os sfx s")
  note path = get_temp_path_laws [OF assms g]
  show ?thesis
  proof (cases q)
    case (Inl e)
    with g path show ?thesis by (simp add: save_temp_def temp_file_def bindM_def)
  next
    case (Inr p)
    with path have p: "p \<noteq> []" "files s p = None" "files s1 = (files s)(p \<mapsto> [])" by auto
    obtain r2 s2 where w: "write_file os p bytes s1 = (r2, s2)" by (cases "write_file os p bytes s1")
    with assms obtain c' where c': "files s2 = (files s1)(p \<mapsto> c')" "r2 = Inr () \<longrightarrow> c' = bytes"
      unfolding os_laws_def by blast
    obtain r3 s3 where d: "delete_temp os p s2 = (r3, s3)" by (cases "delete_temp os p s2")
    obtain r4 s4 where b: "block p s1 = (r4, s4)" by (cases "block p s1")
    obtain r5 s5 where d5: "delete_temp os p s4 = (r5, s5)" by (cases "delete_temp os p s4")
    show ?thesis
      using g Inr p w c' d b d5 delete_temp_laws [OF assms d p(1)] delete_temp_laws [OF assms d5 p(1)]
      by (auto simp: save_temp_def temp_file_def prog_defs fun_upd_idem split: sum.splits)
  qed
qed

text \<open>A system that numbers its files and has room for one byte.\<close>

definition example_os :: "nat os_calls" where
  "example_os = \<lparr>mkstemp = (\<lambda>sfx s. let p = [hd (filter (\<lambda>c. files s [c] = None) [1, 2])] in
       if files s [1] = None \<or> files s [2] = None then (Inr p, s\<lparr>files := (files s)(p \<mapsto> [])\<rparr>)
       else (Inl (Builtin ''OSError'' []), s)),
     close_fd = ret (),
     write_file = (\<lambda>p c s. if length c \<le> 1 then (Inr (), s\<lparr>files := (files s)(p \<mapsto> c)\<rparr>)
       else (Inl (Builtin ''OSError'' []), s\<lparr>files := (files s)(p \<mapsto> take 1 c)\<rparr>)),
     os_remove = (\<lambda>p s. (Inr (), s\<lparr>files := (files s)(p := None)\<rparr>))\<rparr>"

lemma example_os_laws: "os_laws example_os"
  by (auto simp: os_laws_def example_os_def ret_def Let_def split: if_splits)

definition empty_disk :: "nat disk" where
  "empty_disk = \<lparr>files = Map.empty, system = 0\<rparr>"

theorem temp_files_cleaned_witness:
  "(case save_temp example_os [65, 66] [] empty_disk of (r, s') \<Rightarrow>
     r = Inl (Builtin ''OSError'' []) \<and> files s' = Map.empty) \<and>
   files (snd (temp_file example_os [] (\<lambda>p. write_file example_os p [65]) empty_disk)) = Map.empty"
proof -
  have run: "save_temp example_os [65, 66] [] empty_disk = (Inl (Builtin ''OSError'' []), empty_disk)"
    by (simp add: save_temp_def get_temp_path_def delete_temp_def example_os_def empty_disk_def prog_defs Let_def
        fun_upd_idem)
  have "get_temp_path example_os [] empty_disk = (Inr [1], empty_disk\<lparr>files := [[1] \<mapsto> []]\<rparr>)"
    by (simp add: get_temp_path_def example_os_def empty_disk_def prog_defs Let_def)
  moreover have "write_file example_os [1] [65] (empty_disk\<lparr>files := [[1] \<mapsto> []]\<rparr>) = (Inr (), empty_disk\<lparr>files := [[1] \<mapsto> [65]]\<rparr>)"
    by (simp add: example_os_def)
  ultimately show ?thesis
    using temp_files_cleaned [OF example_os_laws, where bytes = "[65, 66]" and sfx = "[]" and s = empty_disk and
        block = "\<lambda>p. write_file example_os p [65]"] run
    by (simp add: empty_disk_def)
qed

end
