(* ===== verification/ApiClient.thy ===== *)
theory ApiClient imports RequestContext Values Files begin

text \<open>
  The \<open>api_client\<close> package: the shared HTTP client (\<open>http_manager.py\<close>), the requests to other services and the
  mapping of their answers (\<open>base.py\<close>), the clients of the two services (\<open>clients\<close>) and their factory. The network
  and httpx are a parameter.
\<close>

section \<open>The shared client\<close>

datatype http_client = Open | Closed

text \<open>\<open>shared\<close> is the class attribute \<open>client\<close>; \<open>net\<close> is the network and everything else outside.\<close>

record 'w http_state =
  shared :: "http_client option"
  net :: 'w

definition in_net :: "('w, exn, 'a) prog \<Rightarrow> ('w http_state, exn, 'a) prog" where
  "in_net m = (\<lambda>s. case m (net s) of (r, w) \<Rightarrow> (r, s\<lparr>net := w\<rparr>))"

definition needs_client :: "'w http_state \<Rightarrow> bool" where
  "needs_client s \<longleftrightarrow> shared s = None \<or> shared s = Some Closed"

definition init_http :: "('w http_state, exn, unit) prog" where
  "init_http = bindM (getM needs_client) (\<lambda>b. if b then modifyM (\<lambda>s. s\<lparr>shared := Some Open\<rparr>) else ret ())"

definition close_http :: "('w, exn, unit) prog \<Rightarrow> ('w http_state, exn, unit) prog" where
  "close_http aclose = bindM (getM shared) (\<lambda>c. if c \<noteq> None then
     thenM (in_net aclose) (modifyM (\<lambda>s. s\<lparr>shared := None\<rparr>)) else ret ())"

section \<open>Requests and answers\<close>

record api_request =
  req_method :: pystr
  req_url :: pystr
  req_headers :: "(pystr, pystr) dict"
  req_params :: pyval
  req_data :: pyval
  req_json :: pyval

record http_answer =
  code :: int
  content_type :: pystr
  raw_content :: pybytes
  text_content :: pystr
  json_content :: "exn + pyval"

text \<open>
  What \<open>httpx\<close> does with a request: an answer, one of its network errors (\<open>httpx.RequestError\<close>, a timeout or
  not), or another exception.
\<close>

datatype http_outcome = Answered http_answer | NetworkError bool | OtherError exn

type_synonym 'w network = "api_request \<Rightarrow> 'w \<Rightarrow> http_outcome \<times> 'w"

text \<open>What a call returns, and what it raises: the three exceptions that carry what the other service said, or any other.\<close>

datatype api_result = Content pybytes | Parsed pyval | AsText pystr

datatype api_error =
    NotFoundOf pyval
  | ConflictOf pyval
  | BadRequestOf pyval
  | Other exn

record base_api =
  base_url :: pystr
  default_headers :: "(pystr, pystr) dict"

definition new_base_api :: "pystr \<Rightarrow> (pystr, pystr) dict \<Rightarrow> base_api" where
  "new_base_api url headers = \<lparr>base_url = rstrip 47 url, default_headers = headers\<rparr>"

text \<open>\<open>path_segment\<close> of a text; \<open>None\<close> is the \<open>UnicodeEncodeError\<close>.\<close>

definition path_segment :: "pystr \<Rightarrow> pystr option" where
  "path_segment s = quote [] s"

text \<open>\<open>rid\<close> is the request id of the context, as the logging middleware set it.\<close>

definition correlation_headers :: "pystr \<Rightarrow> (pystr, pystr) dict" where
  "correlation_headers rid = (case current_request_id rid of None \<Rightarrow> [] | Some i \<Rightarrow> [(u ''X-Request-ID'', i)])"

definition is_success :: "http_answer \<Rightarrow> bool" where
  "is_success a \<longleftrightarrow> 200 \<le> code a \<and> code a \<le> 299"

definition success_result :: "bool \<Rightarrow> http_answer \<Rightarrow> api_error + api_result" where
  "success_result raw a =
     (if raw then Inr (Content (raw_content a))
      else if contains (u ''application/json'') (content_type a) then
        (case json_content a of Inl e \<Rightarrow> Inl (Other e) | Inr v \<Rightarrow> Inr (Parsed v))
      else Inr (AsText (text_content a)))"

text \<open>\<open>error_data.get("detail") or error_data.get("message") or response.text\<close>, and the text when that raises.\<close>

definition error_detail :: "http_answer \<Rightarrow> pyval" where
  "error_detail a = (case json_content a of
     Inl e \<Rightarrow> VStr (text_content a)
   | Inr v \<Rightarrow> (case (get_of v (u ''detail''), get_of v (u ''message'')) of
       (Inr d, Inr m) \<Rightarrow> (if truthy d then d else if truthy m then m else VStr (text_content a))
     | _ \<Rightarrow> VStr (text_content a)))"

definition map_answer :: "bool \<Rightarrow> http_answer \<Rightarrow> api_error + api_result" where
  "map_answer raw a =
     (if is_success a then success_result raw a
      else if code a = 404 then Inl (NotFoundOf (error_detail a))
      else if code a = 409 then Inl (ConflictOf (error_detail a))
      else if code a = 400 then Inl (BadRequestOf (error_detail a))
      else Inl (Other upstream_default))"

definition map_outcome :: "bool \<Rightarrow> http_outcome \<Rightarrow> api_error + api_result" where
  "map_outcome raw out = (case out of
     Answered a \<Rightarrow> map_answer raw a
   | NetworkError timeout \<Rightarrow> Inl (Other (UpstreamError upstream_message (if timeout then 504 else 502)))
   | OtherError e \<Rightarrow> Inl (Other e))"

definition request_headers ::
  "pystr \<Rightarrow> base_api \<Rightarrow> (pystr, pystr) dict \<Rightarrow> (pystr, pystr) dict \<Rightarrow> (pystr, pystr) dict" where
  "request_headers rid B auth own =
     dict_merge (dict_merge (dict_merge (dict_merge [] (correlation_headers rid)) (default_headers B)) auth) own"

definition request_url :: "base_api \<Rightarrow> pystr \<Rightarrow> pystr" where
  "request_url B endpoint = base_url B @ u ''/'' @ lstrip 47 endpoint"

text \<open>The arguments of a call besides its endpoint.\<close>

record call_args =
  arg_headers :: "(pystr, pystr) dict"
  arg_params :: pyval
  arg_data :: pyval
  arg_json :: pyval

definition no_args :: call_args where
  "no_args = \<lparr>arg_headers = [], arg_params = VNone, arg_data = VNone, arg_json = VNone\<rparr>"

text \<open>The headers of the authentication come from a method of the subclass, plain or a coroutine; it may raise.\<close>

definition api_call ::
  "pystr \<Rightarrow> base_api \<Rightarrow> ('w, exn, (pystr, pystr) dict) prog \<Rightarrow> 'w network \<Rightarrow> pystr \<Rightarrow> pystr \<Rightarrow> bool \<Rightarrow> call_args
   \<Rightarrow> 'w http_state \<Rightarrow> (api_error + api_result) \<times> 'w http_state" where
  "api_call rid B auth N meth endpoint raw args s =
     (case bindM (getM needs_client) (\<lambda>b. thenM (if b then init_http else ret ()) (in_net auth)) s of
        (Inl e, s') \<Rightarrow> (Inl (Other e), s')
      | (Inr auth_headers, s') \<Rightarrow>
          (case N \<lparr>req_method = meth, req_url = request_url B endpoint,
                   req_headers = request_headers rid B auth_headers (arg_headers args),
                   req_params = arg_params args, req_data = arg_data args, req_json = arg_json args\<rparr> (net s') of
             (out, w) \<Rightarrow> (map_outcome raw out, s'\<lparr>net := w\<rparr>)))"

text \<open>The methods; \<open>kw\<close> are their further keyword arguments.\<close>

definition api_get where
  "api_get rid B auth N endpoint params kw = api_call rid B auth N (u ''GET'') endpoint False (kw\<lparr>arg_params := params\<rparr>)"

definition api_get_raw where
  "api_get_raw rid B auth N endpoint params kw = api_call rid B auth N (u ''GET'') endpoint True (kw\<lparr>arg_params := params\<rparr>)"

definition api_post where
  "api_post rid B auth N endpoint data js kw =
     api_call rid B auth N (u ''POST'') endpoint False (kw\<lparr>arg_data := data, arg_json := js\<rparr>)"

definition api_put where
  "api_put rid B auth N endpoint data js kw =
     api_call rid B auth N (u ''PUT'') endpoint False (kw\<lparr>arg_data := data, arg_json := js\<rparr>)"

definition api_delete where
  "api_delete rid B auth N endpoint kw = api_call rid B auth N (u ''DELETE'') endpoint False kw"

section \<open>The clients of the services\<close>

text \<open>A service as a client object sees it: where it is, who asks, and the network. An escape of an id may raise.\<close>

record 'w service_client =
  cl_base :: base_api
  cl_auth :: "('w, exn, (pystr, pystr) dict) prog"
  cl_net :: "'w network"
  cl_rid :: pystr
  cl_repr :: "pyval \<Rightarrow> pystr"

type_synonym 'w api_prog = "'w http_state \<Rightarrow> (api_error + api_result) \<times> 'w http_state"

definition unicode_error :: exn where
  "unicode_error = Builtin ''UnicodeEncodeError'' (u ''surrogates not allowed'')"

definition client_get :: "'w service_client \<Rightarrow> pystr \<Rightarrow> pyval \<Rightarrow> 'w api_prog" where
  "client_get K endpoint params = api_get (cl_rid K) (cl_base K) (cl_auth K) (cl_net K) endpoint params no_args"

text \<open>\<open>f"{before}{self.path_segment(value)}{after}"\<close>.\<close>

definition get_by_segment :: "'w service_client \<Rightarrow> string \<Rightarrow> pyval \<Rightarrow> string \<Rightarrow> pyval \<Rightarrow> 'w api_prog" where
  "get_by_segment K before value after params = (case path_segment (py_str (cl_repr K) value) of
     None \<Rightarrow> (\<lambda>s. (Inl (Other unicode_error), s))
   | Some seg \<Rightarrow> client_get K (u before @ seg @ u after) params)"

definition get_list :: "'w service_client \<Rightarrow> string \<Rightarrow> pyval list \<Rightarrow> 'w api_prog" where
  "get_list K endpoint ids = client_get K (u endpoint) (VDict [(u ''ids'', VList ids)])"

text \<open>\<open>response["items"]\<close>; what is not parsed JSON cannot be indexed by a name.\<close>

fun items_field :: "(api_error + api_result) \<times> 'w http_state \<Rightarrow> (api_error + pyval) \<times> 'w http_state" where
  "items_field (Inl e, s) = (Inl e, s)"
| "items_field (Inr (Parsed v), s) = ((case item_of v (u ''items'') of Inl e \<Rightarrow> Inl (Other e) | Inr x \<Rightarrow> Inr x), s)"
| "items_field (Inr _, s) = (Inl (Other type_error), s)"

definition uni_client :: "pystr \<Rightarrow> 'w network \<Rightarrow> pystr \<Rightarrow> (pyval \<Rightarrow> pystr) \<Rightarrow> 'w service_client" where
  "uni_client url N rid repr =
     \<lparr>cl_base = new_base_api url [], cl_auth = ret [], cl_net = N, cl_rid = rid, cl_repr = repr\<rparr>"

definition get_department :: "'w service_client \<Rightarrow> pyval \<Rightarrow> 'w api_prog" where
  "get_department K i = get_by_segment K ''/departments/'' i [] VNone"

definition get_departments_by_ids :: "'w service_client \<Rightarrow> pyval list \<Rightarrow> 'w api_prog" where
  "get_departments_by_ids K ids = get_list K ''/departments/by_ids'' ids"

definition get_departments_by_university_ids :: "'w service_client \<Rightarrow> pyval list \<Rightarrow> 'w api_prog" where
  "get_departments_by_university_ids K ids = get_list K ''/departments/by_uni_ids'' ids"

definition get_departments_by_school_id ::
  "'w service_client \<Rightarrow> int \<Rightarrow> 'w http_state \<Rightarrow> (api_error + pyval) \<times> 'w http_state" where
  "get_departments_by_school_id K i s =
     items_field (client_get K (u ''/departments'') (VDict [(u ''school_id'', VInt i), (u ''limit'', VInt 100)]) s)"

definition get_universities :: "'w service_client \<Rightarrow> 'w http_state \<Rightarrow> (api_error + pyval) \<times> 'w http_state" where
  "get_universities K s = items_field (client_get K (u ''/universities'') (VDict [(u ''limit'', VInt 100)]) s)"

text \<open>\<open>UsersAPI\<close>: its requests carry the token of the service; \<open>tok\<close> is \<open>aget_token\<close>.\<close>

definition bearer_headers :: "(pyval \<Rightarrow> pystr) \<Rightarrow> ('w, exn, pyval) prog \<Rightarrow> ('w, exn, (pystr, pystr) dict) prog" where
  "bearer_headers repr tok = bindM tok (\<lambda>t.
     ret [(u ''Authorization'', u ''Bearer '' @ py_str repr t), (u ''Content-Type'', u ''application/json'')])"

definition users_client ::
  "pystr \<Rightarrow> ('w, exn, pyval) prog \<Rightarrow> 'w network \<Rightarrow> pystr \<Rightarrow> (pyval \<Rightarrow> pystr) \<Rightarrow> 'w service_client" where
  "users_client url tok N rid repr =
     \<lparr>cl_base = new_base_api url [], cl_auth = bearer_headers repr tok, cl_net = N, cl_rid = rid, cl_repr = repr\<rparr>"

definition get_secretary :: "'w service_client \<Rightarrow> pyval \<Rightarrow> 'w api_prog" where
  "get_secretary K i = get_by_segment K ''/secretaries/'' i [] VNone"

definition get_secretaries_by_uuids :: "'w service_client \<Rightarrow> pyval list \<Rightarrow> 'w api_prog" where
  "get_secretaries_by_uuids K ids = get_list K ''/secretaries/by_ids'' ids"

definition get_users_by_uuids :: "'w service_client \<Rightarrow> pyval list \<Rightarrow> 'w api_prog" where
  "get_users_by_uuids K ids = get_list K ''/applicants/by_ids'' ids"

definition get_applicant_profiles_by_uuids :: "'w service_client \<Rightarrow> pyval list \<Rightarrow> 'w api_prog" where
  "get_applicant_profiles_by_uuids K ids = get_list K ''/applicants/by_ids'' ids"

definition save_user :: "'w service_client \<Rightarrow> pyval \<Rightarrow> 'w api_prog" where
  "save_user K data = api_post (cl_rid K) (cl_base K) (cl_auth K) (cl_net K) (u ''/users'') VNone data no_args"

definition get_applicant :: "'w service_client \<Rightarrow> pyval \<Rightarrow> 'w api_prog" where
  "get_applicant K i = get_by_segment K ''/applicants/'' i [] VNone"

definition get_agent :: "'w service_client \<Rightarrow> pyval \<Rightarrow> 'w api_prog" where
  "get_agent K i = get_by_segment K ''/agents/'' i [] VNone"

definition get_applicant_profile :: "'w service_client \<Rightarrow> pyval \<Rightarrow> 'w api_prog" where
  "get_applicant_profile K i = get_by_segment K ''/applicants/'' i ''/complete'' VNone"

definition get_applicant_media_url :: "'w service_client \<Rightarrow> pyval \<Rightarrow> pyval \<Rightarrow> 'w api_prog" where
  "get_applicant_media_url K i k = get_by_segment K ''/applicants/'' i ''/media-url'' (VDict [(u ''key'', k)])"

section \<open>The factory of the clients\<close>

text \<open>\<open>getattr(settings, name, None)\<close> is \<open>read name\<close>.\<close>

definition missing_url :: "pystr \<Rightarrow> exn" where
  "missing_url name = Builtin ''ValueError'' (u ''Configuration Error: '' @ [39] @ name @ [39] @
     u '' is not defined in your settings. You cannot initialize this API client.'')"

definition get_url :: "(pystr \<Rightarrow> pystr option) \<Rightarrow> pystr \<Rightarrow> exn + pystr" where
  "get_url read name = (case read name of None \<Rightarrow> Inl (missing_url name)
     | Some url \<Rightarrow> (if url = [] then Inl (missing_url name) else Inr url))"

definition get_uni_api ::
  "(pystr \<Rightarrow> pystr option) \<Rightarrow> 'w network \<Rightarrow> pystr \<Rightarrow> (pyval \<Rightarrow> pystr) \<Rightarrow> exn + 'w service_client" where
  "get_uni_api read N rid repr = (case get_url read (u ''UNI_API_URL'') of
     Inl e \<Rightarrow> Inl e | Inr url \<Rightarrow> Inr (uni_client url N rid repr))"

definition get_users_api ::
  "(pystr \<Rightarrow> pystr option) \<Rightarrow> ('w, exn, pyval) prog \<Rightarrow> 'w network \<Rightarrow> pystr \<Rightarrow> (pyval \<Rightarrow> pystr) \<Rightarrow> exn + 'w service_client" where
  "get_users_api read tok N rid repr = (case get_url read (u ''PROFILES_API_URL'') of
     Inl e \<Rightarrow> Inl e | Inr url \<Rightarrow> Inr (users_client url tok N rid repr))"

section \<open>One segment\<close>

lemma split_on_middle:
  "47 \<notin> set q \<Longrightarrow> split_on 47 (b @ 47 # q @ 47 # a) = split_on 47 b @ [q] @ split_on 47 a"
  by (simp add: split_on_append split_on_none)

lemma segment_chars:
  assumes "path_segment s = Some q"
  shows "47 \<notin> set q" and "63 \<notin> set q" and "35 \<notin> set q" and "unquote q = Some s"
  using assms quote_chars [of "[]" s q 47] quote_chars [of "[]" s q 63] quote_chars [of "[]" s q 35]
    unquote_quote [of "[]" s q]
  by (auto simp: path_segment_def always_safe_def is_alpha_def is_digit_def)

lemma unquote_dots: "unquote [] = Some []" "unquote (u ''.'') = Some (u ''.'')" "unquote (u ''..'') = Some (u ''..'')"
  by (simp_all add: unquote_def u_def utf8_decode.simps)

text \<open>
  C33. An id in a URL is one segment that decodes to the id and nothing else: there is no separator, no query and no
  fragment in it, and resolving the path leaves it where the client put it, so that the call reaches the endpoint
  it was written for. The ids that are empty, \<open>.\<close> or \<open>..\<close> are the ones for which this does not hold.
\<close>

theorem segment_reaches_its_endpoint:
  assumes "path_segment s = Some q" and "s \<notin> {[], u ''.'', u ''..''}"
    and "list_all plain_segment (split_on 47 b)" and "list_all plain_segment (split_on 47 a)"
  shows "resolve [] (split_on 47 (b @ 47 # q @ 47 # a)) = split_on 47 b @ [q] @ split_on 47 a \<and>
    unquote q = Some s \<and> 47 \<notin> set q \<and> 63 \<notin> set q \<and> 35 \<notin> set q"
proof -
  note q = segment_chars [OF assms(1)]
  have "plain_segment q" using q(4) assms(2) unquote_dots by (auto simp: plain_segment_def)
  with q assms(3,4) show ?thesis by (simp add: split_on_middle resolve_plain)
qed

theorem segment_reaches_its_endpoint_witness:
  "path_segment (u ''7/../x?y'') = Some (u ''7%2F..%2Fx%3Fy'') \<and>
   resolve [] (split_on 47 (u ''applicants'' @ 47 # u ''7%2F..%2Fx%3Fy'' @ 47 # u ''complete'')) =
     [u ''applicants'', u ''7%2F..%2Fx%3Fy'', u ''complete'']"
proof -
  have seg: "path_segment (u ''7/../x?y'') = Some (u ''7%2F..%2Fx%3Fy'')"
    by (simp add: path_segment_def quote_def utf8_encode_def utf8_char_def quote_byte_def always_safe_def is_alpha_def
        is_digit_def scalar_text_def is_scalar_def is_surrogate_def hex_digit_def u_def)
  have "u ''7/../x?y'' \<notin> {[], u ''.'', u ''..''}" by simp
  moreover have "split_on 47 (u ''applicants'') = [u ''applicants'']" "split_on 47 (u ''complete'') = [u ''complete'']"
    by (simp_all add: u_def)
  moreover have "plain_segment (u ''applicants'')" "plain_segment (u ''complete'')" by (simp_all add: plain_segment_def)
  ultimately show ?thesis
    using segment_reaches_its_endpoint [OF seg, of "u ''applicants''" "u ''complete''"] seg by simp
qed

text \<open>\<open>quote\<close> does not escape dots.\<close>

lemma dots_not_escaped: "path_segment (u ''..'') = Some (u ''..'')"
  by (simp add: path_segment_def quote_def utf8_encode_def utf8_char_def quote_byte_def always_safe_def u_def
      scalar_text_def is_scalar_def is_surrogate_def)

section \<open>What a user gets to see of another service\<close>

text \<open>Outcomes that differ only in what the other service, or the network, says about a problem that is not the user's.\<close>

definition same_trouble :: "http_outcome \<Rightarrow> http_outcome \<Rightarrow> bool" where
  "same_trouble x y \<longleftrightarrow> (case (x, y) of
     (Answered a, Answered b) \<Rightarrow> code a \<notin> {400, 404, 409} \<and> \<not> is_success a \<and> code b \<notin> {400, 404, 409} \<and> \<not> is_success b
   | (NetworkError s, NetworkError t) \<Rightarrow> s = t
   | _ \<Rightarrow> False)"

lemma map_trouble:
  "same_trouble x y \<Longrightarrow> map_outcome raw x = map_outcome raw' y \<and>
    (\<exists>st \<in> {502, 504}. map_outcome raw x = Inl (Other (UpstreamError upstream_message st)))"
  by (auto simp: same_trouble_def map_outcome_def map_answer_def upstream_default_def split: http_outcome.splits)

text \<open>
  C34. A problem between two services tells the user nothing about them: whatever status (other than 400, 404 and
  409), body or network error the other side gives, the call raises the same \<open>UpstreamError\<close>, a 502 or for a
  timeout a 504, whose text is fixed.
\<close>

theorem upstream_trouble_stays_out:
  assumes "\<And>rq w. same_trouble (fst (N rq w)) (fst (N' rq w)) \<and> snd (N rq w) = snd (N' rq w)"
    and "fst (auth (net s)) = Inr h"
  shows "api_call rid B auth N meth endpoint raw args s = api_call rid B auth N' meth endpoint raw args s \<and>
    (\<exists>st \<in> {502, 504}. fst (api_call rid B auth N meth endpoint raw args s) = Inl (Other (UpstreamError upstream_message st)))"
proof -
  obtain w where a: "auth (net s) = (Inr h, w)" using assms(2) by (cases "auth (net s)") auto
  have "\<exists>s'. bindM (getM needs_client) (\<lambda>b. thenM (if b then init_http else ret ()) (in_net auth)) s = (Inr h, s')"
    using a by (auto simp: prog_defs init_http_def in_net_def)
  then obtain s' where pre: "bindM (getM needs_client) (\<lambda>b. thenM (if b then init_http else ret ()) (in_net auth)) s = (Inr h, s')"
    by blast
  let ?rq = "\<lparr>req_method = meth, req_url = request_url B endpoint, req_headers = request_headers rid B h (arg_headers args),
      req_params = arg_params args, req_data = arg_data args, req_json = arg_json args\<rparr>"
  show ?thesis
    using assms(1) [of ?rq "net s'"] map_trouble [of "fst (N ?rq (net s'))" "fst (N' ?rq (net s'))" raw raw]
    by (auto simp: api_call_def pre split: prod.splits)
qed

definition example_answer :: "int \<Rightarrow> pystr \<Rightarrow> http_answer" where
  "example_answer st t = \<lparr>code = st, content_type = u ''text/plain'', raw_content = t, text_content = t,
     json_content = Inl type_error\<rparr>"

theorem upstream_trouble_stays_out_witness:
  "fst (api_call [] (new_base_api (u ''http://uni'') []) (ret []) (\<lambda>_ w. (Answered (example_answer 500 (u ''stack trace'')), w))
      (u ''GET'') (u ''/x'') False no_args \<lparr>shared = None, net = ()\<rparr>) =
   fst (api_call [] (new_base_api (u ''http://uni'') []) (ret []) (\<lambda>_ w. (Answered (example_answer 401 (u ''who are you'')), w))
      (u ''GET'') (u ''/x'') False no_args \<lparr>shared = None, net = ()\<rparr>)"
proof -
  have "same_trouble (Answered (example_answer 500 (u ''stack trace''))) (Answered (example_answer 401 (u ''who are you'')))"
    by (simp add: same_trouble_def example_answer_def is_success_def)
  with upstream_trouble_stays_out [where N = "\<lambda>_ w. (Answered (example_answer 500 (u ''stack trace'')), w)" and
      N' = "\<lambda>_ w. (Answered (example_answer 401 (u ''who are you'')), w)" and auth = "ret []" and h = "[]" and
      s = "\<lparr>shared = None, net = ()\<rparr>" and rid = "[]" and B = "new_base_api (u ''http://uni'') []" and meth = "u ''GET''" and
      endpoint = "u ''/x''" and raw = False and args = no_args]
  show ?thesis by (simp add: ret_def)
qed

text \<open>A successful answer that says it is JSON and is not is an exception of the parser, not an \<open>UpstreamError\<close>.\<close>

lemma malformed_success_escapes:
  "is_success a \<Longrightarrow> contains (u ''application/json'') (content_type a) \<Longrightarrow> json_content a = Inl e \<Longrightarrow>
   map_outcome False (Answered a) = Inl (Other e)"
  by (simp add: map_outcome_def map_answer_def success_result_def)

section \<open>The headers of a request\<close>

lemma header_precedence:
  assumes "dict_wf auth" and "dict_wf own" and "dict_wf (default_headers B)"
  shows "map_of (request_headers rid B auth own) =
    map_of (correlation_headers rid) ++ map_of (default_headers B) ++ map_of auth ++ map_of own"
proof -
  have "dict_wf (correlation_headers rid)" by (simp add: correlation_headers_def dict_wf_def split: option.split)
  with assms show ?thesis by (simp add: request_headers_def map_of_dict_merge map_of_rev_distinct)
qed

lemma users_request_headers:
  "map_of (request_headers rid (cl_base (users_client url tok N rid repr))
      [(u ''Authorization'', u ''Bearer '' @ t), (u ''Content-Type'', u ''application/json'')] []) =
   (map_of (correlation_headers rid))(u ''Authorization'' \<mapsto> u ''Bearer '' @ t, u ''Content-Type'' \<mapsto> u ''application/json'')"
  by (subst header_precedence) (simp_all add: dict_wf_def users_client_def new_base_api_def map_add_def fun_eq_iff)

section \<open>The universities service behind the cache\<close>

text \<open>The exception a call raises, when the detail of the other service is a text; another value prints as \<open>str\<close> does.\<close>

fun error_exn :: "(pyval \<Rightarrow> pystr) \<Rightarrow> api_error \<Rightarrow> exn" where
  "error_exn repr (NotFoundOf v) = NotFoundError (py_str repr v)"
| "error_exn repr (ConflictOf v) = ConflictError (py_str repr v)"
| "error_exn repr (BadRequestOf v) = BadRequestError (py_str repr v)"
| "error_exn repr (Other e) = e"

fun result_value :: "api_result \<Rightarrow> pyval" where
  "result_value (Content b) = VBytes b"
| "result_value (Parsed v) = v"
| "result_value (AsText t) = VStr t"

definition as_prog :: "'w service_client \<Rightarrow> 'w api_prog \<Rightarrow> ('w http_state, exn, pyval) prog" where
  "as_prog K m = (\<lambda>s. case m s of
     (Inl e, s') \<Rightarrow> (Inl (error_exn (cl_repr K) e), s') | (Inr v, s') \<Rightarrow> (Inr (result_value v), s'))"

end
