(* ===== verification/UniService.thy ===== *)
theory UniService imports UniCache ApiClient begin

text \<open>
  The cache of the departments over the HTTP client: the interface \<open>uni_api\<close> of the cache is what \<open>UniAPI\<close> does with
  the network, so that the contract of the cache rests on what the universities service answers.
\<close>

definition uni_service :: "'w service_client \<Rightarrow> 'w http_state uni_api" where
  "uni_service K =
    \<lparr>api_department = (\<lambda>i. as_prog K (get_department K (VInt i))),
     api_by_ids = (\<lambda>ids. as_prog K (ApiClient.get_departments_by_ids K (map VInt ids))),
     api_by_universities = (\<lambda>ids. as_prog K (ApiClient.get_departments_by_university_ids K (map VInt ids))),
     api_by_school = (\<lambda>j s. case ApiClient.get_departments_by_school_id K j s of
         (Inl e, s') \<Rightarrow> (Inl (error_exn (cl_repr K) e), s') | (Inr v, s') \<Rightarrow> (Inr v, s')),
     py_repr = cl_repr K\<rparr>"

section \<open>What the service answers\<close>

text \<open>
  Every 2xx answer is JSON: at the address of a department, nothing or that department; at the addresses of lists,
  departments. Answers that are errors are not restricted. No answer adds to what Redis holds.
\<close>

definition departments_in :: "(int \<Rightarrow> pyval \<Rightarrow> bool) \<Rightarrow> pyval \<Rightarrow> bool" where
  "departments_in said v \<longleftrightarrow> (\<forall>ds. iter_value v = Inr ds \<longrightarrow> (\<forall>d \<in> set ds. \<exists>i. said i d))"

definition answer_says :: "(int \<Rightarrow> pyval \<Rightarrow> bool) \<Rightarrow> pystr \<Rightarrow> pystr \<Rightarrow> pyval \<Rightarrow> bool" where
  "answer_says said base url v \<longleftrightarrow>
     (\<forall>i. url = base @ u ''/departments/'' @ str_int i \<and> truthy v \<longrightarrow> said i v) \<and>
     (url = base @ u ''/departments/by_ids'' \<longrightarrow> departments_in said v) \<and>
     (url = base @ u ''/departments/by_uni_ids'' \<longrightarrow> departments_in said v) \<and>
     (url = base @ u ''/departments'' \<longrightarrow> (\<forall>x. item_of v (u ''items'') = Inr x \<longrightarrow> departments_in said x))"

definition network_says :: "'w network \<Rightarrow> pystr \<Rightarrow> 'w redis_view \<Rightarrow> (int \<Rightarrow> pyval \<Rightarrow> bool) \<Rightarrow> bool" where
  "network_says N base V said \<longleftrightarrow> (\<forall>i d. said i d \<longrightarrow> numbered i d) \<and>
     (\<forall>rq w out w'. N rq w = (out, w') \<longrightarrow> strings V w' \<subseteq>\<^sub>m strings V w \<and>
       (\<forall>a. out = Answered a \<and> is_success a \<longrightarrow> contains (u ''application/json'') (content_type a) \<and>
         (\<forall>v. json_content a = Inr v \<longrightarrow> answer_says said base (req_url rq) v)))"

definition over_net :: "'w redis_view \<Rightarrow> 'w http_state redis_view" where
  "over_net V = \<lparr>strings = (\<lambda>s. strings V (net s)), hashes = (\<lambda>s. hashes V (net s))\<rparr>"

text \<open>The network raises no cancellation.\<close>

definition network_polite :: "'w network \<Rightarrow> bool" where
  "network_polite N \<longleftrightarrow> (\<forall>rq w. case fst (N rq w) of
     Answered a \<Rightarrow> (\<forall>e. json_content a = Inl e \<longrightarrow> is_Exception e) | NetworkError _ \<Rightarrow> True | OtherError e \<Rightarrow> is_Exception e)"

section \<open>One call\<close>

lemma client_get_run:
  assumes "client_get (uni_client url N rid repr) (47 # ep) params s = (r, s')"
  shows "\<exists>rq out. N rq (net s) = (out, net s') \<and> req_url rq = rstrip 47 url @ 47 # lstrip 47 ep \<and> r = map_outcome False out"
  using assms
  by (auto simp: client_get_def uni_client_def api_get_def api_call_def request_url_def new_base_api_def lstrip_def u_def
      in_net_def init_http_def prog_defs split: prod.splits if_splits)
    (rule exI, rule exI, rule conjI, assumption, simp)+

lemma success_is_json:
  assumes "network_says N base V said" and "N rq w = (out, w')" and "map_outcome False out = Inr x"
  shows "\<exists>v. x = Parsed v \<and> answer_says said base (req_url rq) v"
  using assms
  by (auto simp: network_says_def map_outcome_def map_answer_def success_result_def split: http_outcome.splits if_splits sum.splits)

lemma network_strings: "network_says N base V said \<Longrightarrow> N rq w = (out, w') \<Longrightarrow> strings V w' \<subseteq>\<^sub>m strings V w"
  unfolding network_says_def by blast

lemma quote_safe: "list_all (\<lambda>c. always_safe c \<and> c < 128) s \<Longrightarrow> quote [] s = Some s"
proof -
  assume safe: "list_all (\<lambda>c. always_safe c \<and> c < 128) s"
  then have "concat (map utf8_char s) = s" and "concat (map (quote_byte []) s) = s"
    by (induction s) (auto simp: utf8_char_def quote_byte_def)
  moreover have "scalar_text s"
    using safe by (auto simp: scalar_text_def list_all_iff is_scalar_def is_surrogate_def)
  ultimately show ?thesis by (simp add: quote_def utf8_encode_def)
qed

lemma str_int_chars: "list_all (\<lambda>c. is_digit c \<or> c = 45) (str_int i)"
  using digits_are_digits [of "nat \<bar>i\<bar>"] by (auto simp: str_int_def list_all_iff)

lemma segment_int: "path_segment (str_int i) = Some (str_int i)"
  unfolding path_segment_def
  by (rule quote_safe) (use str_int_chars [of i] in \<open>auto simp: list_all_iff always_safe_def is_digit_def\<close>)

text \<open>A call at an address: what it leaves of Redis, and what its result is.\<close>

lemma client_says:
  assumes "network_says N (rstrip 47 url) V said" and "client_get (uni_client url N rid repr) (47 # ep) params s = (r, s')"
  shows "strings V (net s') \<subseteq>\<^sub>m strings V (net s)"
    and "r = Inr x \<Longrightarrow> \<exists>v. x = Parsed v \<and> answer_says said (rstrip 47 url) (rstrip 47 url @ 47 # lstrip 47 ep) v"
  using client_get_run [OF assms(2)] network_strings [OF assms(1)] success_is_json [OF assms(1)]
  by (metis, metis)

lemma u_slash: "u (CHR ''/'' # t) = 47 # u t"
  by (simp add: u_def)

lemma lstrip_u: "c \<noteq> CHR ''/'' \<Longrightarrow> lstrip 47 (u (c # t) @ r) = u (c # t) @ r"
proof -
  assume "c \<noteq> CHR ''/''"
  then have "of_char c \<noteq> (of_char (CHR ''/'') :: nat)" by (simp only: of_char_eq_iff not_False_eq_True)
  then show ?thesis by (simp add: lstrip_def u_def)
qed

lemma as_prog_run:
  assumes "as_prog K m s = (r, s')"
  obtains q where "m s = (q, s')" and "\<And>d. r = Inr d \<Longrightarrow> \<exists>x. q = Inr x \<and> d = result_value x"
  using assms by (auto simp: as_prog_def split: prod.splits sum.splits)

lemma department_says:
  assumes "network_says N (rstrip 47 url) V said"
    and "as_prog (uni_client url N rid repr) (get_department (uni_client url N rid repr) (VInt i)) s = (r, s')"
  shows "strings V (net s') \<subseteq>\<^sub>m strings V (net s)" and "r = Inr d \<Longrightarrow> truthy d \<Longrightarrow> said i d"
proof -
  let ?K = "uni_client url N rid repr"
  have get: "get_department ?K (VInt i) = client_get ?K (47 # u ''departments/'' @ str_int i) VNone"
    by (simp add: get_department_def get_by_segment_def segment_int u_slash)
  obtain q where q: "client_get ?K (47 # u ''departments/'' @ str_int i) VNone s = (q, s')"
      and res: "\<And>d. r = Inr d \<Longrightarrow> \<exists>x. q = Inr x \<and> d = result_value x"
    using as_prog_run [OF assms(2) [unfolded get]] by metis
  note says = client_says [OF assms(1) q]
  show "strings V (net s') \<subseteq>\<^sub>m strings V (net s)" by (rule says(1))
  assume r: "r = Inr d" and d: "truthy d"
  from res [OF r] obtain x where x: "q = Inr x" "d = result_value x" by blast
  from says(2) [OF x(1)] obtain v where "x = Parsed v" "answer_says said (rstrip 47 url) (rstrip 47 url @ u ''/departments/'' @ str_int i) v"
    by (auto simp: lstrip_u u_slash)
  with x d show "said i d" by (auto simp: answer_says_def)
qed

lemma list_says:
  assumes "network_says N (rstrip 47 url) V said"
    and "as_prog (uni_client url N rid repr) (get_list (uni_client url N rid repr) (''/departments/'' @ p) ids) s = (r, s')"
    and "p \<in> {''by_ids'', ''by_uni_ids''}"
  shows "strings V (net s') \<subseteq>\<^sub>m strings V (net s)" and "r = Inr d \<Longrightarrow> departments_in said d"
proof -
  let ?K = "uni_client url N rid repr"
  have get: "get_list ?K (''/departments/'' @ p) ids = client_get ?K (47 # u (''departments/'' @ p)) (VDict [(u ''ids'', VList ids)])"
    by (simp add: get_list_def u_slash)
  obtain q where q: "client_get ?K (47 # u (''departments/'' @ p)) (VDict [(u ''ids'', VList ids)]) s = (q, s')"
      and res: "\<And>d. r = Inr d \<Longrightarrow> \<exists>x. q = Inr x \<and> d = result_value x"
    using as_prog_run [OF assms(2) [unfolded get]] by metis
  note says = client_says [OF assms(1) q]
  show "strings V (net s') \<subseteq>\<^sub>m strings V (net s)" by (rule says(1))
  assume r: "r = Inr d"
  from res [OF r] obtain x where x: "q = Inr x" "d = result_value x" by blast
  have "lstrip 47 (u (''departments/'' @ p)) = u (''departments/'' @ p)" using lstrip_u [of _ _ "[]"] by simp
  with says(2) [OF x(1)] obtain v where "x = Parsed v"
      "answer_says said (rstrip 47 url) (rstrip 47 url @ u (''/departments/'' @ p)) v"
    by (auto simp: u_slash)
  with x assms(3) show "departments_in said d" by (auto simp: answer_says_def)
qed

lemma school_says:
  assumes "network_says N (rstrip 47 url) V said"
    and "api_by_school (uni_service (uni_client url N rid repr)) j s = (r, s')"
  shows "strings V (net s') \<subseteq>\<^sub>m strings V (net s)" and "r = Inr d \<Longrightarrow> departments_in said d"
proof -
  let ?K = "uni_client url N rid repr"
  let ?ps = "VDict [(u ''school_id'', VInt j), (u ''limit'', VInt 100)]"
  obtain q t where q: "client_get ?K (47 # u ''departments'') ?ps s = (q, t)" by fastforce
  note says = client_says [OF assms(1) q]
  have run: "ApiClient.get_departments_by_school_id ?K j s = items_field (q, t)"
    using q by (simp add: ApiClient.get_departments_by_school_id_def u_slash)
  have keep: "snd (items_field (q, t)) = t" by (cases "(q, t)" rule: items_field.cases) auto
  have "s' = t" using assms(2) keep by (auto simp: uni_service_def run split: prod.splits sum.splits)
  then show "strings V (net s') \<subseteq>\<^sub>m strings V (net s)" using says(1) by simp
  assume "r = Inr d"
  with assms(2) have "fst (items_field (q, t)) = Inr d" by (auto simp: uni_service_def run split: prod.splits sum.splits)
  then obtain v where v: "q = Inr (Parsed v)" "item_of v (u ''items'') = Inr d"
    by (cases "(q, t)" rule: items_field.cases) (auto split: sum.splits)
  from says(2) [OF v(1)] have "answer_says said (rstrip 47 url) (rstrip 47 url @ u ''/departments'') v"
    using lstrip_u [of _ _ "[]"] by (simp add: u_slash)
  with v(2) show "departments_in said d" by (simp add: answer_says_def)
qed

lemma network_api_laws:
  assumes says: "network_says N (rstrip 47 url) V said"
  shows "api_laws (uni_service (uni_client url N rid repr)) (over_net V) said"
proof -
  let ?K = "uni_client url N rid repr"
  have strings: "strings (over_net V) s = strings V (net s)" for s by (simp add: over_net_def)
  have lists: "list_call (over_net V) said (as_prog ?K (get_list ?K (''/departments/'' @ p) ids))"
    if "p \<in> {''by_ids'', ''by_uni_ids''}" for p ids
    unfolding list_call_def strings using list_says [OF says _ that] by (auto simp: departments_in_def)
  have "one_call (over_net V) (said i) (api_department (uni_service ?K) i)" for i
    unfolding one_call_def strings using department_says [OF says] by (auto simp: uni_service_def)
  moreover have "list_call (over_net V) said (api_by_ids (uni_service ?K) ids)" for ids
    using lists [of "''by_ids''"] by (simp add: uni_service_def ApiClient.get_departments_by_ids_def)
  moreover have "list_call (over_net V) said (api_by_universities (uni_service ?K) ids)" for ids
    using lists [of "''by_uni_ids''"] by (simp add: uni_service_def ApiClient.get_departments_by_university_ids_def)
  moreover have "list_call (over_net V) said (api_by_school (uni_service ?K) j)" for j
    unfolding list_call_def strings using school_says [OF says] by (auto simp: departments_in_def)
  moreover have "said i d \<longrightarrow> numbered i d" for i d using says by (simp add: network_says_def)
  ultimately show ?thesis by (simp add: api_laws_def)
qed

section \<open>A lookup through the cache and the network\<close>

text \<open>The Redis server answers the reads, with JSON; its writes may raise, but are not cancelled.\<close>

definition redis_readable :: "'w redis_client \<Rightarrow> bool" where
  "redis_readable C \<longleftrightarrow> (\<forall>k w. \<exists>x. fst (r_get C k w) = Inr x \<and> (\<forall>t. x = Some t \<and> t \<noteq> [] \<longrightarrow> loads t \<noteq> None)) \<and>
     (\<forall>k v e. raises_exceptions (r_set C k v e))"

lemma map_outcome_polite:
  assumes "network_polite N" and "N rq w = (out, w')" and "map_outcome raw out = Inl e"
  shows "is_Exception (error_exn repr e)"
proof -
  have "case out of Answered a \<Rightarrow> (\<forall>e. json_content a = Inl e \<longrightarrow> is_Exception e)
      | NetworkError _ \<Rightarrow> True | OtherError e \<Rightarrow> is_Exception e"
    using assms(1) [unfolded network_polite_def, THEN spec, THEN spec, of rq w] unfolding assms(2) fst_conv .
  with assms(3) show ?thesis
    by (auto simp: map_outcome_def map_answer_def success_result_def upstream_default_def
        split: http_outcome.splits if_splits sum.splits)
qed

lemma department_polite:
  assumes "network_polite N"
  shows "raises_exceptions (api_department (uni_service (uni_client url N rid repr)) i)"
  unfolding raises_exceptions_def
proof (intro allI impI)
  let ?K = "uni_client url N rid repr"
  fix s e s'
  assume "api_department (uni_service ?K) i s = (Inl e, s')"
  moreover have "get_department ?K (VInt i) = client_get ?K (47 # u ''departments/'' @ str_int i) VNone"
    by (simp add: get_department_def get_by_segment_def segment_int u_slash)
  ultimately obtain x where "client_get ?K (47 # u ''departments/'' @ str_int i) VNone s = (Inl x, s')" "e = error_exn repr x"
    by (auto simp: uni_service_def as_prog_def split: prod.splits sum.splits) (auto simp: uni_client_def)
  with client_get_run map_outcome_polite [OF assms] show "is_Exception e" by metis
qed

lemma in_world_polite: "raises_exceptions m \<Longrightarrow> raises_exceptions (in_world m)"
  unfolding raises_exceptions_def in_world_def by (fastforce split: prod.splits)

lemma command_polite: "raises_exceptions m \<Longrightarrow> raises_exceptions (command m)"
  unfolding command_def not_initialized_def
  by (intro raises_exceptions_bind raises_exceptions_intros)
    (auto split: option.split intro!: raises_exceptions_intros in_world_polite)

lemma set_json_polite: "\<forall>k v e. raises_exceptions (r_set C k v e) \<Longrightarrow> raises_exceptions (set_json C k v e)"
  by (auto simp: set_json_def set_value_def not_serializable_def split: option.split
      intro!: raises_exceptions_intros command_polite)

lemma department_survives:
  assumes "redis_readable C" and "client s \<noteq> None" and "raises_exceptions (api_department A i)"
    and run: "get_department_by_id_cached C A i s = (r, s')"
  shows "\<exists>d. r = Inr d"
proof -
  obtain q w where q: "r_get C (dept_key A (VInt i)) (world s) = (q, w)" by fastforce
  have "fst (r_get C (dept_key A (VInt i)) (world s)) = q" by (simp add: q)
  with assms(1) obtain x where x: "q = Inr x" "\<forall>t. x = Some t \<and> t \<noteq> [] \<longrightarrow> loads t \<noteq> None"
    unfolding redis_readable_def by metis
  then have "\<exists>d t. get_json C (dept_key A (VInt i)) s = (Inr d, t)"
    using q assms(2) by (auto simp: get_json_def get_def command_def in_world_def prog_defs split: option.split)
  then obtain d t where d: "get_json C (dept_key A (VInt i)) s = (Inr d, t)" by blast
  show ?thesis
  proof (cases "truthy d")
    case True
    with d run show ?thesis by (auto simp: get_department_by_id_cached_def prog_defs)
  next
    case False
    have "raises_exceptions (bindM (in_world (api_department A i)) (\<lambda>data.
        if truthy data then thenM (set_json C (dept_key A (VInt i)) data (Some CACHE_TTL)) (ret data) else ret VNone))"
      using assms(1) by (intro raises_exceptions_bind in_world_polite assms(3))
        (auto simp: redis_readable_def intro!: raises_exceptions_then raises_exceptions_intros set_json_polite)
    from caught_returns [OF this] run d False show ?thesis
      by (auto simp: get_department_by_id_cached_def bindM_run)
  qed
qed

text \<open>
  C37. A department looked up through the cache and the HTTP client is the right one or none. As long as Redis can be
  read and the 2xx answers of the universities service are JSON and tell the truth (\<open>network_says\<close>), whatever errors it
  and the network give (any other status, a JSON body that does not parse, a network error or a timeout) and whether or
  not the answer can be stored, the lookup returns: with a department the service gave for that number, or
  with \<open>None\<close>; and the cache still holds nothing else. Without the condition on the 2xx answers it does not hold:
  \<open>text_answer_is_cached\<close> below.
\<close>

theorem department_lookup_over_http:
  assumes "redis_laws C (over_net V)" and "redis_readable C" and "client s \<noteq> None"
    and "network_says N (rstrip 47 url) V said" and "network_polite N"
    and "cache_ok C (over_net V) (uni_service (uni_client url N rid repr)) said s"
    and "get_department_by_id_cached C (uni_service (uni_client url N rid repr)) i s = (r, s')"
  shows "(\<exists>d. r = Inr d \<and> (d = VNone \<or> said i d)) \<and>
    cache_ok C (over_net V) (uni_service (uni_client url N rid repr)) said s'"
proof -
  have "served C (over_net V) (uni_service (uni_client url N rid repr)) said"
    using assms(1) network_api_laws [OF assms(4)] by (simp add: served_def)
  from maintains_case [OF one_keeps [OF this, of i] assms(6)] assms(7)
    department_survives [OF assms(2,3) department_polite [OF assms(5)] assms(7)]
  show ?thesis by auto
qed

text \<open>A service with one department, at an address of its own, that is otherwise down; and a Redis that keeps nothing.\<close>

definition example_network :: "unit network" where
  "example_network rq w =
     ((if req_url rq = u ''http://uni/departments/7''
       then Answered \<lparr>code = 200, content_type = u ''application/json'', raw_content = [], text_content = [],
              json_content = Inr example_department\<rparr>
       else Answered (example_answer 503 (u ''down''))), w)"

lemma example_network_says:
  "network_says example_network (rstrip 47 (u ''http://uni'')) \<lparr>strings = \<lambda>_. Map.empty, hashes = \<lambda>_ _. Map.empty\<rparr> example_said"
proof -
  have numbered: "numbered 7 example_department"
    by (simp add: numbered_def example_department_def read_key_def json_value_def dict_wf_def digits.simps max_str_digits_def)
  have base: "rstrip 47 (u ''http://uni'') = u ''http://uni''" by (simp add: rstrip_def u_def)
  have "u ''http://uni/departments/7'' = u ''http://uni'' @ u ''/departments/'' @ str_int i \<Longrightarrow> i = 7" for i
  proof -
    assume "u ''http://uni/departments/7'' = u ''http://uni'' @ u ''/departments/'' @ str_int i"
    also have "u ''http://uni/departments/7'' = u ''http://uni'' @ u ''/departments/'' @ str_int 7"
      by (simp add: u_def str_int_def digits.simps)
    finally show ?thesis by simp
  qed
  then have "answer_says example_said (u ''http://uni'') (u ''http://uni/departments/7'') example_department"
    by (auto simp: answer_says_def example_said_def u_append [symmetric])
  moreover have "contains t t" for t :: pystr
    unfolding contains_iff by (rule exI [of _ "[]"], rule exI [of _ "[]"]) simp
  ultimately show ?thesis
    unfolding base network_says_def
    by (auto simp: example_network_def example_said_def numbered example_answer_def is_success_def split: if_splits)
qed

theorem department_lookup_over_http_witness:
  "fst (get_department_by_id_cached idle_redis
      (uni_service (uni_client (u ''http://uni'') example_network [] (\<lambda>_. []))) 8
      \<lparr>client = Some \<lparr>redis_host = u ''redis'', redis_port = 6379, redis_password = None, redis_db = 0\<rparr>,
       world = \<lparr>shared = None, net = ()\<rparr>\<rparr>) = Inr VNone"
proof -
  let ?A = "uni_service (uni_client (u ''http://uni'') example_network [] (\<lambda>_. []))"
  let ?V = "\<lparr>strings = \<lambda>_. Map.empty, hashes = \<lambda>_ _. Map.empty\<rparr> :: unit redis_view"
  let ?s = "\<lparr>client = Some \<lparr>redis_host = u ''redis'', redis_port = 6379, redis_password = None, redis_db = 0\<rparr>,
      world = \<lparr>shared = None, net = ()\<rparr>\<rparr>"
  obtain r s' where run: "get_department_by_id_cached idle_redis ?A 8 ?s = (r, s')" by fastforce
  have laws: "redis_laws idle_redis (over_net ?V)" using idle_redis_laws by (simp add: over_net_def)
  have readable: "redis_readable (idle_redis :: unit http_state redis_client)"
    by (simp add: redis_readable_def idle_redis_def raises_exceptions_intros) (simp add: ret_def)
  have polite: "network_polite example_network"
    by (simp add: network_polite_def example_network_def example_answer_def type_error_def)
  have cache: "cache_ok idle_redis (over_net ?V) ?A example_said ?s"
    by (simp add: cache_ok_def stored_json_def over_net_def)
  from department_lookup_over_http [OF laws readable _ example_network_says polite cache run]
  show ?thesis by (auto simp: run example_said_def)
qed

section \<open>A 2xx answer that is not JSON\<close>

text \<open>
  The client returns the text of a 2xx answer that is not declared as JSON, and the lookup takes any non-empty text for
  the department: it returns it and stores it. The page a proxy sends with status 200 while the service is down is the
  department for the next hour.
\<close>

definition page_network :: "(pystr \<rightharpoonup> pystr) network" where
  "page_network rq w = (Answered \<lparr>code = 200, content_type = u ''text/html'', raw_content = [], text_content = u ''down'',
     json_content = Inl type_error\<rparr>, w)"

text \<open>A Redis that keeps its strings.\<close>

definition keeping_redis :: "(pystr \<rightharpoonup> pystr) http_state redis_client" where
  "keeping_redis = idle_redis\<lparr>r_get := (\<lambda>k s. (Inr (net s k), s)),
     r_set := (\<lambda>k v e s. (Inr (), s\<lparr>net := (net s)(k \<mapsto> v)\<rparr>))\<rparr>"

lemma text_answer_is_cached:
  "\<exists>s'. get_department_by_id_cached keeping_redis
      (uni_service (uni_client (u ''http://uni'') page_network [] (\<lambda>_. []))) 7
      \<lparr>client = Some \<lparr>redis_host = u ''redis'', redis_port = 6379, redis_password = None, redis_db = 0\<rparr>,
       world = \<lparr>shared = None, net = Map.empty\<rparr>\<rparr> = (Inr (VStr (u ''down'')), s') \<and>
    net (world s') (u ''department:7'') = dumps False (VStr (u ''down''))"
proof -
  let ?K = "uni_client (u ''http://uni'') page_network [] (\<lambda>_. [])"
  have page: "map_outcome False (fst (page_network rq w)) = Inr (AsText (u ''down''))" for rq w
    by (simp add: page_network_def map_outcome_def map_answer_def is_success_def success_result_def contains_def
        startswith_def u_def)
  have get: "get_department ?K (VInt 7) = client_get ?K (47 # u ''departments/'' @ str_int 7) VNone"
    by (simp add: get_department_def get_by_segment_def segment_int u_slash)
  have call: "\<exists>t. client_get ?K (47 # u ''departments/'' @ str_int 7) VNone s = (Inr (AsText (u ''down'')), t) \<and> net t = net s" for s
  proof -
    obtain r t where r: "client_get ?K (47 # u ''departments/'' @ str_int 7) VNone s = (r, t)" by fastforce
    from client_get_run [OF r] page show ?thesis using r by (auto simp: page_network_def)
  qed
  have key: "dept_key (uni_service ?K) (VInt 7) = u ''department:7''"
    by (simp add: dept_key_def u_def str_int_def digits.simps)
  obtain t where t: "client_get ?K (47 # u ''departments/'' @ str_int 7) VNone \<lparr>shared = None, net = Map.empty\<rparr> =
      (Inr (AsText (u ''down'')), t)" "net t = Map.empty"
    using call [of "\<lparr>shared = None, net = Map.empty\<rparr>"] by auto
  obtain j where j: "dumps False (VStr (u ''down'')) = Some j" by simp
  have "api_department (uni_service ?K) 7 = as_prog ?K (client_get ?K (47 # u ''departments/'' @ str_int 7) VNone)"
    by (simp add: uni_service_def get)
  with t have "api_department (uni_service ?K) 7 \<lparr>shared = None, net = Map.empty\<rparr> = (Inr (VStr (u ''down'')), t)"
    by (simp add: as_prog_def)
  moreover have "truthy (VStr (u ''down''))" by (simp add: u_def)
  ultimately show ?thesis
    by (simp add: get_department_by_id_cached_def get_json_def get_def set_json_def set_value_def command_def in_world_def
        keeping_redis_def key prog_defs j t(2) del: dumps.simps)
qed

end
