(* ===== verification/Storage.thy ===== *)
theory Storage imports Exceptions JsonCodec begin

text \<open>
  \<open>storage/s3.py\<close>: the storage of files in two buckets of an S3 service. The client library and the service are a
  parameter (\<open>s3_calls\<close>).
\<close>

section \<open>The storage\<close>

record s3_config =
  r2_endpoint_url :: pystr
  r2_access_key_id :: pystr
  r2_secret_access_key :: pystr
  r2_private_bucket :: "pystr option"
  r2_public_bucket :: "pystr option"

text \<open>The arguments the client is made with.\<close>

record s3_client_options =
  endpoint_url :: pystr
  aws_access_key_id :: pystr
  aws_secret_access_key :: pystr
  signature_version :: pystr
  max_attempts :: nat
  retry_mode :: pystr
  region_name :: pystr

text \<open>
  What the storage asks of the library: to open a client (\<open>__aenter__\<close>), to close it (\<open>__aexit__\<close>), and the three
  requests with their keyword arguments.
\<close>

record 'w s3_calls =
  s3_enter :: "s3_client_options \<Rightarrow> ('w, exn, unit) prog"
  s3_exit :: "('w, exn, unit) prog"
  put_object :: "(pystr, pyval) dict \<Rightarrow> ('w, exn, unit) prog"
  generate_presigned_url :: "pystr \<Rightarrow> (pystr, pyval) dict \<Rightarrow> int \<Rightarrow> ('w, exn, pystr) prog"
  delete_object :: "(pystr, pyval) dict \<Rightarrow> ('w, exn, unit) prog"

text \<open>\<open>s3_client\<close> holds the options of the open client, \<open>None\<close> before \<open>start\<close> and after \<open>stop\<close>.\<close>

record 'w s3_state =
  s3_client :: "s3_client_options option"
  s3_world :: 'w

datatype bucket_type = Private | Public

definition new_storage :: "'w \<Rightarrow> 'w s3_state" where
  "new_storage w = \<lparr>s3_client = None, s3_world = w\<rparr>"

definition in_s3 :: "('w, exn, 'a) prog \<Rightarrow> ('w s3_state, exn, 'a) prog" where
  "in_s3 m = (\<lambda>s. case m (s3_world s) of (r, w) \<Rightarrow> (r, s\<lparr>s3_world := w\<rparr>))"

definition client_options :: "s3_config \<Rightarrow> s3_client_options" where
  "client_options cfg = \<lparr>endpoint_url = r2_endpoint_url cfg, aws_access_key_id = r2_access_key_id cfg,
     aws_secret_access_key = r2_secret_access_key cfg, signature_version = u ''s3v4'', max_attempts = 3,
     retry_mode = u ''standard'', region_name = u ''auto''\<rparr>"

definition s3_start :: "s3_config \<Rightarrow> 'w s3_calls \<Rightarrow> ('w s3_state, exn, unit) prog" where
  "s3_start cfg X = thenM (in_s3 (s3_enter X (client_options cfg)))
     (modifyM (\<lambda>s. s\<lparr>s3_client := Some (client_options cfg)\<rparr>))"

definition s3_stop :: "'w s3_calls \<Rightarrow> ('w s3_state, exn, unit) prog" where
  "s3_stop X = bindM (getM s3_client) (\<lambda>c. case c of
     None \<Rightarrow> ret ()
   | Some _ \<Rightarrow> thenM (in_s3 (s3_exit X)) (modifyM (\<lambda>s. s\<lparr>s3_client := None\<rparr>)))"

definition runtime_error :: "string \<Rightarrow> exn" where
  "runtime_error m = Builtin ''RuntimeError'' (u m)"

definition ensure_client :: "('w s3_state, exn, unit) prog" where
  "ensure_client = bindM (getM s3_client) (\<lambda>c. case c of
     None \<Rightarrow> raise (runtime_error ''S3Storage client not initialized. Make sure to call start() within the application lifespan.'')
   | Some _ \<Rightarrow> ret ())"

text \<open>A bucket whose name is the empty text is not configured either.\<close>

definition get_bucket_name :: "s3_config \<Rightarrow> bucket_type \<Rightarrow> exn + pystr" where
  "get_bucket_name cfg b = (case b of
     Private \<Rightarrow> (case r2_private_bucket cfg of
         None \<Rightarrow> Inl (runtime_error ''Private bucket is not configured for this API.'')
       | Some n \<Rightarrow> (if n = [] then Inl (runtime_error ''Private bucket is not configured for this API.'') else Inr n))
   | Public \<Rightarrow> (case r2_public_bucket cfg of
         None \<Rightarrow> Inl (runtime_error ''Public bucket is not configured for this API.'')
       | Some n \<Rightarrow> (if n = [] then Inl (runtime_error ''Public bucket is not configured for this API.'') else Inr n)))"

definition with_bucket :: "s3_config \<Rightarrow> bucket_type \<Rightarrow> (pystr \<Rightarrow> ('w, exn, 'a) prog) \<Rightarrow> ('w s3_state, exn, 'a) prog" where
  "with_bucket cfg b request = thenM ensure_client (bindM (liftE (get_bucket_name cfg b)) (\<lambda>n. in_s3 (request n)))"

text \<open>\<open>if content_type\<close>: neither \<open>None\<close> nor the empty text is sent.\<close>

definition upload ::
  "s3_config \<Rightarrow> 'w s3_calls \<Rightarrow> pybytes \<Rightarrow> pystr \<Rightarrow> bucket_type \<Rightarrow> pystr option \<Rightarrow> ('w s3_state, exn, pystr) prog" where
  "upload cfg X file_data key b content_type =
     thenM (with_bucket cfg b (\<lambda>bucket. put_object X
         ([(u ''Bucket'', VStr bucket), (u ''Key'', VStr key), (u ''Body'', VBytes file_data)] @
          (case content_type of None \<Rightarrow> [] | Some t \<Rightarrow> (if t = [] then [] else [(u ''ContentType'', VStr t)])))))
       (ret key)"

definition get_presigned_url :: "s3_config \<Rightarrow> 'w s3_calls \<Rightarrow> pystr \<Rightarrow> int \<Rightarrow> ('w s3_state, exn, pystr) prog" where
  "get_presigned_url cfg X key expires = with_bucket cfg Private (\<lambda>bucket.
     generate_presigned_url X (u ''get_object'') [(u ''Bucket'', VStr bucket), (u ''Key'', VStr key)] expires)"

definition delete_file :: "s3_config \<Rightarrow> 'w s3_calls \<Rightarrow> pystr \<Rightarrow> bucket_type \<Rightarrow> ('w s3_state, exn, unit) prog" where
  "delete_file cfg X key b = with_bucket cfg b (\<lambda>bucket. delete_object X [(u ''Bucket'', VStr bucket), (u ''Key'', VStr key)])"

section \<open>Buckets\<close>

lemma bucket_name_configured:
  "get_bucket_name cfg b = Inr n \<longleftrightarrow>
   n \<noteq> [] \<and> (case b of Private \<Rightarrow> r2_private_bucket cfg | Public \<Rightarrow> r2_public_bucket cfg) = Some n"
  by (auto simp: get_bucket_name_def split: bucket_type.splits option.splits)

text \<open>No operation reaches the service before \<open>start\<close>, after \<open>stop\<close>, or for a bucket that is not configured.\<close>

lemma unconfigured_untouched:
  assumes "s3_client s = None \<or> (\<forall>n. get_bucket_name cfg b \<noteq> Inr n)"
  shows "\<exists>e. exn_name e = u ''RuntimeError'' \<and> with_bucket cfg b request s = (Inl e, s)"
proof (cases "s3_client s")
  case None
  then show ?thesis by (simp add: with_bucket_def ensure_client_def prog_defs runtime_error_def)
next
  case (Some c)
  with assms obtain e where e: "get_bucket_name cfg b = Inl e" by (cases "get_bucket_name cfg b") auto
  then have "exn_name e = u ''RuntimeError''"
    by (auto simp: get_bucket_name_def runtime_error_def split: bucket_type.splits option.splits if_splits)
  with Some e show ?thesis by (simp add: with_bucket_def ensure_client_def prog_defs)
qed

lemma unconfigured_operations:
  assumes "s3_client s = None \<or> (\<forall>n. get_bucket_name cfg b \<noteq> Inr n)"
  shows "\<exists>e. exn_name e = u ''RuntimeError'' \<and> upload cfg X d k b t s = (Inl e, s)"
    and "\<exists>e. exn_name e = u ''RuntimeError'' \<and> delete_file cfg X k b s = (Inl e, s)"
    and "b = Private \<Longrightarrow> \<exists>e. exn_name e = u ''RuntimeError'' \<and> get_presigned_url cfg X k x s = (Inl e, s)"
proof -
  have thenM_raises: "\<exists>e. P e \<and> thenM m n s = (Inl e, s)" if "\<exists>e. P e \<and> m s = (Inl e, s)"
    for P :: "exn \<Rightarrow> bool" and m :: "('w s3_state, exn, unit) prog" and n :: "('w s3_state, exn, pystr) prog" and s
    using that by (auto simp: thenM_run)
  show "\<exists>e. exn_name e = u ''RuntimeError'' \<and> upload cfg X d k b t s = (Inl e, s)"
    unfolding upload_def by (rule thenM_raises, rule unconfigured_untouched [OF assms])
  show "\<exists>e. exn_name e = u ''RuntimeError'' \<and> delete_file cfg X k b s = (Inl e, s)"
    unfolding delete_file_def by (rule unconfigured_untouched [OF assms])
  show "\<exists>e. exn_name e = u ''RuntimeError'' \<and> get_presigned_url cfg X k x s = (Inl e, s)" if "b = Private"
    using unconfigured_untouched [OF assms] that unfolding get_presigned_url_def by blast
qed

text \<open>A stop that succeeds closes; one that raises, or a start that raises, changes nothing the storage keeps.\<close>

lemma s3_start_cases:
  assumes "s3_start cfg X s = (r, s')"
  shows "s3_client s' = (case r of Inl e \<Rightarrow> s3_client s | Inr _ \<Rightarrow> Some (client_options cfg))"
  using assms by (auto simp: s3_start_def in_s3_def prog_defs split: prod.splits sum.splits)

lemma s3_stop_cases:
  assumes "s3_stop X s = (r, s')"
  shows "s3_client s' = (case r of Inl e \<Rightarrow> s3_client s | Inr _ \<Rightarrow> None)"
  using assms by (auto simp: s3_stop_def in_s3_def prog_defs split: prod.splits sum.splits option.splits)

end
