(* ===== verification/Settings.thy ===== *)
theory Settings imports Exceptions begin

text \<open>
  \<open>config/settings.py\<close>, \<open>db/engine.py\<close> and \<open>db/mixins.py\<close>: the settings, the URLs computed from them and the
  options of the database engine. What reads the URLs back is stated here too: the grammar of a database URL with
  percent-decoding of its credentials, and the \<open>%%\<close> of configparser.
\<close>

section \<open>Escapes that percent-decoding undoes\<close>

definition ascii :: "nat \<Rightarrow> bool" where
  "ascii c \<longleftrightarrow> c < 128"

text \<open>\<open>unquote\<close> of any text: the runs of ASCII characters are decoded, the others stay.\<close>

function unquote_text :: "pystr \<Rightarrow> pystr option" where
  "unquote_text [] = Some []"
| "unquote_text (c # s) =
     (if \<not> ascii c then map_option ((#) c) (unquote_text s)
      else (case utf8_decode (unquote_bytes (takeWhile ascii (c # s))) of
        None \<Rightarrow> None
      | Some t \<Rightarrow> map_option ((@) t) (unquote_text (dropWhile ascii (c # s)))))"
  by pat_completeness auto
termination
  by (relation "measure length") (auto simp: le_imp_less_Suc length_dropWhile_le)

declare unquote_text.simps(2) [simp del]

lemma utf8_decode_ascii: "list_all ascii bs \<Longrightarrow> utf8_decode bs = Some bs"
proof (induction bs)
  case (Cons b bs)
  then show ?case by (subst utf8_decode.simps) (simp add: ascii_def)
qed simp

definition escape_all :: "(nat \<Rightarrow> pystr) \<Rightarrow> pystr \<Rightarrow> pystr" where
  "escape_all esc s = concat (map esc s)"

lemma escape_all_simps [simp]:
  "escape_all esc [] = []" "escape_all esc (c # s) = esc c @ escape_all esc s"
  by (simp_all add: escape_all_def)

locale escape =
  fixes esc :: "nat \<Rightarrow> pystr"
  assumes esc_shape: "(esc c = [c] \<and> c \<noteq> 37) \<or>
    (\<exists>h l a b. esc c = [37, h, l] \<and> hex_value h = Some a \<and> hex_value l = Some b \<and> 16 * a + b = c \<and>
      ascii c \<and> ascii h \<and> ascii l)"
begin

abbreviation escaped :: "pystr \<Rightarrow> pystr" where
  "escaped s \<equiv> escape_all esc s"

lemma esc_ascii: "list_all ascii (esc c) \<longleftrightarrow> ascii c"
  using esc_shape [of c] by (auto simp: ascii_def)

lemma esc_other: "\<not> ascii c \<Longrightarrow> esc c = [c]"
  using esc_shape [of c] by auto

lemma unquote_bytes_escaped: "unquote_bytes (escaped s) = s"
proof (induction s)
  case (Cons c s)
  then show ?case using esc_shape [of c] by (auto simp: unquote_bytes_plain)
qed simp

lemma takeWhile_escaped: "takeWhile ascii (escaped s) = escaped (takeWhile ascii s)"
proof (induction s)
  case (Cons c s)
  then show ?case
    using esc_ascii [of c] esc_other [of c]
    by (cases "ascii c") (simp_all add: takeWhile_append list_all_iff)
qed simp

lemma dropWhile_escaped: "dropWhile ascii (escaped s) = escaped (dropWhile ascii s)"
proof (induction s)
  case (Cons c s)
  then show ?case
    using esc_ascii [of c] esc_other [of c]
    by (cases "ascii c") (simp_all add: dropWhile_append list_all_iff)
qed simp

lemma unquote_escaped: "unquote_text (escaped s) = Some s"
proof (induction s rule: measure_induct_rule [of length])
  case (less s)
  show ?case
  proof (cases s)
    case (Cons c s')
    show ?thesis
    proof (cases "ascii c")
      case False
      with less [of s'] Cons esc_other show ?thesis by (simp add: unquote_text.simps)
    next
      case True
      obtain d t where dt: "escaped s = d # t" using esc_shape [of c] Cons by (cases "escaped s") auto
      have "ascii d" using dt Cons True esc_shape [of c] by (auto simp: ascii_def)
      then have "unquote_text (escaped s) =
          (case utf8_decode (unquote_bytes (takeWhile ascii (escaped s))) of
             None \<Rightarrow> None | Some t \<Rightarrow> map_option ((@) t) (unquote_text (dropWhile ascii (escaped s))))"
        unfolding dt by (subst unquote_text.simps(2)) (simp only: not_not if_False simp_thms if_True)
      also have "utf8_decode (unquote_bytes (takeWhile ascii (escaped s))) = Some (takeWhile ascii s)"
        by (simp only: takeWhile_escaped unquote_bytes_escaped)
          (rule utf8_decode_ascii, auto simp: list_all_iff dest: set_takeWhileD)
      also have "unquote_text (dropWhile ascii (escaped s)) = Some (dropWhile ascii s)"
        unfolding dropWhile_escaped
        by (rule less) (use Cons True length_dropWhile_le [of ascii s'] in \<open>simp add: less_Suc_eq_le\<close>)
      finally show ?thesis by simp
    qed
  qed simp
qed

end

section \<open>The escapes of the credentials\<close>

definition url_user :: "pystr \<Rightarrow> pystr" where
  "url_user v = replace_char 47 (u ''%2F'') (replace_char 58 (u ''%3A'')
     (replace_char 64 (u ''%40'') (replace_char 37 (u ''%25'') v)))"

definition url_password :: "pystr \<Rightarrow> pystr" where
  "url_password v = replace_char 64 (u ''%40'') (replace_char 37 (u ''%25'') v)"

definition user_char :: "nat \<Rightarrow> pystr" where
  "user_char c = (if c = 37 then [37, 50, 53] else if c = 64 then [37, 52, 48] else if c = 58 then [37, 51, 65]
     else if c = 47 then [37, 50, 70] else [c])"

definition password_char :: "nat \<Rightarrow> pystr" where
  "password_char c = (if c = 37 then [37, 50, 53] else if c = 64 then [37, 52, 48] else [c])"

interpretation user: escape user_char
  by unfold_locales (auto simp: user_char_def hex_value_def ascii_def)

interpretation password: escape password_char
  by unfold_locales (auto simp: password_char_def hex_value_def ascii_def)

lemma url_user_escaped: "url_user v = escape_all user_char v"
proof (induction v)
  case (Cons c v)
  have "url_user (c # v) = user_char c @ url_user v"
    by (simp add: url_user_def user_char_def u_def)
  with Cons show ?case by simp
qed (simp add: url_user_def)

lemma url_password_escaped: "url_password v = escape_all password_char v"
proof (induction v)
  case (Cons c v)
  have "url_password (c # v) = password_char c @ url_password v"
    by (simp add: url_password_def password_char_def u_def)
  with Cons show ?case by simp
qed (simp add: url_password_def)

section \<open>The settings\<close>

text \<open>\<open>BaseAtsigSettings\<close>, read from the environment by pydantic; \<open>None\<close> is an optional setting that is not set.\<close>

record settings =
  ENVIRONMENT :: pystr
  GLITCHTIP_DSN :: "pystr option"
  ROOT_PATH :: pystr
  DOCS_URL :: pystr
  REDOC_URL :: pystr
  ATSIG_HOST_URL :: "pystr option"
  CORS_ORIGINS :: "pystr list"
  LOG_USER_EMAIL :: bool
  POSTGRES_USER :: pystr
  POSTGRES_PASSWORD :: pystr
  POSTGRES_SERVER :: pystr
  POSTGRES_PORT :: int
  POSTGRES_DB :: pystr
  DB_POOL_SIZE :: int
  DB_MAX_OVERFLOW :: int
  KEYCLOAK_REALM :: pystr
  KEYCLOAK_CLIENT_ID :: pystr
  KEYCLOAK_CLIENT_SECRET :: pystr
  AUTHORIZATION_URL :: pystr
  KEYCLOAK_VERIFY_SSL :: bool
  KEYCLOAK_EXPECTED_ISSUER :: "pystr option"
  KEYCLOAK_EXPECTED_AUDIENCE :: "pystr option"
  REDIS_SERVER :: "pystr option"
  REDIS_PORT :: int
  REDIS_PASSWORD :: "pystr option"
  R2_ENDPOINT_URL :: pystr
  R2_ACCESS_KEY_ID :: pystr
  R2_SECRET_ACCESS_KEY :: pystr
  R2_PRIVATE_BUCKET :: "pystr option"
  R2_PUBLIC_BUCKET :: "pystr option"
  R2_PUBLIC_DOMAIN :: "pystr option"

text \<open>The defaults, with the settings that have none.\<close>

definition default_settings ::
  "pystr \<Rightarrow> pystr \<Rightarrow> pystr \<Rightarrow> pystr \<Rightarrow> pystr \<Rightarrow> pystr \<Rightarrow> pystr \<Rightarrow> pystr \<Rightarrow> pystr \<Rightarrow> pystr \<Rightarrow> pystr \<Rightarrow> settings" where
  "default_settings pg_user pg_password pg_server pg_db rlm client secret auth_url r2_url r2_id r2_secret =
     \<lparr>ENVIRONMENT = u ''development'', GLITCHTIP_DSN = None, ROOT_PATH = [], DOCS_URL = u ''/docs'',
      REDOC_URL = u ''/redoc'', ATSIG_HOST_URL = None, CORS_ORIGINS = [u ''*''], LOG_USER_EMAIL = True,
      POSTGRES_USER = pg_user, POSTGRES_PASSWORD = pg_password, POSTGRES_SERVER = pg_server, POSTGRES_PORT = 5432,
      POSTGRES_DB = pg_db, DB_POOL_SIZE = 10, DB_MAX_OVERFLOW = 20, KEYCLOAK_REALM = rlm,
      KEYCLOAK_CLIENT_ID = client, KEYCLOAK_CLIENT_SECRET = secret, AUTHORIZATION_URL = auth_url,
      KEYCLOAK_VERIFY_SSL = True, KEYCLOAK_EXPECTED_ISSUER = None, KEYCLOAK_EXPECTED_AUDIENCE = None,
      REDIS_SERVER = None, REDIS_PORT = 6379, REDIS_PASSWORD = None, R2_ENDPOINT_URL = r2_url,
      R2_ACCESS_KEY_ID = r2_id, R2_SECRET_ACCESS_KEY = r2_secret, R2_PRIVATE_BUCKET = None, R2_PUBLIC_BUCKET = None,
      R2_PUBLIC_DOMAIN = None\<rparr>"

definition keycloak_base :: "settings \<Rightarrow> pystr" where
  "keycloak_base st = AUTHORIZATION_URL st @ u ''/realms/'' @ KEYCLOAK_REALM st @ u ''/protocol/openid-connect''"

definition database_url :: "settings \<Rightarrow> pystr" where
  "database_url st = u ''postgresql+asyncpg://'' @ url_user (POSTGRES_USER st) @ u '':'' @
     url_password (POSTGRES_PASSWORD st) @ u ''@'' @ POSTGRES_SERVER st @ u '':'' @ str_int (POSTGRES_PORT st) @
     u ''/'' @ POSTGRES_DB st"

definition alembic_database_url :: "settings \<Rightarrow> pystr" where
  "alembic_database_url st = replace_char 37 (u ''%%'') (database_url st)"

text \<open>An f-string writes \<open>None\<close> for a server that is not set; \<open>None\<close> of the result is \<open>UnicodeEncodeError\<close>.\<close>

definition redis_url :: "settings \<Rightarrow> pystr option" where
  "redis_url st =
     (let server = (case REDIS_SERVER st of None \<Rightarrow> u ''None'' | Some s \<Rightarrow> s);
          location = server @ u '':'' @ str_int (REDIS_PORT st) @ u ''/0''
      in case REDIS_PASSWORD st of
           None \<Rightarrow> Some (u ''redis://'' @ location)
         | Some p \<Rightarrow> (if p = [] then Some (u ''redis://'' @ location)
             else map_option (\<lambda>q. u ''redis://:'' @ q @ u ''@'' @ location) (quote (u ''/'') p)))"

section \<open>What is read back\<close>

text \<open>
  The credentials of a database URL: the user is what stands before the first \<open>:\<close> or \<open>/\<close> after the scheme, the
  password what stands before the next \<open>@\<close>; both are percent-decoded.
\<close>

definition after_scheme :: "pystr \<Rightarrow> pystr" where
  "after_scheme url = drop 3 (dropWhile (\<lambda>c. c \<noteq> 58) url)"

definition url_credentials :: "pystr \<Rightarrow> (pystr \<times> pystr \<times> pystr) option" where
  "url_credentials url =
     (let a = after_scheme url; usr = takeWhile (\<lambda>c. c \<noteq> 58 \<and> c \<noteq> 47) a;
          b = drop 1 (dropWhile (\<lambda>c. c \<noteq> 58 \<and> c \<noteq> 47) a);
          pwd = takeWhile (\<lambda>c. c \<noteq> 64) b; rest = drop 1 (dropWhile (\<lambda>c. c \<noteq> 64) b)
      in case unquote_text usr of None \<Rightarrow> None
         | Some usr \<Rightarrow> map_option (\<lambda>pwd. (usr, pwd, rest)) (unquote_text pwd))"

text \<open>The interpolation of configparser: \<open>%%\<close> is a percent sign, any other use of one is an error here.\<close>

fun interpolate :: "pystr \<Rightarrow> pystr option" where
  "interpolate [] = Some []"
| "interpolate [c] = (if c = 37 then None else Some [c])"
| "interpolate (c # d # s) =
     (if c \<noteq> 37 then map_option ((#) c) (interpolate (d # s))
      else if d = 37 then map_option ((#) 37) (interpolate s) else None)"

lemma interpolate_Cons: "c \<noteq> 37 \<Longrightarrow> interpolate (c # s) = map_option ((#) c) (interpolate s)"
  by (cases s) auto

lemma interpolate_doubled: "interpolate (replace_char 37 (u ''%%'') s) = Some s"
  by (induction s) (auto simp: u_def interpolate_Cons)

lemma escaped_chars:
  "\<forall>c \<in> set (escape_all user_char v). c \<noteq> 58 \<and> c \<noteq> 47" "\<forall>c \<in> set (escape_all password_char v). c \<noteq> 64"
  by (induction v) (auto simp: user_char_def password_char_def)

lemma take_drop_to:
  assumes "\<forall>c \<in> set a. P c" and "\<not> P d"
  shows "takeWhile P (a @ d # b) = a" and "dropWhile P (a @ d # b) = d # b"
  using assms by (simp_all add: takeWhile_append dropWhile_append)

text \<open>
  C32. Whatever characters the user name and the password of the database have, the engine that reads
  \<open>database_url\<close> gets exactly them, and Alembic's configparser gives back exactly that URL.
\<close>

theorem database_url_round_trip:
  "url_credentials (database_url st) = Some (POSTGRES_USER st, POSTGRES_PASSWORD st,
      POSTGRES_SERVER st @ u '':'' @ str_int (POSTGRES_PORT st) @ u ''/'' @ POSTGRES_DB st) \<and>
   interpolate (alembic_database_url st) = Some (database_url st)"
proof -
  let ?u = "escape_all user_char (POSTGRES_USER st)"
  let ?p = "escape_all password_char (POSTGRES_PASSWORD st)"
  let ?rest = "POSTGRES_SERVER st @ u '':'' @ str_int (POSTGRES_PORT st) @ u ''/'' @ POSTGRES_DB st"
  have url: "after_scheme (database_url st) = ?u @ 58 # ?p @ 64 # ?rest"
    by (simp add: after_scheme_def database_url_def url_user_escaped url_password_escaped u_def)
  have "url_credentials (database_url st) = Some (POSTGRES_USER st, POSTGRES_PASSWORD st, ?rest)"
    using take_drop_to [of ?u "\<lambda>c. c \<noteq> 58 \<and> c \<noteq> 47" 58] take_drop_to [of ?p "\<lambda>c. c \<noteq> 64" 64] escaped_chars
      user.unquote_escaped password.unquote_escaped
    by (simp add: url_credentials_def url Let_def)
  then show ?thesis by (simp add: alembic_database_url_def interpolate_doubled)
qed

text \<open>The host part of a URL ends at the first \<open>/\<close>: a Redis password with one is cut there.\<close>

definition host_part :: "pystr \<Rightarrow> pystr" where
  "host_part url = takeWhile (\<lambda>c. c \<noteq> 47) (after_scheme url)"

lemma redis_password_slash:
  assumes "REDIS_PASSWORD st = Some (u ''a/b'')"
  shows "map_option host_part (redis_url st) = Some (u '':a'')"
  using assms
  by (simp add: redis_url_def quote_def utf8_encode_def utf8_char_def quote_byte_def always_safe_def is_alpha_def
      is_digit_def scalar_text_def is_scalar_def is_surrogate_def u_def host_part_def after_scheme_def Let_def)

section \<open>The database engine\<close>

definition DEFAULT_ENGINE_OPTIONS :: "(pystr, pyval) dict" where
  "DEFAULT_ENGINE_OPTIONS = [(u ''echo'', VBool False), (u ''pool_size'', VInt 10), (u ''max_overflow'', VInt 20),
     (u ''pool_pre_ping'', VBool True), (u ''pool_recycle'', VInt 3600), (u ''hide_parameters'', VBool True)]"

text \<open>An engine and a session factory are the arguments they are made with.\<close>

record db_engine =
  engine_url :: pystr
  engine_options :: "(pystr, pyval) dict"

record session_factory =
  factory_engine :: db_engine
  expire_on_commit :: bool

definition create_db_engine :: "pystr \<Rightarrow> (pystr, pyval) dict \<Rightarrow> db_engine" where
  "create_db_engine url overrides =
     \<lparr>engine_url = url, engine_options = dict_merge (dict_merge [] DEFAULT_ENGINE_OPTIONS) overrides\<rparr>"

text \<open>\<open>getattr(settings, field, None)\<close> is \<open>read field\<close>, with \<open>VNone\<close> for a field that is missing or \<open>None\<close>.\<close>

definition pool_options :: "(pystr \<Rightarrow> pyval) \<Rightarrow> (pystr, pyval) dict" where
  "pool_options read = fold (\<lambda>(opt, field) options. if read field = VNone then options else AList.update opt (read field) options)
     [(u ''pool_size'', u ''DB_POOL_SIZE''), (u ''max_overflow'', u ''DB_MAX_OVERFLOW'')] []"

definition create_db_engine_from_settings :: "(pystr \<Rightarrow> pyval) \<Rightarrow> pystr \<Rightarrow> (pystr, pyval) dict \<Rightarrow> db_engine" where
  "create_db_engine_from_settings read url overrides =
     create_db_engine url (dict_merge (dict_merge [] (pool_options read)) overrides)"

definition create_session_factory :: "db_engine \<Rightarrow> bool \<Rightarrow> session_factory" where
  "create_session_factory engine expire = \<lparr>factory_engine = engine, expire_on_commit = expire\<rparr>"

definition read_pool :: "settings \<Rightarrow> pystr \<Rightarrow> pyval" where
  "read_pool st field = (if field = u ''DB_POOL_SIZE'' then VInt (DB_POOL_SIZE st)
     else if field = u ''DB_MAX_OVERFLOW'' then VInt (DB_MAX_OVERFLOW st) else VNone)"

lemma map_of_rev_merge:
  "dict_wf d \<Longrightarrow> map_of (rev (dict_merge d e)) = map_of d ++ map_of (rev e)"
  by (simp add: map_of_rev_distinct dict_wf_dict_merge map_of_dict_merge)

text \<open>An override wins over the settings, and the settings over the defaults.\<close>

lemma engine_option_layers:
  assumes "dict_wf overrides"
  shows "map_of (engine_options (create_db_engine_from_settings (read_pool st) url overrides)) =
    (map_of DEFAULT_ENGINE_OPTIONS)(u ''pool_size'' \<mapsto> VInt (DB_POOL_SIZE st), u ''max_overflow'' \<mapsto> VInt (DB_MAX_OVERFLOW st))
      ++ map_of overrides"
  using assms
  by (auto simp: create_db_engine_from_settings_def create_db_engine_def map_of_dict_merge map_of_rev_merge
      dict_wf_def [of "[]"] dict_wf_dict_merge map_of_rev_distinct pool_options_def read_pool_def
      DEFAULT_ENGINE_OPTIONS_def fun_eq_iff map_add_def split: option.splits)

section \<open>The mixins of the models\<close>

record column_options =
  is_primary_key :: bool
  is_autoincrement :: bool
  now_on_insert :: bool
  now_on_server :: bool
  now_on_update :: bool

definition timestamp_mixin :: "(pystr \<times> column_options) list" where
  "timestamp_mixin =
     [(u ''created_at'', \<lparr>is_primary_key = False, is_autoincrement = False, now_on_insert = True, now_on_server = True,
        now_on_update = False\<rparr>),
      (u ''updated_at'', \<lparr>is_primary_key = False, is_autoincrement = False, now_on_insert = True, now_on_server = True,
        now_on_update = True\<rparr>)]"

definition id_mixin :: "(pystr \<times> column_options) list" where
  "id_mixin = [(u ''id'', \<lparr>is_primary_key = True, is_autoincrement = True, now_on_insert = False, now_on_server = False,
     now_on_update = False\<rparr>)]"

end
