(* ===== verification/ServiceToken.thy ===== *)
theory ServiceToken imports Values begin

text \<open>
  \<open>auth/service_token.py\<close>: the token a service calls the others with, kept until 30 seconds before it expires.
  First the operations; then the callers of \<open>aget_token\<close> as a machine whose steps are the stretches of code
  between two points where another task or the thread of a refresh can run.
\<close>

section \<open>The manager\<close>

record token_manager =
  token :: "pyval"
  expires_at :: rat

definition create_service_token_manager :: token_manager where
  "create_service_token_manager = \<lparr>token = VNone, expires_at = 0\<rparr>"

definition is_fresh :: "rat \<Rightarrow> token_manager \<Rightarrow> bool" where
  "is_fresh t m \<longleftrightarrow> truthy (token m) \<and> t < expires_at m - 30"

text \<open>
  The answer of Keycloak to a request for a token. Reading a field that is missing raises \<open>KeyError\<close>; the time is
  added to a finite number.
\<close>

definition not_a_number :: exn where
  "not_a_number = Builtin ''TypeError'' (u ''unsupported operand type(s) for +'')"

fun seconds :: "pyval \<Rightarrow> exn + rat" where
  "seconds (VInt i) = Inr (of_int i)"
| "seconds (VBool b) = Inr (if b then 1 else 0)"
| "seconds (VFloat f) = Inr (float_value f)"
| "seconds _ = Inl not_a_number"

text \<open>What Keycloak and the clock are to the manager; \<open>'w\<close> is everything outside.\<close>

record 'w keycloak =
  time_now :: "'w \<Rightarrow> rat \<times> 'w"
  ask_token :: "'w \<Rightarrow> (exn + (pystr, pyval) dict) \<times> 'w"

record 'w token_state =
  manager :: token_manager
  beyond :: 'w

definition read_time :: "'w keycloak \<Rightarrow> ('w token_state, exn, rat) prog" where
  "read_time K = (\<lambda>s. case time_now K (beyond s) of (t, w) \<Rightarrow> (Inr t, s\<lparr>beyond := w\<rparr>))"

text \<open>\<open>_is_fresh\<close> reads the clock only when there is a token.\<close>

definition check_fresh :: "'w keycloak \<Rightarrow> ('w token_state, exn, bool) prog" where
  "check_fresh K = bindM (getM (\<lambda>s. truthy (token (manager s)))) (\<lambda>b.
     if b then bindM (read_time K) (\<lambda>t. getM (\<lambda>s. is_fresh t (manager s))) else ret False)"

definition request_token :: "'w keycloak \<Rightarrow> ('w token_state, exn, (pystr, pyval) dict) prog" where
  "request_token K = (\<lambda>s. case ask_token K (beyond s) of (r, w) \<Rightarrow> (r, s\<lparr>beyond := w\<rparr>))"

definition store_token :: "pyval \<Rightarrow> ('w token_state, exn, unit) prog" where
  "store_token v = modifyM (\<lambda>s. s\<lparr>manager := (manager s)\<lparr>token := v\<rparr>\<rparr>)"

definition store_expiry :: "rat \<Rightarrow> ('w token_state, exn, unit) prog" where
  "store_expiry t = modifyM (\<lambda>s. s\<lparr>manager := (manager s)\<lparr>expires_at := t\<rparr>\<rparr>)"

definition get_token :: "'w keycloak \<Rightarrow> ('w token_state, exn, pyval) prog" where
  "get_token K = bindM (check_fresh K) (\<lambda>fresh.
     if fresh then getM (\<lambda>s. token (manager s))
     else bindM (request_token K) (\<lambda>data.
          bindM (liftE (read_key data (u ''access_token''))) (\<lambda>tok.
          thenM (store_token tok)
         (bindM (read_time K) (\<lambda>t.
          bindM (liftE (read_key data (u ''expires_in''))) (\<lambda>d.
          bindM (liftE (seconds d)) (\<lambda>d.
          thenM (store_expiry (t + d)) (getM (\<lambda>s. token (manager s))))))))))"

text \<open>One caller alone: the lock changes nothing, and the thread runs \<open>get_token\<close>.\<close>

definition aget_token_alone :: "'w keycloak \<Rightarrow> ('w token_state, exn, pyval) prog" where
  "aget_token_alone K = bindM (check_fresh K) (\<lambda>fresh.
     if fresh then getM (\<lambda>s. token (manager s))
     else bindM (check_fresh K) (\<lambda>fresh.
       if fresh then getM (\<lambda>s. token (manager s)) else get_token K))"

section \<open>Many callers\<close>

text \<open>
  Where a caller of \<open>aget_token\<close> is: not called yet, waiting for the lock, with its thread before the check of
  \<open>get_token\<close>, with its thread waiting for Keycloak, after the token was stored and before its expiry is, and done.
\<close>

datatype caller =
    Idle
  | WaitLock
  | InThread
  | Asking
  | Stored pyval
  | Got pyval
  | Failed

fun refreshing :: "caller \<Rightarrow> bool" where
  "refreshing InThread \<longleftrightarrow> True"
| "refreshing Asking \<longleftrightarrow> True"
| "refreshing (Stored _) \<longleftrightarrow> True"
| "refreshing _ \<longleftrightarrow> False"

text \<open>
  \<open>gone\<close> are the callers that were cancelled while their thread ran: a thread is not stopped, but the lock is free
  again. \<open>requests\<close> and \<open>pairs\<close> are for the statements: how often Keycloak was asked, and the tokens it gave
  with the times they expire.
\<close>

record token_machine =
  mgr :: token_manager
  clock_now :: rat
  holder :: "nat option"
  callers :: "nat \<Rightarrow> caller"
  gone :: "nat set"
  requests :: nat
  pairs :: "(pyval \<times> rat) set"

definition start_machine :: "rat \<Rightarrow> token_machine" where
  "start_machine t = \<lparr>mgr = create_service_token_manager, clock_now = t, holder = None, callers = (\<lambda>_. Idle),
     gone = {}, requests = 0, pairs = {}\<rparr>"

definition moved :: "nat \<Rightarrow> caller \<Rightarrow> token_machine \<Rightarrow> token_machine" where
  "moved i c s = s\<lparr>callers := (callers s)(i := c)\<rparr>"

definition released :: "nat \<Rightarrow> token_machine \<Rightarrow> token_machine" where
  "released i s = (if holder s = Some i then s\<lparr>holder := None\<rparr> else s)"

text \<open>Keycloak gives a token that is not empty, or an error, or an answer without what the code reads.\<close>

inductive token_step :: "token_machine \<Rightarrow> token_machine \<Rightarrow> bool" where
  tick: "clock_now s \<le> t \<Longrightarrow> token_step s (s\<lparr>clock_now := t\<rparr>)"
| call_fresh: "callers s i = Idle \<Longrightarrow> is_fresh (clock_now s) (mgr s) \<Longrightarrow> token_step s (moved i (Got (token (mgr s))) s)"
| call_wait: "callers s i = Idle \<Longrightarrow> \<not> is_fresh (clock_now s) (mgr s) \<Longrightarrow> token_step s (moved i WaitLock s)"
| lock_fresh: "callers s i = WaitLock \<Longrightarrow> holder s = None \<Longrightarrow> is_fresh (clock_now s) (mgr s) \<Longrightarrow>
    token_step s (moved i (Got (token (mgr s))) s)"
| lock_thread: "callers s i = WaitLock \<Longrightarrow> holder s = None \<Longrightarrow> \<not> is_fresh (clock_now s) (mgr s) \<Longrightarrow>
    token_step s ((moved i InThread s)\<lparr>holder := Some i\<rparr>)"
| thread_fresh: "callers s i = InThread \<Longrightarrow> is_fresh (clock_now s) (mgr s) \<Longrightarrow>
    token_step s (released i (moved i (Got (token (mgr s))) s))"
| thread_ask: "callers s i = InThread \<Longrightarrow> \<not> is_fresh (clock_now s) (mgr s) \<Longrightarrow>
    token_step s ((moved i Asking s)\<lparr>requests := requests s + 1\<rparr>)"
| answer_token: "callers s i = Asking \<Longrightarrow> truthy tok \<Longrightarrow>
    token_step s ((moved i (Stored tok) s)\<lparr>mgr := (mgr s)\<lparr>token := tok\<rparr>\<rparr>)"
| answer_failed: "callers s i = Asking \<Longrightarrow> token_step s (released i (moved i Failed s))"
| expiry: "callers s i = Stored tok \<Longrightarrow>
    token_step s (released i ((moved i (Got (token (mgr s))) s)
      \<lparr>mgr := (mgr s)\<lparr>expires_at := clock_now s + d\<rparr>, pairs := insert (tok, clock_now s + d) (pairs s)\<rparr>))"
| expiry_failed: "callers s i = Stored tok \<Longrightarrow> token_step s (released i (moved i Failed s))"
| cancel_wait: "callers s i = WaitLock \<Longrightarrow> token_step s (moved i Failed s)"
| cancel_thread: "refreshing (callers s i) \<Longrightarrow> token_step s (released i s\<lparr>gone := insert i (gone s)\<rparr>)"

section \<open>One refresh at a time\<close>

definition one_refresh :: "token_machine \<Rightarrow> bool" where
  "one_refresh s \<longleftrightarrow> (\<forall>i. i \<notin> gone s \<longrightarrow> (refreshing (callers s i) \<longleftrightarrow> holder s = Some i)) \<and>
     (\<forall>i. holder s = Some i \<longrightarrow> i \<notin> gone s) \<and> (\<forall>i \<in> gone s. callers s i \<noteq> Idle \<and> callers s i \<noteq> WaitLock)"

lemma one_refresh_step: "token_step s s' \<Longrightarrow> one_refresh s \<Longrightarrow> one_refresh s'"
  by (induction rule: token_step.induct) (auto simp: one_refresh_def moved_def released_def split: if_splits)

lemma gone_step: "token_step s s' \<Longrightarrow> gone s \<subseteq> gone s'"
  by (induction rule: token_step.induct) (auto simp: moved_def released_def)

text \<open>
  The token in use belongs to its time of expiry. While a refresh is between storing the two, the old time has
  passed, so that nobody takes the new token by it.
\<close>

definition belongs :: "token_machine \<Rightarrow> bool" where
  "belongs s \<longleftrightarrow> 0 \<le> clock_now s \<and>
     (\<not> truthy (token (mgr s)) \<longrightarrow> expires_at (mgr s) = 0) \<and>
     (is_fresh (clock_now s) (mgr s) \<longrightarrow> (token (mgr s), expires_at (mgr s)) \<in> pairs s) \<and>
     (\<forall>i. callers s i = Asking \<or> (\<exists>tok. callers s i = Stored tok) \<longrightarrow> expires_at (mgr s) - 30 \<le> clock_now s) \<and>
     (\<forall>i tok. callers s i = Stored tok \<longrightarrow> truthy tok \<and> token (mgr s) = tok) \<and>
     (\<forall>i tok. callers s i = Got tok \<longrightarrow> tok \<in> fst ` pairs s)"

lemma belongs_taken: "belongs s \<Longrightarrow> is_fresh (clock_now s) (mgr s) \<Longrightarrow> token (mgr s) \<in> fst ` pairs s"
proof -
  assume "belongs s" "is_fresh (clock_now s) (mgr s)"
  then have "(token (mgr s), expires_at (mgr s)) \<in> pairs s" unfolding belongs_def by blast
  from imageI [OF this, of fst] show ?thesis by simp
qed

lemma belongs_step:
  assumes "token_step s s'" and "one_refresh s" and "gone s = {}" and "belongs s" and "gone s' = {}"
  shows "belongs s'"
proof -
  have only: "i = j" if "refreshing (callers s i)" "refreshing (callers s j)" for i j
    using that assms(2,3) by (auto simp: one_refresh_def)
  from assms(1) show ?thesis
  proof (cases rule: token_step.cases)
    case (tick t)
    with assms(4) show ?thesis by (auto simp: belongs_def is_fresh_def)
  next
    case (answer_token i tok)
    with assms(4) have "callers s j \<noteq> Stored tok'" for j tok' using only [of i j] by auto
    with answer_token assms(4) show ?thesis
      by (auto simp: belongs_def moved_def is_fresh_def)
  next
    case (expiry i tok d)
    have old: "truthy tok" "token (mgr s) = tok" "0 \<le> clock_now s" "\<forall>i t. callers s i = Got t \<longrightarrow> t \<in> fst ` pairs s"
      using expiry assms(4) by (auto simp: belongs_def)
    have new: "mgr s' = (mgr s)\<lparr>expires_at := clock_now s + d\<rparr>" "clock_now s' = clock_now s"
        "pairs s' = insert (tok, clock_now s + d) (pairs s)" "callers s' = (callers s)(i := Got tok)"
      using expiry old(2) by (simp_all add: moved_def released_def)
    have no: "callers s' j \<noteq> Asking" "callers s' j \<noteq> Stored t" for j t
      using expiry(2) only [of i j] by (cases "j = i", auto simp: new)+
    from old no show ?thesis by (simp add: belongs_def new)
  next
    case (call_fresh i)
    with assms(4) belongs_taken [OF assms(4)] show ?thesis by (auto simp: belongs_def moved_def)
  next
    case (lock_fresh i)
    with assms(4) belongs_taken [OF assms(4)] show ?thesis by (auto simp: belongs_def moved_def)
  next
    case (thread_fresh i)
    with assms(4) belongs_taken [OF assms(4)] show ?thesis by (auto simp: belongs_def moved_def released_def)
  next
    case (thread_ask i)
    with assms(4) show ?thesis by (auto simp: belongs_def moved_def is_fresh_def)
  next
    case (expiry_failed i tok)
    have "mgr s' = mgr s" "clock_now s' = clock_now s" "pairs s' = pairs s" "callers s' = (callers s)(i := Failed)"
      using expiry_failed by (simp_all add: moved_def released_def)
    with assms(4) show ?thesis by (simp add: belongs_def)
  next
    case (answer_failed i)
    have "mgr s' = mgr s" "clock_now s' = clock_now s" "pairs s' = pairs s" "callers s' = (callers s)(i := Failed)"
      using answer_failed by (simp_all add: moved_def released_def)
    with assms(4) show ?thesis by (simp add: belongs_def)
  qed (use assms(4,5) in \<open>auto simp: belongs_def moved_def released_def split: if_splits\<close>)
qed

lemma token_machine_inv:
  assumes "token_step\<^sup>*\<^sup>* (start_machine t) s" and "0 \<le> t"
  shows "one_refresh s \<and> (gone s = {} \<longrightarrow> belongs s)"
  using assms(1)
proof (induction rule: rtranclp_induct)
  case base
  show ?case
    using assms(2) by (simp add: one_refresh_def belongs_def start_machine_def create_service_token_manager_def is_fresh_def)
next
  case (step s s')
  with one_refresh_step gone_step belongs_step show ?case by blast
qed

text \<open>
  C18. For the callers of \<open>aget_token\<close>, however they interleave: of those that were not cancelled at most one refreshes
  at a time. As long as nobody is cancelled during a refresh, a token is taken by the time of expiry Keycloak gave
  with it, at least 30 seconds before that, and every caller that got a token got one that Keycloak issued. The
  restriction to callers that are not cancelled is needed: a cancelled one frees the lock while its thread goes on, and
  the next caller starts a second refresh (\<open>cancelled_refresh_overlaps\<close>), which the docstring of the class rules
  out. A direct call of \<open>get_token\<close>, which takes no lock, is not among the callers.
\<close>

theorem token_machine_safe:
  assumes "token_step\<^sup>*\<^sup>* (start_machine t) s" and "0 \<le> t"
  shows "(\<forall>i j. i \<notin> gone s \<and> j \<notin> gone s \<and> refreshing (callers s i) \<and> refreshing (callers s j) \<longrightarrow> i = j) \<and>
    (gone s = {} \<longrightarrow>
      (is_fresh (clock_now s) (mgr s) \<longrightarrow>
        (\<exists>e. (token (mgr s), e) \<in> pairs s \<and> e = expires_at (mgr s) \<and> clock_now s < e - 30)) \<and>
      (\<forall>i tok. callers s i = Got tok \<longrightarrow> tok \<in> fst ` pairs s))"
  using token_machine_inv [OF assms] by (auto simp: one_refresh_def belongs_def is_fresh_def)

text \<open>Cancelled in the middle of a refresh, a caller leaves its thread behind, and the next one starts another.\<close>

lemma cancelled_refresh_overlaps:
  "\<exists>s. token_step\<^sup>*\<^sup>* (start_machine 0) s \<and> callers s 0 = Asking \<and> callers s 1 = Asking"
proof -
  let ?a = "moved 0 WaitLock (start_machine 0)"
  let ?b = "(moved 0 InThread ?a)\<lparr>holder := Some 0\<rparr>"
  let ?c = "(moved 0 Asking ?b)\<lparr>requests := requests ?b + 1\<rparr>"
  let ?d = "released 0 ?c\<lparr>gone := insert 0 (gone ?c)\<rparr>"
  let ?e = "moved 1 WaitLock ?d"
  let ?f = "(moved 1 InThread ?e)\<lparr>holder := Some 1\<rparr>"
  let ?g = "(moved 1 Asking ?f)\<lparr>requests := requests ?f + 1\<rparr>"
  note defs = moved_def released_def start_machine_def create_service_token_manager_def is_fresh_def
  have "token_step (start_machine 0) ?a" by (rule call_wait) (simp_all add: defs)
  moreover have "token_step ?a ?b" by (rule lock_thread) (simp_all add: defs)
  moreover have "token_step ?b ?c" by (rule thread_ask) (simp_all add: defs)
  moreover have "token_step ?c ?d" by (rule cancel_thread) (simp_all add: defs)
  moreover have "token_step ?d ?e" by (rule call_wait) (simp_all add: defs)
  moreover have "token_step ?e ?f" by (rule lock_thread) (simp_all add: defs)
  moreover have "token_step ?f ?g" by (rule thread_ask) (simp_all add: defs)
  ultimately have "token_step\<^sup>*\<^sup>* (start_machine 0) ?g"
    by (meson converse_rtranclp_into_rtranclp rtranclp.rtrancl_refl)
  moreover have "callers ?g 0 = Asking" "callers ?g 1 = Asking" by (simp_all add: defs)
  ultimately show ?thesis by blast
qed

text \<open>While a token is fresh, nobody asks Keycloak.\<close>

lemma fresh_step:
  assumes "token_step s s'" and "one_refresh s" and "gone s = {}" and "holder s = None"
    and "is_fresh (clock_now s) (mgr s)" and "clock_now s' < expires_at (mgr s) - 30"
  shows "requests s' = requests s \<and> mgr s' = mgr s \<and> holder s' = None \<and> is_fresh (clock_now s') (mgr s') \<and> gone s' = {}"
proof -
  have "\<not> refreshing (callers s i)" for i using assms(2-4) by (auto simp: one_refresh_def)
  then have idle: "callers s i \<noteq> InThread" "callers s i \<noteq> Asking" "callers s i \<noteq> Stored tok" for i tok
    by (metis refreshing.simps)+
  from assms(1) \<open>\<And>i. \<not> refreshing (callers s i)\<close> show ?thesis
    by (cases rule: token_step.cases)
      (use assms(3-6) idle in \<open>simp_all add: moved_def released_def is_fresh_def\<close>)
qed

lemma shared_token:
  assumes "token_step\<^sup>*\<^sup>* (start_machine t) s" and "0 \<le> t" and "gone s = {}" and "holder s = None"
    and "is_fresh (clock_now s) (mgr s)"
    and "token_step\<^sup>*\<^sup>* s s'" and "clock_now s' < expires_at (mgr s) - 30"
  shows "requests s' = requests s \<and> mgr s' = mgr s"
proof -
  have forward: "token_step a b \<Longrightarrow> clock_now a \<le> clock_now b" for a b
    by (induction rule: token_step.induct) (auto simp: moved_def released_def)
  have "one_refresh s" using token_machine_inv [OF assms(1,2)] by simp
  from assms(6,7) have "requests s' = requests s \<and> mgr s' = mgr s \<and> holder s' = None \<and>
      is_fresh (clock_now s') (mgr s') \<and> gone s' = {} \<and> one_refresh s'"
  proof (induction rule: rtranclp_induct)
    case base
    show ?case using assms(3-5) \<open>one_refresh s\<close> by simp
  next
    case (step a b)
    from forward [OF step.hyps(2)] step.prems have "clock_now a < expires_at (mgr s) - 30" by linarith
    with step fresh_step [OF step.hyps(2)] one_refresh_step [OF step.hyps(2)] show ?case by auto
  qed
  then show ?thesis by simp
qed

text \<open>One caller, and a token for five minutes.\<close>

definition example_machine :: token_machine where
  "example_machine = \<lparr>mgr = \<lparr>token = VStr (u ''t''), expires_at = 300\<rparr>, clock_now = 0, holder = None,
     callers = (\<lambda>_. Idle)(0 := Got (VStr (u ''t''))), gone = {}, requests = 1, pairs = {(VStr (u ''t''), 300)}\<rparr>"

lemma example_refresh: "token_step\<^sup>*\<^sup>* (start_machine 0) example_machine"
proof -
  let ?tok = "VStr (u ''t'')"
  let ?a = "moved 0 WaitLock (start_machine 0)"
  let ?b = "(moved 0 InThread ?a)\<lparr>holder := Some 0\<rparr>"
  let ?c = "(moved 0 Asking ?b)\<lparr>requests := requests ?b + 1\<rparr>"
  let ?d = "(moved 0 (Stored ?tok) ?c)\<lparr>mgr := (mgr ?c)\<lparr>token := ?tok\<rparr>\<rparr>"
  let ?e = "released 0 ((moved 0 (Got (token (mgr ?d))) ?d)
      \<lparr>mgr := (mgr ?d)\<lparr>expires_at := clock_now ?d + 300\<rparr>, pairs := insert (?tok, clock_now ?d + 300) (pairs ?d)\<rparr>)"
  note defs = moved_def released_def start_machine_def create_service_token_manager_def is_fresh_def
  have "token_step (start_machine 0) ?a" by (rule call_wait) (simp_all add: defs)
  moreover have "token_step ?a ?b" by (rule lock_thread) (simp_all add: defs)
  moreover have "token_step ?b ?c" by (rule thread_ask) (simp_all add: defs)
  moreover have "token_step ?c ?d" by (rule answer_token) (simp_all add: defs)
  moreover have "token_step ?d ?e" by (rule expiry) (simp_all add: defs)
  moreover have "?e = example_machine" by (simp add: defs example_machine_def)
  ultimately show ?thesis
    by (metis (no_types, lifting) converse_rtranclp_into_rtranclp rtranclp.rtrancl_refl)
qed

theorem token_machine_safe_witness:
  "token_step\<^sup>*\<^sup>* (start_machine 0) example_machine \<and> callers example_machine 0 = Got (VStr (u ''t'')) \<and>
    VStr (u ''t'') \<in> fst ` pairs example_machine \<and>
    (\<exists>e. (token (mgr example_machine), e) \<in> pairs example_machine \<and> clock_now example_machine < e - 30)"
proof -
  have "is_fresh (clock_now example_machine) (mgr example_machine)" "gone example_machine = {}"
      "callers example_machine 0 = Got (VStr (u ''t''))"
    by (simp_all add: example_machine_def is_fresh_def)
  with token_machine_safe [OF example_refresh] example_refresh show ?thesis by auto
qed

end
