(* ===== verification/Lifecycle.thy ===== *)
theory Lifecycle imports ApiClient RedisManager Storage Settings ServiceToken AuthDependencies begin

text \<open>
  \<open>bootstrap.py\<close>: the shared clients of a service, built from its settings, started and stopped together. What the
  core needs of a client (its start and its stop touch only itself) is the locale \<open>managed_clients\<close>, interpreted on the
  HTTP client, the Redis manager and the storage.
\<close>

section \<open>The core\<close>

text \<open>A resource is what \<open>_resources\<close> lists: the name, with the object whose start and stop it has.\<close>

datatype resource = Http | Redis redis_params | Files s3_config

fun res_name :: "resource \<Rightarrow> pystr" where
  "res_name Http = u ''http''"
| "res_name (Redis _) = u ''redis''"
| "res_name (Files _) = u ''storage''"

record api_factory =
  factory_settings :: "pystr \<Rightarrow> pystr option"
  factory_tokens :: "token_manager option"

record 'c core =
  keycloak :: 'c
  oauth2_scheme :: oauth_scheme
  optional_oauth2_scheme :: oauth_scheme
  core_tokens :: token_manager
  core_redis :: "redis_params option"
  core_storage :: "s3_config option"
  core_apis :: "api_factory option"

text \<open>
  The state of the clients: the shared HTTP client, the connections of the Redis manager and of the storage, the list
  \<open>_started\<close>, and everything outside.
\<close>

record 'w core_state =
  http_shared :: "http_client option"
  redis_conn :: "redis_params option"
  s3_conn :: "s3_client_options option"
  started :: "resource list"
  outside :: 'w

record 'w libraries =
  http_aclose :: "('w, exn, unit) prog"
  redis_lib :: "'w redis_client"
  s3_lib :: "'w s3_calls"

definition on_http :: "('w http_state, exn, 'a) prog \<Rightarrow> ('w core_state, exn, 'a) prog" where
  "on_http m = (\<lambda>s. case m \<lparr>shared = http_shared s, net = outside s\<rparr> of
     (r, t) \<Rightarrow> (r, s\<lparr>http_shared := shared t, outside := net t\<rparr>))"

definition on_redis :: "('w redis_state, exn, 'a) prog \<Rightarrow> ('w core_state, exn, 'a) prog" where
  "on_redis m = (\<lambda>s. case m \<lparr>client = redis_conn s, world = outside s\<rparr> of
     (r, t) \<Rightarrow> (r, s\<lparr>redis_conn := client t, outside := world t\<rparr>))"

definition on_s3 :: "('w s3_state, exn, 'a) prog \<Rightarrow> ('w core_state, exn, 'a) prog" where
  "on_s3 m = (\<lambda>s. case m \<lparr>s3_client = s3_conn s, s3_world = outside s\<rparr> of
     (r, t) \<Rightarrow> (r, s\<lparr>s3_conn := s3_client t, outside := s3_world t\<rparr>))"

definition on_outside :: "('w, exn, 'a) prog \<Rightarrow> ('w core_state, exn, 'a) prog" where
  "on_outside m = (\<lambda>s. case m (outside s) of (r, w) \<Rightarrow> (r, s\<lparr>outside := w\<rparr>))"

definition resources :: "'c core \<Rightarrow> resource list" where
  "resources K = (case core_apis K of None \<Rightarrow> [] | Some _ \<Rightarrow> [Http]) @
     (case core_redis K of None \<Rightarrow> [] | Some p \<Rightarrow> [Redis p]) @
     (case core_storage K of None \<Rightarrow> [] | Some cfg \<Rightarrow> [Files cfg])"

fun start_resource :: "'w libraries \<Rightarrow> resource \<Rightarrow> ('w core_state, exn, unit) prog" where
  "start_resource L Http = on_http init_http"
| "start_resource L (Redis p) = on_redis (init_client p)"
| "start_resource L (Files cfg) = on_s3 (s3_start cfg (s3_lib L))"

fun stop_resource :: "'w libraries \<Rightarrow> resource \<Rightarrow> ('w core_state, exn, unit) prog" where
  "stop_resource L Http = on_http (close_http (http_aclose L))"
| "stop_resource L (Redis p) = on_redis (close_client (redis_lib L))"
| "stop_resource L (Files cfg) = on_s3 (s3_stop (s3_lib L))"

section \<open>Start, stop and the lifespan\<close>

primrec start_each ::
  "(resource \<Rightarrow> ('w core_state, exn, unit) prog) \<Rightarrow> resource list \<Rightarrow> ('w core_state, exn, unit) prog" where
  "start_each start [] = ret ()"
| "start_each start (r # rs) =
     thenM (start r) (thenM (modifyM (\<lambda>s. s\<lparr>started := started s @ [r]\<rparr>)) (start_each start rs))"

text \<open>\<open>while self._started\<close>: the number of turns is bounded by the length of the list.\<close>

primrec stop_loop ::
  "(resource \<Rightarrow> ('w core_state, exn, unit) prog) \<Rightarrow> nat \<Rightarrow> ('w core_state, exn, unit) prog" where
  "stop_loop stop 0 = ret ()"
| "stop_loop stop (Suc n) = bindM (getM started) (\<lambda>rs.
     if rs = [] then ret ()
     else thenM (modifyM (\<lambda>s. s\<lparr>started := butlast rs\<rparr>))
       (thenM (catchM is_Exception (stop (last rs)) (\<lambda>_. ret ())) (stop_loop stop n)))"

definition stop_started :: "(resource \<Rightarrow> ('w core_state, exn, unit) prog) \<Rightarrow> ('w core_state, exn, unit) prog" where
  "stop_started stop = bindM (getM started) (\<lambda>rs. stop_loop stop (length rs))"

definition start_or_stop ::
  "(resource \<Rightarrow> ('w core_state, exn, unit) prog) \<Rightarrow> (resource \<Rightarrow> ('w core_state, exn, unit) prog) \<Rightarrow> resource list
   \<Rightarrow> ('w core_state, exn, unit) prog" where
  "start_or_stop start stop rs = catchM (\<lambda>_. True) (start_each start rs) (\<lambda>e. thenM (stop_started stop) (raise e))"

definition stop_core :: "'w libraries \<Rightarrow> ('w core_state, exn, unit) prog" where
  "stop_core L = stop_started (stop_resource L)"

definition start_core :: "'c core \<Rightarrow> 'w libraries \<Rightarrow> ('w core_state, exn, unit) prog" where
  "start_core K L = start_or_stop (start_resource L) (stop_resource L) (resources K)"

primrec run_callbacks :: "('w, exn, unit) prog list \<Rightarrow> ('w core_state, exn, unit) prog" where
  "run_callbacks [] = ret ()"
| "run_callbacks (c # cs) = thenM (catchM is_Exception (on_outside c) (\<lambda>_. ret ())) (run_callbacks cs)"

text \<open>\<open>body\<close> is the application: what runs at the \<open>yield\<close>.\<close>

definition lifespan ::
  "'c core \<Rightarrow> 'w libraries \<Rightarrow> ('w, exn, unit) prog list \<Rightarrow> ('w core_state, exn, unit) prog \<Rightarrow> ('w core_state, exn, unit) prog" where
  "lifespan K L on_stop body =
     thenM (start_core K L) (finallyM body (thenM (stop_core L) (run_callbacks on_stop)))"

section \<open>Building the core\<close>

definition keycloak_view :: "settings \<Rightarrow> keycloak_settings" where
  "keycloak_view st =
     \<lparr>keycloak_settings.AUTHORIZATION_URL = settings.AUTHORIZATION_URL st,
      keycloak_settings.KEYCLOAK_CLIENT_ID = settings.KEYCLOAK_CLIENT_ID st,
      keycloak_settings.KEYCLOAK_REALM = settings.KEYCLOAK_REALM st,
      keycloak_settings.KEYCLOAK_CLIENT_SECRET = settings.KEYCLOAK_CLIENT_SECRET st,
      keycloak_settings.KEYCLOAK_VERIFY_SSL = settings.KEYCLOAK_VERIFY_SSL st,
      keycloak_settings.KEYCLOAK_EXPECTED_ISSUER = settings.KEYCLOAK_EXPECTED_ISSUER st,
      keycloak_settings.KEYCLOAK_EXPECTED_AUDIENCE = settings.KEYCLOAK_EXPECTED_AUDIENCE st\<rparr>"

definition no_redis_server :: exn where
  "no_redis_server = Builtin ''ValueError'' (u ''REDIS_SERVER is not set, but redis=True'')"

definition redis_of :: "settings \<Rightarrow> bool \<Rightarrow> exn + redis_params option" where
  "redis_of st redis =
     (if \<not> redis then Inr None
      else (case REDIS_SERVER st of
          None \<Rightarrow> Inl no_redis_server
        | Some server \<Rightarrow> (if server = [] then Inl no_redis_server
            else Inr (Some \<lparr>redis_host = server, redis_port = REDIS_PORT st, redis_password = REDIS_PASSWORD st, redis_db = 0\<rparr>))))"

definition storage_of :: "settings \<Rightarrow> s3_config" where
  "storage_of st = \<lparr>r2_endpoint_url = R2_ENDPOINT_URL st, r2_access_key_id = R2_ACCESS_KEY_ID st,
     r2_secret_access_key = R2_SECRET_ACCESS_KEY st, r2_private_bucket = R2_PRIVATE_BUCKET st,
     r2_public_bucket = R2_PUBLIC_BUCKET st\<rparr>"

text \<open>
  \<open>new_client\<close> is the \<open>KeycloakOpenID\<close> made for these settings, \<open>reg\<close> the registry of verifiers; \<open>read\<close> is
  \<open>getattr\<close> on the settings, which a service may extend with the URLs of the APIs.
\<close>

definition build_core ::
  "settings \<Rightarrow> (pystr \<Rightarrow> pystr option) \<Rightarrow> 'c \<Rightarrow> ('c \<rightharpoonup> verifier_config) \<Rightarrow> bool \<Rightarrow> bool \<Rightarrow> bool
   \<Rightarrow> (exn + 'c core) \<times> ('c \<rightharpoonup> verifier_config)" where
  "build_core st read new_client reg redis storage api_clients =
     (case create_keycloak_client (keycloak_view st) new_client reg of (kc, reg') \<Rightarrow>
       ((case redis_of st redis of
           Inl e \<Rightarrow> Inl e
         | Inr r \<Rightarrow> Inr \<lparr>keycloak = kc,
             oauth2_scheme = create_oauth_scheme (settings.AUTHORIZATION_URL st) (settings.KEYCLOAK_REALM st) True,
             optional_oauth2_scheme = create_oauth_scheme (settings.AUTHORIZATION_URL st) (settings.KEYCLOAK_REALM st) False,
             core_tokens = create_service_token_manager, core_redis = r,
             core_storage = (if storage then Some (storage_of st) else None),
             core_apis = (if api_clients
               then Some \<lparr>factory_settings = read, factory_tokens = Some create_service_token_manager\<rparr> else None)\<rparr>),
        reg'))"

text \<open>What is left out is not started; the order is HTTP, Redis, storage.\<close>

lemma resources_of_built:
  assumes "fst (build_core st read c reg redis storage api_clients) = Inr K"
  shows "map res_name (resources K) =
    (if api_clients then [u ''http''] else []) @ (if redis then [u ''redis''] else []) @ (if storage then [u ''storage''] else [])"
  using assms
  by (auto simp: build_core_def create_keycloak_client_def redis_of_def resources_def split: if_splits option.splits sum.splits)

lemma names_distinct: "distinct (map res_name (resources K))"
  by (auto simp: resources_def split: option.split)

section \<open>What the core relies on\<close>

text \<open>A stop may raise an \<open>Exception\<close> (and no cancellation), or it never raises.\<close>

definition polite :: "(resource \<Rightarrow> ('w core_state, exn, unit) prog) \<Rightarrow> bool" where
  "polite stop \<longleftrightarrow> (\<forall>q s e s'. stop q s = (Inl e, s') \<longrightarrow> is_Exception e)"

definition silent :: "(resource \<Rightarrow> ('w core_state, exn, unit) prog) \<Rightarrow> bool" where
  "silent stop \<longleftrightarrow> (\<forall>q s e s'. stop q s \<noteq> (Inl e, s'))"

text \<open>
  A client that starts is running and one that stops is not; a start or a stop that raises leaves it as it was. Neither
  touches the other clients or the list of what was started.
\<close>

locale managed_clients =
  fixes start :: "resource \<Rightarrow> ('w core_state, exn, unit) prog"
    and stop :: "resource \<Rightarrow> ('w core_state, exn, unit) prog"
    and running :: "pystr \<Rightarrow> 'w core_state \<Rightarrow> bool"
  assumes start_law: "start q s = (x, s') \<Longrightarrow>
      started s' = started s \<and> (\<forall>n. running n s' \<longleftrightarrow> running n s \<or> n = res_name q \<and> x = Inr ())"
    and stop_law: "stop q s = (x, s') \<Longrightarrow>
      started s' = started s \<and> (\<forall>n. running n s' \<longleftrightarrow> running n s \<and> \<not> (n = res_name q \<and> x = Inr ()))"
    and running_frame: "running n (s\<lparr>started := rs\<rparr>) \<longleftrightarrow> running n s"
begin

lemma start_each_run:
  assumes "start_each start rs s = (x, s')"
  shows "\<exists>up rest. rs = up @ rest \<and> started s' = started s @ up \<and> (x = Inr () \<longrightarrow> rest = []) \<and>
    (\<forall>n. running n s' \<longleftrightarrow> running n s \<or> n \<in> res_name ` set up)"
  using assms
proof (induction rs arbitrary: s)
  case Nil
  then show ?case by (simp add: ret_def)
next
  case (Cons r rs)
  obtain y t where r: "start r s = (y, t)" by (cases "start r s")
  note law = start_law [OF r]
  show ?case
  proof (cases y)
    case (Inl e)
    with Cons.prems r law show ?thesis by - (rule exI [of _ "[]"], rule exI [of _ "r # rs"], auto simp: prog_defs)
  next
    case (Inr v)
    with Cons.prems r have "start_each start rs (t\<lparr>started := started t @ [r]\<rparr>) = (x, s')" by (simp add: prog_defs)
    from Cons.IH [OF this] obtain up rest where "rs = up @ rest" "started s' = (started t @ [r]) @ up"
        "x = Inr () \<longrightarrow> rest = []" "\<forall>n. running n s' \<longleftrightarrow> running n t \<or> n \<in> res_name ` set up"
      by (auto simp: running_frame)
    with law Inr show ?thesis by - (rule exI [of _ "r # up"], rule exI [of _ rest], auto)
  qed
qed

lemma stop_loop_run:
  assumes "stop_loop stop k s = (x, s')" and "length (started s) \<le> k" and "polite stop"
  shows "x = Inr () \<and> started s' = [] \<and>
    (silent stop \<longrightarrow> (\<forall>n. running n s' \<longleftrightarrow> running n s \<and> n \<notin> res_name ` set (started s)))"
  using assms
proof (induction k arbitrary: s)
  case 0
  then show ?case by (simp add: ret_def)
next
  case (Suc k)
  show ?case
  proof (cases "started s" rule: rev_cases)
    case Nil
    with Suc.prems show ?thesis by (auto simp: prog_defs)
  next
    case (snoc rs r)
    obtain y t where r: "stop r (s\<lparr>started := rs\<rparr>) = (y, t)" by (cases "stop r (s\<lparr>started := rs\<rparr>)")
    note law = stop_law [OF r]
    have "is_Exception e" if "y = Inl e" for e using Suc.prems(3) r that by (auto simp: polite_def)
    then have "stop_loop stop k t = (x, s')"
      using Suc.prems(1) snoc r by (cases y) (auto simp: prog_defs)
    from Suc.IH [OF this] Suc.prems snoc law
    have rest: "x = Inr () \<and> started s' = [] \<and> (silent stop \<longrightarrow> (\<forall>n. running n s' \<longleftrightarrow> running n t \<and> n \<notin> res_name ` set rs))"
      by auto
    have "silent stop \<longrightarrow> y = Inr ()" using r by (cases y) (auto simp: silent_def)
    with rest law snoc show ?thesis by (auto simp: running_frame)
  qed
qed

lemma stop_started_run:
  assumes "stop_started stop s = (x, s')" and "polite stop"
  shows "x = Inr () \<and> started s' = [] \<and>
    (silent stop \<longrightarrow> (\<forall>n. running n s' \<longleftrightarrow> running n s \<and> n \<notin> res_name ` set (started s)))"
  using assms by (intro stop_loop_run) (auto simp: stop_started_def prog_defs)

lemma start_or_stop_run:
  assumes "start_or_stop start stop rs s = (x, s')" and "started s = []" and "polite stop"
  shows "case x of
      Inl e \<Rightarrow> started s' = [] \<and> (silent stop \<longrightarrow> (\<forall>n. running n s' \<longrightarrow> running n s))
    | Inr _ \<Rightarrow> started s' = rs \<and> (\<forall>n. running n s' \<longleftrightarrow> running n s \<or> n \<in> res_name ` set rs)"
proof -
  obtain y t where t: "start_each start rs s = (y, t)" by (cases "start_each start rs s")
  from start_each_run [OF t] assms(2) obtain up rest where up: "rs = up @ rest" "started t = up"
      "y = Inr () \<longrightarrow> rest = []" "\<forall>n. running n t \<longleftrightarrow> running n s \<or> n \<in> res_name ` set up"
    by auto
  show ?thesis
  proof (cases y)
    case (Inr v)
    with assms(1) t up show ?thesis by (auto simp: start_or_stop_def prog_defs)
  next
    case (Inl e)
    obtain z t' where stop: "stop_started stop t = (z, t')" by (cases "stop_started stop t")
    from stop_started_run [OF stop assms(3)] up have "z = Inr ()" "started t' = []"
        "silent stop \<longrightarrow> (\<forall>n. running n t' \<longrightarrow> running n s)" by auto
    with assms(1) t Inl stop show ?thesis by (auto simp: start_or_stop_def prog_defs)
  qed
qed

end

definition is_running :: "pystr \<Rightarrow> 'w core_state \<Rightarrow> bool" where
  "is_running n s \<longleftrightarrow> (n = u ''http'' \<and> http_shared s = Some Open) \<or> (n = u ''redis'' \<and> redis_conn s \<noteq> None) \<or>
     (n = u ''storage'' \<and> s3_conn s \<noteq> None)"

lemma start_resource_law:
  assumes "start_resource L q s = (x, s')"
  shows "started s' = started s \<and> (\<forall>n. is_running n s' \<longleftrightarrow> is_running n s \<or> n = res_name q \<and> x = Inr ())"
proof (cases q)
  case Http
  with assms show ?thesis
    by (auto simp: on_http_def init_http_def needs_client_def is_running_def prog_defs intro: http_client.exhaust split: if_splits)
next
  case (Redis p)
  with assms show ?thesis by (auto simp: on_redis_def init_client_def is_running_def prog_defs)
next
  case (Files cfg)
  obtain y t where t: "s3_start cfg (s3_lib L) \<lparr>s3_client = s3_conn s, s3_world = outside s\<rparr> = (y, t)" by fastforce
  with s3_start_cases [OF t] assms Files show ?thesis
    by (auto simp: on_s3_def is_running_def split: sum.splits)
qed

lemma stop_resource_law:
  assumes "stop_resource L q s = (x, s')"
  shows "started s' = started s \<and> (\<forall>n. is_running n s' \<longleftrightarrow> is_running n s \<and> \<not> (n = res_name q \<and> x = Inr ()))"
proof (cases q)
  case Http
  with assms show ?thesis
    by (auto simp: on_http_def close_http_def in_net_def is_running_def prog_defs split: if_splits prod.splits sum.splits)
next
  case (Redis p)
  with assms show ?thesis
    by (auto simp: on_redis_def close_client_def in_world_def is_running_def prog_defs split: option.splits prod.splits sum.splits)
next
  case (Files cfg)
  obtain y t where t: "s3_stop (s3_lib L) \<lparr>s3_client = s3_conn s, s3_world = outside s\<rparr> = (y, t)" by fastforce
  with s3_stop_cases [OF t] assms Files show ?thesis
    by (auto simp: on_s3_def is_running_def split: sum.splits)
qed

lemma is_running_started: "is_running n (s\<lparr>started := rs\<rparr>) \<longleftrightarrow> is_running n s"
  by (simp add: is_running_def)

interpretation clients: managed_clients "start_resource L" "stop_resource L" is_running
  for L :: "'w libraries"
  by unfold_locales (simp_all add: start_resource_law stop_resource_law is_running_started)

section \<open>The lifespan\<close>

definition never_raises :: "('w, exn, unit) prog \<Rightarrow> bool" where
  "never_raises m \<longleftrightarrow> (\<forall>w e w'. m w \<noteq> (Inl e, w'))"

definition closings :: "'w libraries \<Rightarrow> ('w, exn, unit) prog list" where
  "closings L = [http_aclose L, r_aclose (redis_lib L), s3_exit (s3_lib L)]"

lemma stop_resource_raises:
  assumes "stop_resource L q s = (Inl e, s')"
  shows "\<exists>m \<in> set (closings L). \<exists>w w'. m w = (Inl e, w')"
  using assms
  by (cases q) (auto simp: closings_def on_http_def close_http_def in_net_def on_redis_def close_client_def in_world_def
      on_s3_def s3_stop_def in_s3_def prog_defs split: if_splits option.splits prod.splits sum.splits)

lemma stop_polite: "\<forall>m \<in> set (closings L). raises_exceptions m \<Longrightarrow> polite (stop_resource L)"
  using stop_resource_raises unfolding polite_def raises_exceptions_def by metis

lemma stop_silent: "\<forall>m \<in> set (closings L). never_raises m \<Longrightarrow> silent (stop_resource L)"
  using stop_resource_raises unfolding silent_def never_raises_def by metis

lemma run_callbacks_run:
  "run_callbacks cs s = (x, s') \<Longrightarrow> \<forall>m \<in> set cs. raises_exceptions m \<Longrightarrow>
   x = Inr () \<and> started s' = started s \<and> (\<forall>n. is_running n s' \<longleftrightarrow> is_running n s)"
proof (induction cs arbitrary: s)
  case Nil
  then show ?case by (simp add: ret_def)
next
  case (Cons c cs)
  obtain y w where c: "c (outside s) = (y, w)" by fastforce
  have "is_Exception e" if "y = Inl e" for e using Cons.prems(2) c that by (auto simp: raises_exceptions_def)
  with Cons.prems(1) c have "run_callbacks cs (s\<lparr>outside := w\<rparr>) = (x, s')"
    by (cases y) (auto simp: on_outside_def prog_defs)
  from Cons.IH [OF this] Cons.prems(2) show ?case by (simp add: is_running_def)
qed

lemma start_core_run:
  assumes "start_core K L s = (x, t)" and "started s = []" and "\<forall>n. \<not> is_running n s"
    and "\<forall>m \<in> set (closings L). raises_exceptions m"
  shows "case x of
      Inl e \<Rightarrow> started t = [] \<and> ((\<forall>m \<in> set (closings L). never_raises m) \<longrightarrow> (\<forall>n. \<not> is_running n t))
    | Inr _ \<Rightarrow> started t = resources K \<and> (\<forall>n. is_running n t \<longleftrightarrow> n \<in> res_name ` set (resources K))"
  using clients.start_or_stop_run [OF assms(1) [unfolded start_core_def] assms(2) stop_polite [OF assms(4)]]
    assms(3) stop_silent [of L] by (auto split: sum.splits)

lemma lifespan_run:
  assumes "\<forall>m \<in> set (closings L @ on_stop). raises_exceptions m"
    and "started s = []" and "\<forall>n. \<not> is_running n s" and "\<forall>t. started (snd (body t)) = started t"
    and start: "start_core K L s = (x, t)" and run: "lifespan K L on_stop body s = (y, s')"
  shows "y = (case x of Inl e \<Rightarrow> Inl e | Inr _ \<Rightarrow> fst (body t)) \<and> started s' = [] \<and>
    (x = Inr () \<longrightarrow> (\<forall>r \<in> set (resources K). is_running (res_name r) t)) \<and>
    ((\<forall>m \<in> set (closings L). never_raises m) \<longrightarrow> (\<forall>r \<in> set (resources K). \<not> is_running (res_name r) s'))"
proof -
  have polite: "\<forall>m \<in> set (closings L). raises_exceptions m" using assms(1) by simp
  note up = start_core_run [OF start assms(2,3) polite]
  show ?thesis
  proof (cases x)
    case (Inl e)
    with up start run show ?thesis by (auto simp: lifespan_def prog_defs)
  next
    case (Inr v)
    obtain z t1 where body: "body t = (z, t1)" by fastforce
    with assms(4) have t1: "started t1 = started t" by (metis snd_conv)
    obtain a t2 where stop: "stop_core L t1 = (a, t2)" by fastforce
    from clients.stop_started_run [OF stop [unfolded stop_core_def] stop_polite [OF polite]]
    have down: "a = Inr ()" "started t2 = []"
      "silent (stop_resource L) \<longrightarrow> (\<forall>n. is_running n t2 \<longrightarrow> n \<notin> res_name ` set (started t1))" by auto
    obtain b t3 where cb: "run_callbacks on_stop t2 = (b, t3)" by fastforce
    with run_callbacks_run [OF cb] assms(1) have t3: "b = Inr ()" "started t3 = started t2"
        "\<forall>n. is_running n t3 \<longleftrightarrow> is_running n t2" by auto
    have "y = z" "s' = t3" using run start Inr body stop down(1) cb t3(1) by (auto simp: lifespan_def prog_defs)
    with Inr up body t1 down t3 stop_silent [of L] show ?thesis by auto
  qed
qed


text \<open>
  Libraries over a world that says whether the storage service is reachable, and a core without Redis.
\<close>

definition example_libraries :: "bool libraries" where
  "example_libraries = \<lparr>http_aclose = ret (), redis_lib = idle_redis,
     s3_lib = \<lparr>s3_enter = (\<lambda>_ up. if up then (Inr (), up) else (Inl (Builtin ''ClientError'' []), up)), s3_exit = ret (),
       put_object = (\<lambda>_. ret ()), generate_presigned_url = (\<lambda>_ _ _. ret []), delete_object = (\<lambda>_. ret ())\<rparr>\<rparr>"

definition example_core :: "unit core" where
  "example_core = \<lparr>keycloak = (), oauth2_scheme = create_oauth_scheme [] [] True,
     optional_oauth2_scheme = create_oauth_scheme [] [] False, core_tokens = create_service_token_manager,
     core_redis = None,
     core_storage = Some \<lparr>r2_endpoint_url = [], r2_access_key_id = [], r2_secret_access_key = [],
       r2_private_bucket = None, r2_public_bucket = None\<rparr>,
     core_apis = Some \<lparr>factory_settings = (\<lambda>_. None), factory_tokens = None\<rparr>\<rparr>"

definition fresh_clients :: "'w \<Rightarrow> 'w core_state" where
  "fresh_clients w = \<lparr>http_shared = None, redis_conn = None, s3_conn = None, started = [], outside = w\<rparr>"

lemma example_premises:
  "\<forall>m \<in> set (closings example_libraries). never_raises m"
  "\<forall>m \<in> set (closings example_libraries @ [ret ()]). raises_exceptions m"
  "started (fresh_clients w) = []" "\<forall>n. \<not> is_running n (fresh_clients w)"
  by (simp_all add: closings_def example_libraries_def idle_redis_def never_raises_def raises_exceptions_def ret_def
      fresh_clients_def is_running_def)


text \<open>
  A closing that is cancelled ends the stop: the clients after it stay open, and remain in the list for another stop.
\<close>

lemma cancelled_stop_leaves_open:
  assumes "started s = rs @ [r]" and "stop r (s\<lparr>started := rs\<rparr>) = (Inl CancelledError, t)"
  shows "stop_started stop s = (Inl CancelledError, t)"
  using assms by (simp add: stop_started_def prog_defs)

end
