(* ===== verification/BodyLimit.thy ===== *)
theory BodyLimit imports Exceptions "HOL-Library.Sublist" begin

text \<open>
  \<open>middleware/body_limit.py\<close>: the refusal of a multipart body that is too large, on the stream. An ASGI
  application is what it does with its two channels, as a tree: it receives a message and goes on with it, sends
  one, ends or raises. The server's side is the messages that will come and the ones that were sent.
\<close>

section \<open>Messages and applications\<close>

datatype message =
    Request pybytes bool
  | Disconnect
  | ResponseStart int "(pystr, pystr) dict"
  | ResponseBody pybytes
  | OtherMessage nat

datatype app =
    Receive "message \<Rightarrow> app"
  | Send message app
  | Done
  | Raise exn

record connection =
  inbox :: "nat \<Rightarrow> message"
  taken :: nat
  sent :: "message list"

definition server_receive :: "connection \<Rightarrow> message \<times> connection" where
  "server_receive s = (inbox s (taken s), s\<lparr>taken := taken s + 1\<rparr>)"

definition server_send :: "message \<Rightarrow> connection \<Rightarrow> connection" where
  "server_send m s = s\<lparr>sent := sent s @ [m]\<rparr>"

text \<open>The application on the bare channels.\<close>

primrec run_app :: "app \<Rightarrow> connection \<Rightarrow> (exn + unit) \<times> connection" where
  "run_app (Receive f) = (\<lambda>s. case server_receive s of (m, s') \<Rightarrow> run_app (f m) s')"
| "run_app (Send m a) = (\<lambda>s. run_app a (server_send m s))"
| "run_app Done = (\<lambda>s. (Inr (), s))"
| "run_app (Raise e) = (\<lambda>s. (Inl e, s))"

section \<open>The middleware\<close>

record limit_config =
  max_body_size :: int
  status_code :: int
  detail :: pystr

definition default_detail :: pystr where
  "default_detail = u ''Max file size reached''"

text \<open>The scope of a connection: its type and two headers, read as \<open>Headers\<close> reads them.\<close>

record scope =
  scope_type :: pystr
  content_type :: "pystr option"
  content_length :: "pystr option"

text \<open>\<open>str.lower\<close> and \<open>str.isdigit\<close> on a header, which is Latin-1 text.\<close>

definition latin_lower :: "pystr \<Rightarrow> pystr" where
  "latin_lower s = map (\<lambda>c. if (65 \<le> c \<and> c \<le> 90) \<or> (192 \<le> c \<and> c \<le> 222 \<and> c \<noteq> 215) then c + 32 else c) s"

definition latin_isdigit :: "pystr \<Rightarrow> bool" where
  "latin_isdigit s \<longleftrightarrow> s \<noteq> [] \<and> list_all (\<lambda>c. is_digit c \<or> c = 178 \<or> c = 179 \<or> c = 185) s"

definition is_multipart :: "scope \<Rightarrow> bool" where
  "is_multipart sc = startswith (latin_lower (case content_type sc of None \<Rightarrow> [] | Some t \<Rightarrow> t)) (u ''multipart/form-data'')"

text \<open>\<open>json.dumps({"detail": detail}).encode()\<close>: the text is ASCII.\<close>

definition refusal_body :: "limit_config \<Rightarrow> pybytes" where
  "refusal_body cfg = u ''{\"detail\": '' @ json_string (detail cfg) @ u ''}''"

definition refusal :: "limit_config \<Rightarrow> message list" where
  "refusal cfg =
     [ResponseStart (status_code cfg) [(u ''content-type'', u ''application/json''),
        (u ''content-length'', digits (length (refusal_body cfg))), (u ''connection'', u ''close'')],
      ResponseBody (refusal_body cfg)]"

definition reject :: "limit_config \<Rightarrow> connection \<Rightarrow> connection" where
  "reject cfg s = fold server_send (refusal cfg) s"

fun body_length :: "message \<Rightarrow> int" where
  "body_length (Request b _) = int (length b)"
| "body_length _ = 0"

record limit_state =
  received :: int
  rejected :: bool
  conn :: connection

definition limited_receive :: "limit_config \<Rightarrow> limit_state \<Rightarrow> message \<times> limit_state" where
  "limited_receive cfg s =
     (if rejected s then (Disconnect, s)
      else (case server_receive (conn s) of (m, c) \<Rightarrow>
        (let s = s\<lparr>conn := c, received := received s + body_length m\<rparr>
         in if (\<exists>b r. m = Request b r) \<and> received s > max_body_size cfg then
              (Disconnect, s\<lparr>rejected := True, conn := reject cfg c\<rparr>)
            else (m, s))))"

definition guarded_send :: "message \<Rightarrow> limit_state \<Rightarrow> limit_state" where
  "guarded_send m s = (if rejected s then s else s\<lparr>conn := server_send m (conn s)\<rparr>)"

primrec limited_app :: "limit_config \<Rightarrow> app \<Rightarrow> limit_state \<Rightarrow> (exn + unit) \<times> limit_state" where
  "limited_app cfg (Receive f) = (\<lambda>s. case limited_receive cfg s of (m, s') \<Rightarrow> limited_app cfg (f m) s')"
| "limited_app cfg (Send m a) = (\<lambda>s. limited_app cfg a (guarded_send m s))"
| "limited_app cfg Done = (\<lambda>s. (Inr (), s))"
| "limited_app cfg (Raise e) = (\<lambda>s. (Inl e, s))"

definition is_client_disconnect :: "exn \<Rightarrow> bool" where
  "is_client_disconnect e \<longleftrightarrow> exn_name e = u ''ClientDisconnect''"

text \<open>\<open>int(declared) > self.max_body_size\<close>, with the \<open>ValueError\<close> of \<open>int\<close>.\<close>

definition bad_int :: exn where
  "bad_int = Builtin ''ValueError'' (u ''invalid literal for int() with base 10'')"

definition declared_too_large :: "limit_config \<Rightarrow> scope \<Rightarrow> exn + bool" where
  "declared_too_large cfg sc = (case content_length sc of
     None \<Rightarrow> Inr False
   | Some d \<Rightarrow> (if d \<noteq> [] \<and> latin_isdigit d then
        (case py_int d of None \<Rightarrow> Inl bad_int | Some n \<Rightarrow> Inr (n > max_body_size cfg))
      else Inr False))"

definition body_limit :: "limit_config \<Rightarrow> app \<Rightarrow> scope \<Rightarrow> connection \<Rightarrow> (exn + unit) \<times> connection" where
  "body_limit cfg a sc c =
     (if scope_type sc \<noteq> u ''http'' \<or> \<not> is_multipart sc then run_app a c
      else (case declared_too_large cfg sc of
        Inl e \<Rightarrow> (Inl e, c)
      | Inr True \<Rightarrow> (Inr (), reject cfg c)
      | Inr False \<Rightarrow>
          (case limited_app cfg a \<lparr>received = 0, rejected = False, conn = c\<rparr> of
             (Inl e, s) \<Rightarrow> (if is_client_disconnect e \<and> rejected s then Inr () else Inl e, conn s)
           | (Inr x, s) \<Rightarrow> (Inr x, conn s))))"

section \<open>What the application gets\<close>

text \<open>The messages an application received, in order.\<close>

primrec app_sees :: "limit_config \<Rightarrow> app \<Rightarrow> limit_state \<Rightarrow> message list" where
  "app_sees cfg (Receive f) = (\<lambda>s. case limited_receive cfg s of (m, s') \<Rightarrow> m # app_sees cfg (f m) s')"
| "app_sees cfg (Send m a) = (\<lambda>s. app_sees cfg a (guarded_send m s))"
| "app_sees cfg Done = (\<lambda>s. [])"
| "app_sees cfg (Raise e) = (\<lambda>s. [])"

definition bytes_of :: "message list \<Rightarrow> int" where
  "bytes_of ms = (\<Sum>m\<leftarrow>ms. body_length m)"

lemma bytes_of_simps [simp]: "bytes_of [] = 0" "bytes_of (m # ms) = body_length m + bytes_of ms"
  by (simp_all add: bytes_of_def)

lemma body_length_nonneg [simp]: "0 \<le> body_length m"
  by (cases m) auto

lemma no_body: "\<nexists>b r. m = Request b r \<Longrightarrow> body_length m = 0"
  by (cases m) auto

lemma rejected_receive: "rejected s \<Longrightarrow> limited_receive cfg s = (Disconnect, s)"
  by (simp add: limited_receive_def)

lemma rejected_stays: "rejected s \<Longrightarrow> snd (limited_app cfg a s) = s \<and> bytes_of (app_sees cfg a s) = 0"
  by (induction a arbitrary: s) (simp_all add: rejected_receive guarded_send_def)

lemma limited_receive_cases:
  assumes "limited_receive cfg s = (m, s')" and "\<not> rejected s" and "received s \<le> max_body_size cfg"
  shows "(\<not> rejected s' \<and> received s' = received s + body_length m \<and> received s' \<le> max_body_size cfg \<and>
      m = inbox (conn s) (taken (conn s)) \<and> sent (conn s') = sent (conn s)) \<or>
    (rejected s' \<and> m = Disconnect \<and> sent (conn s') = sent (conn s) @ refusal cfg)"
  using assms no_body [of "inbox (conn s) (taken (conn s))"]
  by (auto simp: limited_receive_def server_receive_def reject_def server_send_def refusal_def Let_def
      split: if_splits)

lemma app_sees_bound:
  "\<not> rejected s \<Longrightarrow> received s \<le> max_body_size cfg \<Longrightarrow>
   received s + bytes_of (app_sees cfg a s) \<le> max_body_size cfg"
proof (induction a arbitrary: s)
  case (Receive f)
  obtain m s' where r: "limited_receive cfg s = (m, s')" by (cases "limited_receive cfg s")
  from limited_receive_cases [OF r Receive.prems] show ?case
  proof (elim disjE conjE)
    assume "\<not> rejected s'" "received s' = received s + body_length m" "received s' \<le> max_body_size cfg"
    with Receive.IH [of "f m" s'] r show ?thesis by simp
  next
    assume "rejected s'" "m = Disconnect"
    with rejected_stays [of s' cfg "f m"] r Receive.prems show ?thesis by simp
  qed
next
  case (Send m a)
  with Send.IH [of "guarded_send m s"] show ?case by (simp add: guarded_send_def)
qed auto

text \<open>The bytes of the messages taken from the client.\<close>

definition bytes_taken :: "connection \<Rightarrow> int" where
  "bytes_taken c = (\<Sum>i<taken c. body_length (inbox c i))"

lemma bytes_taken_next: "bytes_taken (c\<lparr>taken := Suc (taken c)\<rparr>) = bytes_taken c + body_length (inbox c (taken c))"
  by (simp add: bytes_taken_def)

lemma bytes_taken_send [simp]: "bytes_taken (server_send m c) = bytes_taken c" "bytes_taken (reject cfg c) = bytes_taken c"
  by (simp_all add: bytes_taken_def server_send_def reject_def refusal_def)

lemma reject_sent: "sent (reject cfg c) = sent c @ refusal cfg" "taken (reject cfg c) = taken c" "inbox (reject cfg c) = inbox c"
  by (simp_all add: reject_def server_send_def refusal_def)

text \<open>An application only adds to what was sent and taken.\<close>

lemma run_app_grows: "prefix (sent c) (sent (snd (run_app a c))) \<and> bytes_taken c \<le> bytes_taken (snd (run_app a c))"
proof (induction a arbitrary: c)
  case (Receive f)
  let ?c = "c\<lparr>taken := Suc (taken c)\<rparr>"
  have "bytes_taken c \<le> bytes_taken ?c" by (simp add: bytes_taken_next)
  with Receive.IH [of "f (inbox c (taken c))" ?c] show ?case
    by (auto simp: server_receive_def intro: order.trans)
next
  case (Send m a)
  then have "prefix (sent (server_send m c)) (sent (snd (run_app a (server_send m c))))"
      "bytes_taken (server_send m c) \<le> bytes_taken (snd (run_app a (server_send m c)))"
    by blast+
  moreover have "prefix (sent c) (sent (server_send m c))" by (simp add: server_send_def)
  ultimately show ?case by (auto intro: prefix_order.trans)
qed auto

text \<open>
  The run under the limit beside the run on the bare channels: the same until the limit is passed; then the refusal
  follows what the application had sent by then, and nothing more is taken or sent.
\<close>

definition cut_off :: "limit_config \<Rightarrow> limit_state \<Rightarrow> limit_state \<Rightarrow> connection \<Rightarrow> bool" where
  "cut_off cfg s s' c0 \<longleftrightarrow>
     received s + (bytes_taken (conn s') - bytes_taken (conn s)) > max_body_size cfg \<and>
     received s + (bytes_taken c0 - bytes_taken (conn s)) > max_body_size cfg \<and>
     received s + (bytes_taken (conn s'\<lparr>taken := taken (conn s') - 1\<rparr>) - bytes_taken (conn s)) \<le> max_body_size cfg \<and>
     (\<exists>ms. sent (conn s') = sent (conn s) @ ms @ refusal cfg \<and> prefix (sent (conn s) @ ms) (sent c0))"

lemma limited_receive_cut:
  assumes "limited_receive cfg s = (m, s')" and "\<not> rejected s" and "received s \<le> max_body_size cfg"
  shows "(\<not> rejected s' \<and> received s' = received s + body_length m \<and> received s' \<le> max_body_size cfg \<and>
      server_receive (conn s) = (m, conn s')) \<or>
    (rejected s' \<and> received s + body_length (inbox (conn s) (taken (conn s))) > max_body_size cfg \<and>
      conn s' = reject cfg (snd (server_receive (conn s))))"
  using assms no_body [of "inbox (conn s) (taken (conn s))"]
  by (auto simp: limited_receive_def server_receive_def Let_def split: if_splits)

lemma limited_run:
  "\<not> rejected s \<Longrightarrow> received s \<le> max_body_size cfg \<Longrightarrow> limited_app cfg a s = (q, s') \<Longrightarrow>
   run_app a (conn s) = (q0, c0) \<Longrightarrow>
   (\<not> rejected s' \<and> (q, conn s') = (q0, c0) \<and> received s + (bytes_taken c0 - bytes_taken (conn s)) \<le> max_body_size cfg) \<or>
   (rejected s' \<and> cut_off cfg s s' c0)"
proof (induction a arbitrary: s)
  case (Receive f)
  let ?m = "inbox (conn s) (taken (conn s))" and ?c = "(conn s)\<lparr>taken := Suc (taken (conn s))\<rparr>"
  obtain m s1 where r: "limited_receive cfg s = (m, s1)" by (cases "limited_receive cfg s")
  have bare: "run_app (f ?m) ?c = (q0, c0)" using Receive.prems(4) by (simp add: server_receive_def)
  from limited_receive_cut [OF r Receive.prems(1,2)] show ?case
  proof (elim disjE conjE)
    assume s1: "\<not> rejected s1" "received s1 = received s + body_length m" "received s1 \<le> max_body_size cfg"
      "server_receive (conn s) = (m, conn s1)"
    then have c: "m = ?m" "conn s1 = ?c" by (simp_all add: server_receive_def)
    have "limited_app cfg (f m) s1 = (q, s')" using Receive.prems(3) r by simp
    from Receive.IH [OF rangeI s1(1,3) this] bare c show ?thesis
      by (simp add: s1(2) cut_off_def bytes_taken_next algebra_simps)
  next
    assume s1: "rejected s1" "received s + body_length ?m > max_body_size cfg"
      "conn s1 = reject cfg (snd (server_receive (conn s)))"
    have s': "s' = s1" using rejected_stays [OF s1(1), of cfg "f m"] r Receive.prems(3) by simp
    have c: "conn s1 = reject cfg ?c" using s1(3) by (simp add: server_receive_def)
    have "bytes_taken ((reject cfg ?c)\<lparr>taken := taken (conn s)\<rparr>) = bytes_taken (conn s)"
      by (simp add: bytes_taken_def reject_sent)
    with run_app_grows [of ?c "f ?m"] bare s1(1,2) c s' Receive.prems(2) show ?thesis
      by (auto simp: cut_off_def bytes_taken_next reject_sent intro!: exI [of _ "[]"])
  qed
next
  case (Send m a)
  have g: "guarded_send m s = s\<lparr>conn := server_send m (conn s)\<rparr>" using Send.prems(1) by (simp add: guarded_send_def)
  from Send.prems have "limited_app cfg a (guarded_send m s) = (q, s')" "run_app a (conn (guarded_send m s)) = (q0, c0)"
    "\<not> rejected (guarded_send m s)" "received (guarded_send m s) \<le> max_body_size cfg"
    by (simp_all add: g)
  from Send.IH [OF this(3,4,1,2)] show ?case
    by (force simp: g cut_off_def server_send_def [of m "conn s"] bytes_taken_def)
qed auto

text \<open>
  C30. A multipart request the client declares too large is refused before a byte is received, and the application does
  not run. Otherwise, however the body is cut into messages and whatever the application does: it never gets more than
  \<open>max_body_size\<close> bytes. If on the bare channels it would take no more than that, the middleware changes nothing. If it
  would take more, the refusal is sent, right after the message that passes the limit (the one before it did not), it
  is the last thing that is sent, and the \<open>ClientDisconnect\<close> the cut causes is not passed on. What the application sent
  before the cut stays before the refusal: an application that answers before it has read the body can not be
  recalled.
\<close>

theorem oversized_body_refused:
  assumes "scope_type sc = u ''http''" and "is_multipart sc" and "0 \<le> max_body_size cfg"
    and "body_limit cfg a sc c = (q, c')" and "run_app a c = (q0, c0)"
  shows "(declared_too_large cfg sc = Inr True \<longrightarrow> q = Inr () \<and> taken c' = taken c \<and> sent c' = sent c @ refusal cfg) \<and>
    bytes_of (app_sees cfg a \<lparr>received = 0, rejected = False, conn = c\<rparr>) \<le> max_body_size cfg \<and>
    (declared_too_large cfg sc = Inr False \<and> bytes_taken c0 - bytes_taken c \<le> max_body_size cfg \<longrightarrow> (q, c') = (q0, c0)) \<and>
    (declared_too_large cfg sc = Inr False \<and> bytes_taken c0 - bytes_taken c > max_body_size cfg \<longrightarrow>
      bytes_taken c' - bytes_taken c > max_body_size cfg \<and>
      bytes_taken (c'\<lparr>taken := taken c' - 1\<rparr>) - bytes_taken c \<le> max_body_size cfg \<and>
      (\<exists>ms. sent c' = sent c @ ms @ refusal cfg \<and> prefix (sent c @ ms) (sent c0)) \<and>
      (\<forall>e. q = Inl e \<longrightarrow> \<not> is_client_disconnect e))"
proof -
  let ?s = "\<lparr>received = 0, rejected = False, conn = c\<rparr>"
  obtain q1 s where run: "limited_app cfg a ?s = (q1, s)" by (cases "limited_app cfg a ?s")
  have "(\<not> rejected s \<and> (q1, conn s) = (q0, c0) \<and> bytes_taken c0 - bytes_taken c \<le> max_body_size cfg) \<or>
      (rejected s \<and> cut_off cfg ?s s c0)"
    using limited_run [OF _ _ run, of q0 c0] assms(3,5) by simp
  moreover have "declared_too_large cfg sc = Inr False \<Longrightarrow>
      c' = conn s \<and> q = (case q1 of Inl e \<Rightarrow> if is_client_disconnect e \<and> rejected s then Inr () else Inl e | Inr x \<Rightarrow> Inr x)"
    using assms(1,2,4) run by (auto simp: body_limit_def split: sum.splits)
  moreover have "declared_too_large cfg sc = Inr True \<Longrightarrow> q = Inr () \<and> c' = reject cfg c"
    using assms(1,2,4) by (simp add: body_limit_def)
  ultimately show ?thesis
    using app_sees_bound [of ?s cfg a] assms(3)
    by (auto simp: cut_off_def reject_sent split: sum.splits if_splits)
qed

text \<open>A body that fits.\<close>

definition fits :: "limit_config \<Rightarrow> connection \<Rightarrow> bool" where
  "fits cfg c \<longleftrightarrow> (\<forall>n. (\<Sum>i<n. body_length (inbox c i)) \<le> max_body_size cfg)"

lemma limited_app_fits:
  "fits cfg c \<Longrightarrow>
   (case limited_app cfg a \<lparr>received = bytes_taken c, rejected = False, conn = c\<rparr> of (q, s) \<Rightarrow>
      (q, conn s) = run_app a c \<and> \<not> rejected s)"
proof (induction a arbitrary: c)
  case (Receive f)
  let ?m = "inbox c (taken c)" and ?c = "c\<lparr>taken := Suc (taken c)\<rparr>"
  have b: "bytes_taken ?c = bytes_taken c + body_length ?m" by (simp add: bytes_taken_def)
  have "bytes_taken ?c \<le> max_body_size cfg"
    using Receive.prems by (simp add: fits_def bytes_taken_def del: sum.lessThan_Suc)
  then have "limited_receive cfg \<lparr>received = bytes_taken c, rejected = False, conn = c\<rparr> =
      (?m, \<lparr>received = bytes_taken ?c, rejected = False, conn = ?c\<rparr>)"
    by (auto simp: limited_receive_def server_receive_def b)
  moreover have "fits cfg ?c" using Receive.prems by (simp add: fits_def)
  ultimately show ?case
    using Receive.IH [of "f ?m" ?c] by (simp add: server_receive_def)
next
  case (Send m a)
  have "fits cfg (server_send m c)" "bytes_taken (server_send m c) = bytes_taken c"
    using Send.prems by (simp_all add: fits_def server_send_def bytes_taken_def)
  with Send.IH [of "server_send m c"] show ?case by (simp add: guarded_send_def)
qed auto


text \<open>
  A declared length of superscript digits is digits for \<open>isdigit\<close> and not a number for \<open>int\<close>: the request ends in a
  \<open>ValueError\<close>.
\<close>

lemma superscript_length_escapes:
  "body_limit cfg a \<lparr>scope_type = u ''http'', content_type = Some (u ''multipart/form-data; boundary=x''),
     content_length = Some [178]\<rparr> c = (Inl bad_int, c)"
  by (simp add: body_limit_def is_multipart_def latin_lower_def startswith_def u_def declared_too_large_def
      latin_isdigit_def py_int_def strip_space_def is_space_def nat_of_text_def is_digit_def)

section \<open>Example\<close>

definition example_limit :: limit_config where
  "example_limit = \<lparr>max_body_size = 4, status_code = 400, detail = default_detail\<rparr>"

definition example_scope :: scope where
  "example_scope = \<lparr>scope_type = u ''http'', content_type = Some (u ''Multipart/form-data''), content_length = None\<rparr>"

text \<open>An upload of two messages, and an application that reads them and answers.\<close>

definition example_upload :: "nat \<Rightarrow> connection" where
  "example_upload n = \<lparr>inbox = (\<lambda>i. if i < 2 then Request (replicate n 65) (i = 0) else Disconnect), taken = 0, sent = []\<rparr>"

definition example_app :: app where
  "example_app = Receive (\<lambda>_. Receive (\<lambda>m. case m of
     Request _ _ \<Rightarrow> Send (ResponseStart 200 []) (Send (ResponseBody []) Done)
   | _ \<Rightarrow> Raise (Builtin ''ClientDisconnect'' [])))"

lemma example_scope_multipart: "scope_type example_scope = u ''http''" "is_multipart example_scope"
    "declared_too_large example_limit example_scope = Inr False"
  by (simp_all add: example_scope_def is_multipart_def latin_lower_def startswith_def u_def declared_too_large_def)

lemma example_bare_run:
  "run_app example_app (example_upload 3) = (Inr (), (example_upload 3)\<lparr>taken := 2, sent := [ResponseStart 200 [], ResponseBody []]\<rparr>)"
  by (simp add: example_app_def server_receive_def server_send_def example_upload_def numeral_2_eq_2)

text \<open>Six bytes against a limit of four: the application that would have answered 200 is cut, and the client gets the refusal.\<close>

theorem oversized_body_refused_witness:
  "\<exists>c' ms. body_limit example_limit example_app example_scope (example_upload 3) = (Inr (), c') \<and>
    bytes_taken c' > 4 \<and> sent c' = ms @ refusal example_limit \<and> prefix ms [ResponseStart 200 [], ResponseBody []]"
proof -
  obtain q c' where run: "body_limit example_limit example_app example_scope (example_upload 3) = (q, c')"
    by (cases "body_limit example_limit example_app example_scope (example_upload 3)")
  have "limited_app example_limit example_app \<lparr>received = 0, rejected = False, conn = example_upload 3\<rparr> =
      (Inl (Builtin ''ClientDisconnect'' []), \<lparr>received = 6, rejected = True,
        conn = reject example_limit ((example_upload 3)\<lparr>taken := 2\<rparr>)\<rparr>)"
    by (simp add: example_app_def limited_receive_def server_receive_def example_upload_def example_limit_def Let_def
        numeral_2_eq_2)
      (rule exI [of _ False], simp)
  with run have q: "q = Inr ()"
    by (simp add: body_limit_def example_scope_multipart is_client_disconnect_def)
  have "0 \<le> max_body_size example_limit" "max_body_size example_limit = 4" "sent (example_upload 3) = []"
      "bytes_taken (example_upload 3) = 0"
    "bytes_taken ((example_upload 3)\<lparr>taken := 2, sent := [ResponseStart 200 [], ResponseBody []]\<rparr>) = 6"
    by (simp_all add: example_limit_def example_upload_def bytes_taken_def numeral_2_eq_2)
  with oversized_body_refused [OF example_scope_multipart(1,2) _ run example_bare_run] example_scope_multipart(3)
  show ?thesis by (simp add: run q)
qed


end
