(* ===== verification/Observability.thy ===== *)
theory Observability imports BodyLimit Values Settings begin

text \<open>
  \<open>observability.py\<close> and the logging configuration of \<open>logger/config.py\<close>: what a service sends to its logs and to
  Sentry, and the middleware every app gets. Sentry, the logging module and FastAPI are libraries: the model keeps what
  they are given.
\<close>

section \<open>The events for Sentry\<close>

text \<open>
  The scheme and the network location of \<open>urllib.parse.urlsplit\<close>. \<open>check\<close> stands for the further checks of a
  location that has brackets (an IP literal) or characters outside ASCII.
\<close>

definition scheme_char :: "nat \<Rightarrow> bool" where
  "scheme_char c \<longleftrightarrow> is_alpha c \<or> is_digit c \<or> c = 43 \<or> c = 45 \<or> c = 46"

definition ascii_lower :: "pystr \<Rightarrow> pystr" where
  "ascii_lower s = map (\<lambda>c. if 65 \<le> c \<and> c \<le> 90 then c + 32 else c) s"

definition clean_url :: "pystr \<Rightarrow> pystr" where
  "clean_url url = filter (\<lambda>c. c \<notin> {9, 10, 13}) (dropWhile (\<lambda>c. c \<le> 32) url)"

definition split_scheme :: "pystr \<Rightarrow> pystr \<times> pystr" where
  "split_scheme url =
     (let sch = takeWhile (\<lambda>c. c \<noteq> 58) url
      in if 58 \<in> set url \<and> sch \<noteq> [] \<and> is_alpha (hd sch) \<and> list_all scheme_char sch
         then (ascii_lower sch, drop (Suc (length sch)) url) else ([], url))"

definition invalid_url :: exn where
  "invalid_url = Builtin ''ValueError'' (u ''Invalid IPv6 URL'')"

definition netloc_of :: "pystr \<Rightarrow> pystr" where
  "netloc_of s = takeWhile (\<lambda>c. c \<notin> {47, 63, 35}) s"

definition urlsplit_origin :: "(pystr \<Rightarrow> exn option) \<Rightarrow> pystr \<Rightarrow> exn + pystr \<times> pystr" where
  "urlsplit_origin check url =
     (case split_scheme (clean_url url) of (sch, rest) \<Rightarrow>
       (if startswith rest (u ''//'') then
          (let netloc = netloc_of (drop 2 rest)
           in if (91 \<in> set netloc) \<noteq> (93 \<in> set netloc) then Inl invalid_url
              else if 91 \<in> set netloc \<or> \<not> list_all (\<lambda>c. c < 128) netloc then
                (case check netloc of None \<Rightarrow> Inr (sch, netloc) | Some e \<Rightarrow> Inl e)
              else Inr (sch, netloc))
        else Inr (sch, [])))"

definition uses_netloc :: "pystr list" where
  "uses_netloc = map u [[], ''ftp'', ''http'', ''gopher'', ''nntp'', ''telnet'', ''imap'', ''wais'', ''file'', ''mms'',
     ''https'', ''shttp'', ''snews'', ''prospero'', ''rtsp'', ''rtsps'', ''rtspu'', ''rsync'', ''svn'', ''svn+ssh'',
     ''sftp'', ''nfs'', ''git'', ''git+ssh'', ''ws'', ''wss'', ''itms-services'']"

text \<open>\<open>urlunsplit((scheme, netloc, path, "", ""))\<close>.\<close>

definition urlunsplit :: "pystr \<Rightarrow> pystr \<Rightarrow> pystr \<Rightarrow> pystr" where
  "urlunsplit sch netloc path =
     (let full = (if netloc \<noteq> [] then u ''//'' @ netloc @ (if path \<noteq> [] \<and> hd path \<noteq> 47 then 47 # path else path)
            else if startswith path (u ''//'') then u ''//'' @ path
            else if sch \<noteq> [] \<and> sch \<in> set uses_netloc \<and> (path = [] \<or> hd path = 47) then u ''//'' @ path
            else path)
      in if sch \<noteq> [] then sch @ u '':'' @ full else full)"

text \<open>The URL of the request becomes the template of its route, when the transaction is one.\<close>

definition scrub_url :: "(pystr \<Rightarrow> exn option) \<Rightarrow> pyval \<Rightarrow> (pystr, pyval) dict \<Rightarrow> exn + (pystr, pyval) dict" where
  "scrub_url check transaction request =
     (let url = get_or_none request (u ''url'')
      in if \<not> truthy url then Inr request
         else (case transaction of
             VStr t \<Rightarrow> (if \<not> startswith t (u ''/'') then Inr request
               else (case url of
                   VStr x \<Rightarrow> (case urlsplit_origin check x of
                       Inl e \<Rightarrow> Inl e
                     | Inr (sch, netloc) \<Rightarrow> Inr (AList.update (u ''url'') (VStr (urlunsplit sch netloc t)) request))
                 | VBytes _ \<Rightarrow> Inl type_error
                 | _ \<Rightarrow> Inl attribute_error))
           | VBytes _ \<Rightarrow> Inl type_error
           | _ \<Rightarrow> Inl attribute_error))"

definition scrub_sentry_event :: "(pystr \<Rightarrow> exn option) \<Rightarrow> (pystr, pyval) dict \<Rightarrow> exn + (pystr, pyval) dict" where
  "scrub_sentry_event check event =
     (let request = get_or_none event (u ''request'')
      in if \<not> truthy request then Inr event
         else (case request of
             VDict r \<Rightarrow>
               (let t = get_or_none event (u ''transaction'')
                in case scrub_url check (if truthy t then t else VStr []) r of
                     Inl e \<Rightarrow> Inl e
                   | Inr r' \<Rightarrow> Inr (AList.update (u ''request'') (VDict (AList.delete (u ''query_string'') r')) event))
           | _ \<Rightarrow> Inl attribute_error))"

section \<open>Logging\<close>

definition get_logging_config :: "pystr \<Rightarrow> pystr \<Rightarrow> bool \<Rightarrow> pyval" where
  "get_logging_config service_name level include_user_email =
     (let handlers = (u ''handlers'', VList [VStr (u ''default'')]); lev = (u ''level'', VStr level);
          alone = (u ''propagate'', VBool False)
      in VDict [
        (u ''version'', VInt 1),
        (u ''disable_existing_loggers'', VBool False),
        (u ''formatters'', VDict [(u ''standard'', VDict [
            (u ''()'', VStr (u ''atsig_common.logger.config.UnifiedFormatter'')),
            (u ''include_user_email'', VBool include_user_email)])]),
        (u ''handlers'', VDict [(u ''default'', VDict [
            (u ''formatter'', VStr (u ''standard'')),
            (u ''class'', VStr (u ''logging.StreamHandler'')),
            (u ''stream'', VStr (u ''ext://sys.stdout''))])]),
        (u ''loggers'', VDict (dict_of [
            ([], VDict [handlers, lev]),
            (u ''uvicorn'', VDict [handlers, lev, alone]),
            (u ''uvicorn.error'', VDict [lev, handlers, alone]),
            (u ''uvicorn.access'', VDict [(u ''handlers'', VList []), (u ''level'', VStr (u ''WARNING'')), alone]),
            (service_name, VDict [handlers, lev, alone])]))])"

section \<open>Setting up a service\<close>

text \<open>What Sentry is started with; the integration takes the levels of a log line and of an event.\<close>

record sentry_options =
  dsn :: pystr
  sentry_environment :: pystr
  log_level :: pystr
  event_level :: pystr
  traces_sample_rate :: pystr
  server_name :: "pystr option"

record observability =
  logging_config :: "pyval option"
  sentry :: "sentry_options option"

definition init_observability ::
  "settings \<Rightarrow> pystr \<Rightarrow> pystr \<Rightarrow> pystr option \<Rightarrow> observability \<Rightarrow> bool \<times> observability" where
  "init_observability st service_name rate name obs =
     (let obs' = obs\<lparr>logging_config := Some (get_logging_config service_name (u ''INFO'') (LOG_USER_EMAIL st))\<rparr>
      in if ENVIRONMENT st \<noteq> u ''production'' then (False, obs')
         else (case GLITCHTIP_DSN st of
             None \<Rightarrow> (False, obs')
           | Some d \<Rightarrow> (if d = [] then (False, obs')
               else (True, obs'\<lparr>sentry := Some \<lparr>dsn = d, sentry_environment = ENVIRONMENT st, log_level = u ''INFO'',
                   event_level = u ''ERROR'', traces_sample_rate = rate,
                   server_name = (case name of None \<Rightarrow> None | Some n \<Rightarrow> (if n = [] then None else Some n))\<rparr>\<rparr>))))"

datatype middleware = BodyLimit limit_config | Logging bool | Cors "pystr list"

text \<open>\<open>middlewares\<close> is from the outermost to the innermost: \<open>add_middleware\<close> puts a new one outside.\<close>

record service_app =
  handlers_installed :: bool
  middlewares :: "middleware list"
  debug_route :: bool

definition add_middleware :: "middleware \<Rightarrow> service_app \<Rightarrow> service_app" where
  "add_middleware m a = a\<lparr>middlewares := m # middlewares a\<rparr>"

definition setup_app :: "settings \<Rightarrow> bool option \<Rightarrow> service_app \<Rightarrow> service_app" where
  "setup_app st debug a =
     (let a1 = a\<lparr>handlers_installed := True\<rparr>;
          a2 = add_middleware (Logging (LOG_USER_EMAIL st)) a1;
          a3 = add_middleware (Cors (CORS_ORIGINS st)) a2;
          wanted = (case debug of None \<Rightarrow> ENVIRONMENT st \<noteq> u ''production'' | Some b \<Rightarrow> b)
      in if wanted then a3\<lparr>debug_route := True\<rparr> else a3)"

text \<open>A body limit added before the setup is inside the logging and the CORS middleware.\<close>

lemma limit_is_innermost:
  "middlewares (setup_app st debug (add_middleware (BodyLimit cfg) a)) =
   [Cors (CORS_ORIGINS st), Logging (LOG_USER_EMAIL st), BodyLimit cfg] @ middlewares a"
  by (simp add: setup_app_def add_middleware_def Let_def)

lemma no_debug_route_in_production:
  "ENVIRONMENT st = u ''production'' \<Longrightarrow> debug_route (setup_app st None a) = debug_route a"
  by (simp add: setup_app_def add_middleware_def Let_def)

lemma sentry_only_in_production:
  assumes "init_observability st service rate name obs = (b, obs')"
  shows "b \<longleftrightarrow> ENVIRONMENT st = u ''production'' \<and> (\<exists>d. GLITCHTIP_DSN st = Some d \<and> d \<noteq> [])"
    and "\<not> b \<Longrightarrow> sentry obs' = sentry obs"
  using assms by (auto simp: init_observability_def Let_def split: if_splits option.splits)

section \<open>What Sentry does not get\<close>

text \<open>The part of a URL that names the server: a scheme and a location, without the characters that are removed.\<close>

definition origin_parts :: "pystr \<Rightarrow> pystr \<Rightarrow> bool" where
  "origin_parts sch netloc \<longleftrightarrow> sch \<noteq> [] \<and> is_alpha (hd sch) \<and> list_all scheme_char sch \<and>
     list_all (\<lambda>c. c \<notin> {9, 10, 13, 47, 63, 35}) netloc"

definition url_rest :: "pystr \<Rightarrow> bool" where
  "url_rest rest \<longleftrightarrow> rest = [] \<or> hd rest \<in> {47, 63, 35}"

lemma clean_url_parts:
  assumes "origin_parts sch netloc"
  shows "clean_url (sch @ 58 # 47 # 47 # netloc @ rest) = sch @ 58 # 47 # 47 # netloc @ filter (\<lambda>c. c \<notin> {9, 10, 13}) rest"
proof -
  have sch: "c \<in> set sch \<Longrightarrow> c \<notin> {9, 10, 13}" for c
    using assms by (auto simp: origin_parts_def scheme_char_def is_alpha_def is_digit_def list_all_iff)
  obtain c sch' where c: "sch = c # sch'" "32 < c"
    using assms by (cases sch) (auto simp: origin_parts_def is_alpha_def)
  have "filter (\<lambda>c. c \<notin> {9, 10, 13}) sch = sch" using sch by (simp add: filter_id_conv)
  moreover have "filter (\<lambda>c. c \<notin> {9, 10, 13}) netloc = netloc"
    using assms by (simp add: filter_id_conv origin_parts_def list_all_iff)
  ultimately show ?thesis using c by (simp add: clean_url_def)
qed

lemma url_rest_filter: "url_rest rest \<Longrightarrow> url_rest (filter (\<lambda>c. c \<notin> {9, 10, 13}) rest)"
  by (cases rest) (auto simp: url_rest_def)

lemma netloc_of_append:
  "list_all (\<lambda>c. c \<notin> {47, 63, 35}) netloc \<Longrightarrow> url_rest rest \<Longrightarrow> netloc_of (netloc @ rest) = netloc"
  unfolding netloc_of_def by (induction netloc) (auto simp: url_rest_def takeWhile_eq_Nil_iff)

lemma split_scheme_parts:
  assumes "origin_parts sch netloc"
  shows "split_scheme (sch @ 58 # r) = (ascii_lower sch, r)"
proof -
  have "list_all (\<lambda>c. c \<noteq> 58) sch" using assms by (auto simp: origin_parts_def scheme_char_def is_alpha_def is_digit_def list_all_iff)
  then have "takeWhile (\<lambda>c. c \<noteq> 58) (sch @ 58 # r) = sch" by (induction sch) auto
  with assms show ?thesis by (simp add: split_scheme_def origin_parts_def)
qed

lemma origin_of_url:
  assumes "origin_parts sch netloc" and "url_rest rest"
  shows "urlsplit_origin check (sch @ 58 # 47 # 47 # netloc @ rest) = urlsplit_origin check (sch @ 58 # 47 # 47 # netloc)"
proof -
  have plain: "list_all (\<lambda>c. c \<notin> {47, 63, 35}) netloc" using assms(1) by (auto simp: origin_parts_def list_all_iff)
  have "startswith (47 # 47 # t) (u ''//'')" for t by (simp add: startswith_def u_def)
  then show ?thesis
    using clean_url_parts [OF assms(1)] clean_url_parts [OF assms(1), of "[]"] split_scheme_parts [OF assms(1)]
      netloc_of_append [OF plain url_rest_filter [OF assms(2)]] netloc_of_append [OF plain, of "[]"]
    by (simp add: urlsplit_origin_def url_rest_def)
qed

text \<open>Two requests that differ only in the URL and the query string.\<close>

definition masked :: "(pystr, pyval) dict \<Rightarrow> (pystr, pyval) dict" where
  "masked r = AList.delete (u ''query_string'') (AList.update (u ''url'') VNone r)"

lemma scrubbed_masked:
  "AList.delete (u ''query_string'') (AList.update (u ''url'') v r) = AList.update (u ''url'') v (masked r)"
  by (simp add: masked_def delete_update)

text \<open>
  C40. Sentry does not see which path was asked for. Of two errors of the same route, whose requests differ only in the
  path, the query or the fragment of the URL of the same server, and in the query string, Sentry gets the same event:
  a token in the path is in neither.
\<close>

theorem scrubbed_event_hides_the_path:
  assumes "origin_parts sch netloc" and "url_rest rest" and "url_rest rest'"
    and "map_of r (u ''url'') = Some (VStr (sch @ u ''://'' @ netloc @ rest))"
    and "map_of r' (u ''url'') = Some (VStr (sch @ u ''://'' @ netloc @ rest'))"
    and "masked r = masked r'"
    and "map_of event (u ''transaction'') = Some (VStr (u ''/'' @ t))"
  shows "scrub_sentry_event check (AList.update (u ''request'') (VDict r) event) =
    scrub_sentry_event check (AList.update (u ''request'') (VDict r') event)"
proof -
  have url: "sch @ u ''://'' @ netloc @ q = sch @ 58 # 47 # 47 # netloc @ q" for q by (simp add: u_def)
  have same: "urlsplit_origin check (sch @ u ''://'' @ netloc @ rest) = urlsplit_origin check (sch @ u ''://'' @ netloc @ rest')"
    unfolding url using origin_of_url [OF assms(1,2)] origin_of_url [OF assms(1,3)] by simp
  have "r \<noteq> []" "r' \<noteq> []" using assms(4,5) by auto
  then show ?thesis
    using assms(4-7) same
    by (auto simp: scrub_sentry_event_def scrub_url_def get_or_none_def update_conv' scrubbed_masked Let_def
        split: sum.split prod.split)
qed

theorem scrubbed_event_hides_the_path_witness:
  "scrub_sentry_event (\<lambda>_. None)
     [(u ''transaction'', VStr (u ''/references/{token}'')),
      (u ''request'', VDict [(u ''url'', VStr (u ''https://api.gr/references/s3cret?x'')), (u ''query_string'', VStr (u ''x''))])] =
   scrub_sentry_event (\<lambda>_. None)
     [(u ''transaction'', VStr (u ''/references/{token}'')),
      (u ''request'', VDict [(u ''url'', VStr (u ''https://api.gr/references/other''))])]"
proof -
  let ?event = "[(u ''transaction'', VStr (u ''/references/{token}'')), (u ''request'', VNone)]"
  let ?r = "[(u ''url'', VStr (u ''https://api.gr/references/s3cret?x'')), (u ''query_string'', VStr (u ''x''))]"
  let ?r' = "[(u ''url'', VStr (u ''https://api.gr/references/other''))]"
  have url: "u ''https'' @ u ''://'' @ u ''api.gr'' @ u q = u (''https://api.gr'' @ q)" for q by (simp add: u_def)
  have o: "origin_parts (u ''https'') (u ''api.gr'')"
    by (simp add: origin_parts_def scheme_char_def is_alpha_def is_digit_def u_def)
  have rest: "url_rest (u ''/references/s3cret?x'')" "url_rest (u ''/references/other'')"
    by (simp_all add: url_rest_def u_def)
  have r: "map_of ?r (u ''url'') = Some (VStr (u ''https'' @ u ''://'' @ u ''api.gr'' @ u ''/references/s3cret?x''))"
    and r': "map_of ?r' (u ''url'') = Some (VStr (u ''https'' @ u ''://'' @ u ''api.gr'' @ u ''/references/other''))"
    unfolding url by simp_all
  have m: "masked ?r = masked ?r'" by (simp add: masked_def)
  have t: "map_of ?event (u ''transaction'') = Some (VStr (u ''/'' @ u ''references/{token}''))" by (simp add: u_def)
  from scrubbed_event_hides_the_path [OF o rest r r' m t, of "\<lambda>_. None"] show ?thesis by simp
qed

text \<open>A URL whose transaction is not a route stays as it is.\<close>

lemma unrouted_url_stays:
  "\<not> startswith t (u ''/'') \<Longrightarrow> scrub_url check (VStr t) r = Inr r"
  by (simp add: scrub_url_def Let_def)

end
