(* ===== verification/EventSchemas.thy ===== *)
theory EventSchemas imports Producer "HOL-Library.List_Lexorder" begin

text \<open>
  \<open>events/schemas.py\<close>, \<open>enums.py\<close> and \<open>schemas.py\<close>: the schemas of the events as data (the fields, their annotations,
  defaults and aliases), which is what \<open>EventPayload\<close> computes on, with the names of the streams. The validation itself
  is pydantic's. \<open>make_get_event_producer\<close> of \<open>redis/dependencies.py\<close> is here too.
\<close>

section \<open>Enumerations\<close>

datatype programme_type = Msc | Bsc | ShortTerm

fun programme_value :: "programme_type \<Rightarrow> pystr" where
  "programme_value Msc = u ''Master''"
| "programme_value Bsc = u ''Bachelor''"
| "programme_value ShortTerm = u ''Short Term''"

datatype language = GreekL | EnglishL | FrenchL | GermanL | ItalianL | RussianL | TurkishL | SpanishL

fun language_value :: "language \<Rightarrow> pystr" where
  "language_value GreekL = u ''Greek''"
| "language_value EnglishL = u ''English''"
| "language_value FrenchL = u ''French''"
| "language_value GermanL = u ''German''"
| "language_value ItalianL = u ''Italian''"
| "language_value RussianL = u ''Russian''"
| "language_value TurkishL = u ''Turkish''"
| "language_value SpanishL = u ''Spanish''"

datatype restriction_mode = NoRestriction | DenyList | AllowList

fun restriction_value :: "restriction_mode \<Rightarrow> pystr" where
  "restriction_value NoRestriction = u ''none''"
| "restriction_value DenyList = u ''deny_list''"
| "restriction_value AllowList = u ''allow_list''"

datatype attendance_mode = FullTime | PartTime | Undetermined

fun attendance_value :: "attendance_mode \<Rightarrow> pystr" where
  "attendance_value FullTime = u ''full_time''"
| "attendance_value PartTime = u ''part_time''"
| "attendance_value Undetermined = u ''undetermined''"

lemma programme_value_inject [simp]: "programme_value a = programme_value b \<longleftrightarrow> a = b"
  by (cases a; cases b) simp_all

lemma language_value_inject [simp]: "language_value a = language_value b \<longleftrightarrow> a = b"
  by (cases a; cases b) simp_all

lemma restriction_value_inject [simp]: "restriction_value a = restriction_value b \<longleftrightarrow> a = b"
  by (cases a; cases b) simp_all

lemma attendance_value_inject [simp]: "attendance_value a = attendance_value b \<longleftrightarrow> a = b"
  by (cases a; cases b) simp_all

section \<open>Streams and actions\<close>

definition CALLS :: pystr where "CALLS = u ''calls_events''"
definition PROGRAMMES :: pystr where "PROGRAMMES = u ''programme_updates''"
definition APPLICANT_NAMES :: pystr where "APPLICANT_NAMES = u ''update_applicant_applications''"
definition USERS :: pystr where "USERS = u ''user_events''"
definition SIS_EXPORTS :: pystr where "SIS_EXPORTS = u ''sis_export_events''"
definition LEADS :: pystr where "LEADS = u ''programme_leads''"

definition Streams :: "pystr list" where
  "Streams = [CALLS, PROGRAMMES, APPLICANT_NAMES, USERS, SIS_EXPORTS, LEADS]"

definition Actions :: "pystr list" where
  "Actions = [u ''sync'', u ''delete'', u ''unreadable'']"

text \<open>No stream is the dead letter stream of another.\<close>

lemma streams_separate:
  "distinct (Streams @ map dlq_name Streams)" and "distinct Actions"
  by (simp_all add: Streams_def Actions_def CALLS_def PROGRAMMES_def APPLICANT_NAMES_def USERS_def SIS_EXPORTS_def
      LEADS_def dlq_name_def DLQ_SUFFIX_def u_append [symmetric])

section \<open>The problems of a validation\<close>

datatype loc_part = Field pystr | Index int

text \<open>\<open>error.errors(...)\<close>: the message and the input are there too, and left out.\<close>

record problem =
  loc :: "loc_part list"
  problem_type :: pystr
  problem_msg :: pystr
  problem_input :: pyval

fun part_text :: "loc_part \<Rightarrow> pystr" where
  "part_text (Field n) = n"
| "part_text (Index i) = str_int i"

definition validation_problems :: "problem list \<Rightarrow> pystr" where
  "validation_problems ps =
     join (u '', '') (map (\<lambda>p. join (u ''.'') (map part_text (loc p)) @ u '' ('' @ problem_type p @ u '')'') ps)"

lemma problems_hide_values:
  "map (\<lambda>p. (loc p, problem_type p)) ps = map (\<lambda>p. (loc p, problem_type p)) qs \<Longrightarrow>
   validation_problems ps = validation_problems qs"
proof -
  let ?t = "\<lambda>(l, t). join (u ''.'') (map part_text l) @ u '' ('' @ t @ u '')''"
  assume "map (\<lambda>p. (loc p, problem_type p)) ps = map (\<lambda>p. (loc p, problem_type p)) qs"
  then have "map ?t (map (\<lambda>p. (loc p, problem_type p)) ps) = map ?t (map (\<lambda>p. (loc p, problem_type p)) qs)" by simp
  then show ?thesis by (simp add: validation_problems_def comp_def)
qed

section \<open>Models\<close>

text \<open>An alias of a field: \<open>None\<close> among the choices is an \<open>AliasPath\<close>.\<close>

datatype field_alias = NoAlias | Alias pystr | AliasPath | AliasChoices "pystr option list"

datatype annotation =
    AInt | AStr | ABool | ADecimal | ADate | ADatetime | AUuid | AName | AAny
  | AEnum "pystr list"
  | AOptional annotation
  | AList annotation
  | ADict annotation
  | AModel "(pystr \<times> annotation \<times> pyval option \<times> field_alias) list"

type_synonym field = "pystr \<times> annotation \<times> pyval option \<times> field_alias"
type_synonym model = "field list"

definition req :: "string \<Rightarrow> annotation \<Rightarrow> field" where
  "req n a = (u n, a, None, NoAlias)"

definition opt :: "string \<Rightarrow> annotation \<Rightarrow> field" where
  "opt n a = (u n, AOptional a, Some VNone, NoAlias)"

definition dflt :: "string \<Rightarrow> annotation \<Rightarrow> pyval \<Rightarrow> field" where
  "dflt n a v = (u n, a, Some v, NoAlias)"

fun alias_names ::  "field_alias \<Rightarrow> pystr list" where
  "alias_names (Alias a) = [a]"
| "alias_names (AliasChoices cs) = concat (map (\<lambda>c. case c of None \<Rightarrow> [] | Some a \<Rightarrow> [a]) cs)"
| "alias_names _ = []"

definition known_names :: "model \<Rightarrow> pystr list" where
  "known_names M = map fst M @ concat (map (\<lambda>(_, _, _, al). alias_names al) M)"

definition unexpected_keys :: "model \<Rightarrow> (pystr, pyval) dict \<Rightarrow> pystr list" where
  "unexpected_keys M payload = sort (remdups (filter (\<lambda>k. k \<notin> set (known_names M)) (map fst payload)))"

text \<open>\<open>model_dump(mode="json")\<close>: the fields by their names, in order; \<open>dump\<close> is pydantic's for one field of the object.\<close>

definition to_payload :: "model \<Rightarrow> (pystr \<Rightarrow> pyval) \<Rightarrow> (pystr, pyval) dict" where
  "to_payload M dump = map (\<lambda>(n, _). (n, dump n)) M"

definition uuid_alias :: field_alias where
  "uuid_alias = AliasChoices [Some (u ''uuid''), Some (u ''id'')]"

definition ApplicantNameSync :: model where
  "ApplicantNameSync = [req ''applicant_id'' AUuid, req ''applicant_first_name'' AName, req ''applicant_last_name'' AName]"

definition UserSyncEvent :: model where
  "UserSyncEvent = [(u ''uuid'', AStr, None, uuid_alias), opt ''email'' AStr, opt ''first_name'' AStr, opt ''last_name'' AStr]"

definition UserDeleteEvent :: model where
  "UserDeleteEvent = [(u ''uuid'', AStr, None, uuid_alias)]"

definition TuitionFeeEvent :: model where
  "TuitionFeeEvent = [req ''study_mode'' AStr, req ''student_origin'' AStr, req ''period'' AStr, req ''amount'' ADecimal]"

definition ProgrammeUpdateEvent :: model where
  "ProgrammeUpdateEvent =
    [req ''id'' AInt, req ''name_gr'' AStr, req ''name_en'' AStr, req ''is_archived'' ABool, opt ''type'' AStr,
     req ''department_id'' AInt, req ''secretaries'' (AList AStr), req ''version'' AInt,
     opt ''admission_type'' AStr,
     opt ''description_gr'' AStr, opt ''description_en'' AStr, opt ''collab_en_institutions'' (AList AStr),
     opt ''collaborations'' (AList (ADict AAny)), opt ''ects'' AInt, opt ''city_en'' AStr, opt ''city_gr'' AStr,
     opt ''phone'' AStr, opt ''email'' AStr, opt ''website'' AStr, opt ''languages'' (AList AStr),
     opt ''topics'' (AList AStr), opt ''study_modes'' (AList AStr), opt ''has_tuition_fees'' ABool,
     opt ''tuition_fees_from'' ADecimal, opt ''tuition_fees_to'' ADecimal,
     opt ''tuition_fees'' (AList (AModel TuitionFeeEvent)), opt ''masters_id'' AInt, opt ''is_featured'' ABool,
     opt ''created_at'' ADatetime, opt ''updated_at'' ADatetime,
     opt ''semesters'' AInt, opt ''part_time'' ABool, opt ''part_time_semesters'' AInt,
     opt ''scholarship_offered'' ABool, opt ''master_type'' AStr, opt ''bachelor_type'' AStr, opt ''days'' AInt,
     opt ''short_term_type'' AStr]"

definition CallRequestedDocumentEvent :: model where
  "CallRequestedDocumentEvent = [req ''document_type_code'' AStr, opt ''description_en'' AStr, opt ''description_gr'' AStr,
     dflt ''is_required'' ABool (VBool True), dflt ''max_files'' AInt (VInt 1), req ''order_index'' AInt]"

definition CallDisciplineEvent :: model where
  "CallDisciplineEvent = [req ''discipline_id'' AInt, req ''title_en'' AStr, req ''title_gr'' AStr,
     dflt ''order_index'' AInt (VInt 0)]"

definition CallExtraFieldEvent :: model where
  "CallExtraFieldEvent = [req ''extra_field_code'' AStr, dflt ''required'' ABool (VBool False)]"

definition CallEvent :: model where
  "CallEvent =
    [req ''id'' AInt, req ''programme_id'' AInt, req ''title_gr'' AStr, req ''title_en'' AStr, req ''description_gr'' AStr,
     req ''description_en'' AStr, req ''academic_year'' AStr, opt ''number_of_admissions'' AInt, req ''start_date'' ADate,
     req ''end_date'' ADate, req ''publish_date'' ADate, opt ''call_url'' AStr,
     req ''call_type'' (AEnum (map programme_value [Msc, Bsc, ShortTerm])), opt ''call_file'' AStr,
     dflt ''is_archived'' ABool (VBool False),
     dflt ''supported_attendance_modes'' (AList (AEnum (map attendance_value [FullTime, PartTime, Undetermined])))
       (VList [VStr (attendance_value Undetermined)]),
     dflt ''target_languages'' (AList (AEnum (map language_value
       [GreekL, EnglishL, FrenchL, GermanL, ItalianL, RussianL, TurkishL, SpanishL]))) (VList []),
     dflt ''restriction_mode'' (AEnum (map restriction_value [NoRestriction, DenyList, AllowList]))
       (VStr (restriction_value NoRestriction)),
     dflt ''restricted_countries'' (AList AStr) (VList []), req ''version'' AInt, opt ''evaluators'' (AList AStr),
     dflt ''requested_documents'' (AList (AModel CallRequestedDocumentEvent)) (VList []),
     dflt ''disciplines'' (AList (AModel CallDisciplineEvent)) (VList []),
     dflt ''extra_fields'' (AList (AModel CallExtraFieldEvent)) (VList [])]"

definition LeadEvent :: model where
  "LeadEvent = [req ''id'' AInt, req ''programme_id'' AInt, req ''first_name'' AStr, req ''last_name'' AStr, req ''email'' AStr,
     opt ''phone'' AStr, opt ''message'' AStr, req ''origin_country'' AStr, opt ''created_at'' ADatetime]"

definition IdRead :: model where
  "IdRead = [req ''id'' AInt]"

definition FileUrlRead :: model where
  "FileUrlRead = [req ''url'' AStr]"

definition event_models :: "model list" where
  "event_models = [ApplicantNameSync, UserSyncEvent, UserDeleteEvent, TuitionFeeEvent, ProgrammeUpdateEvent,
     CallRequestedDocumentEvent, CallDisciplineEvent, CallExtraFieldEvent, CallEvent, LeadEvent, IdRead, FileUrlRead]"

lemmas model_defs = ApplicantNameSync_def UserSyncEvent_def UserDeleteEvent_def TuitionFeeEvent_def
  ProgrammeUpdateEvent_def CallRequestedDocumentEvent_def CallDisciplineEvent_def CallExtraFieldEvent_def CallEvent_def
  LeadEvent_def IdRead_def FileUrlRead_def req_def opt_def dflt_def uuid_alias_def

section \<open>Unexpected keys\<close>

lemma unexpected_keys_contract:
  "set (unexpected_keys M payload) = set (map fst payload) - set (known_names M)"
  "sorted (unexpected_keys M payload)" "distinct (unexpected_keys M payload)"
  by (auto simp: unexpected_keys_def)

lemma payload_expected: "unexpected_keys M (to_payload M dump) = []"
proof -
  have "set (map fst (to_payload M dump)) \<subseteq> set (known_names M)" by (force simp: to_payload_def known_names_def)
  then have "set (unexpected_keys M (to_payload M dump)) = {}" by (auto simp: unexpected_keys_contract(1))
  then show ?thesis by simp
qed

section \<open>The schemas are consistent\<close>

text \<open>The JSON values of an annotation.\<close>

fun fits :: "annotation \<Rightarrow> pyval \<Rightarrow> bool" where
  "fits AInt v \<longleftrightarrow> (case v of VInt _ \<Rightarrow> True | _ \<Rightarrow> False)"
| "fits ABool v \<longleftrightarrow> (case v of VBool _ \<Rightarrow> True | _ \<Rightarrow> False)"
| "fits AName v \<longleftrightarrow> (case v of VStr s \<Rightarrow> s \<noteq> [] | _ \<Rightarrow> False)"
| "fits AAny v \<longleftrightarrow> True"
| "fits (AEnum vs) v \<longleftrightarrow> (case v of VStr s \<Rightarrow> s \<in> set vs | _ \<Rightarrow> False)"
| "fits (AOptional a) v \<longleftrightarrow> v = VNone \<or> fits a v"
| "fits (AList a) v \<longleftrightarrow> (case v of VList vs \<Rightarrow> list_all (fits a) vs | _ \<Rightarrow> False)"
| "fits (ADict a) v \<longleftrightarrow> (case v of VDict d \<Rightarrow> list_all (\<lambda>(_, w). fits a w) d | _ \<Rightarrow> False)"
| "fits (AModel M) v \<longleftrightarrow> (case v of VDict d \<Rightarrow>
     list_all (\<lambda>(n, a, _). case map_of d n of None \<Rightarrow> False | Some w \<Rightarrow> fits a w) M | _ \<Rightarrow> False)"
| "fits _ v \<longleftrightarrow> (case v of VStr _ \<Rightarrow> True | _ \<Rightarrow> False)"

definition model_ok :: "model \<Rightarrow> bool" where
  "model_ok M \<longleftrightarrow> distinct (map fst M) \<and> list_all (\<lambda>(_, a, d, _). case d of None \<Rightarrow> True | Some v \<Rightarrow> fits a v) M"

definition required_fields :: "model \<Rightarrow> pystr list" where
  "required_fields M = map fst (filter (\<lambda>(_, _, d, _). d = None) M)"

text \<open>Every field has a name of its own, and a default that is a value of its annotation.\<close>

lemma event_models_ok: "list_all model_ok event_models"
  by (simp add: event_models_def model_ok_def model_defs)

lemma programme_requirements:
  "required_fields ProgrammeUpdateEvent =
   map u [''id'', ''name_gr'', ''name_en'', ''is_archived'', ''department_id'', ''secretaries'', ''version'']"
  by (simp add: required_fields_def model_defs)

section \<open>The producer of a service\<close>

text \<open>
  \<open>make_get_event_producer\<close>: \<open>lru_cache\<close> keeps the first producer; \<open>options\<close> are the keyword arguments that are
  given, the others have their defaults.
\<close>

definition new_producer :: "int option option \<Rightarrow> int option \<Rightarrow> producer" where
  "new_producer maxlen retries = \<lparr>default_maxlen = (case maxlen of None \<Rightarrow> None | Some m \<Rightarrow> m),
     default_retries = (case retries of None \<Rightarrow> 0 | Some n \<Rightarrow> n)\<rparr>"

definition get_event_producer :: "int option option \<Rightarrow> int option \<Rightarrow> producer option \<Rightarrow> producer \<times> producer option" where
  "get_event_producer maxlen retries cache =
     (case cache of Some p \<Rightarrow> (p, cache) | None \<Rightarrow> (let p = new_producer maxlen retries in (p, Some p)))"

end
