(* ===== verification/EventContract.thy ===== *)
theory EventContract imports EventChannel EventSchemas begin

text \<open>The schemas of the events over the stream: what a service publishes from a schema is what the other one handles.\<close>

lemma event_model_names: "M \<in> set event_models \<Longrightarrow> distinct (map fst M) \<and> list_all scalar_text (map fst M)"
  by (auto simp: event_models_def model_defs)

lemma to_payload_good:
  assumes "M \<in> set event_models" and "\<forall>n \<in> set (map fst M). json_ok (dump n)"
  shows "good_payload (to_payload M dump)"
proof -
  note names = event_model_names [OF assms(1)]
  have "map fst (to_payload M dump) = map fst M" by (auto simp: to_payload_def)
  with names have "dict_wf (to_payload M dump)" by (simp add: dict_wf_def)
  moreover have "\<forall>kv \<in> set (to_payload M dump). scalar_text (fst kv) \<and> json_ok (snd kv)"
    using names assms(2) by (auto simp: to_payload_def list_all_iff)
  ultimately show ?thesis by (simp add: good_payload_def)
qed

lemma to_payload_plain:
  "\<forall>n \<in> set (map fst M). json_plain (dump n) \<Longrightarrow> norm_payload (to_payload M dump) = to_payload M dump"
  by (auto simp: norm_payload_def to_payload_def json_norm_plain)

text \<open>
  C39. An event that \<open>emit\<close> published from a schema arrives as it was published: whatever the fields hold (any JSON
  value), the consumer that takes it hands it, as soon as it has a slot for it, to the handler of the service, with exactly the
  fields of the schema and their values; and it never hands it anything else. Only a cancellation before the slot
  stops it.
\<close>

theorem schema_event_arrives:
  assumes "M \<in> set event_models" and "\<forall>n \<in> set (map fst M). json_ok (dump n) \<and> json_plain (dump n)"
    and "answer g (emit p rid stream action (to_payload M dump) pipe maxlen retries rd) s0 = (x0, h0, s0')"
    and "(XAdd st flds mx, RText mid) \<in> set h0" and "wire d flds = Some raw" and "0 < max_retries cfg"
    and "answer f (handle_message cfg mid raw) s = (x, h, s')"
  shows "(\<exists>t u' r es. h = (SetRid t, u') # (Acquire, r) # es \<and>
      (r = RExn CancelledError \<or> (\<exists>q gs. es = (ProcessMessage mid action (map (\<lambda>n. (n, dump n)) (map fst M)), q) # gs))) \<and>
    (\<forall>ev \<in> set h. is_process (fst ev) \<longrightarrow> fst ev = ProcessMessage mid action (map (\<lambda>n. (n, dump n)) (map fst M)))"
proof -
  have sent: "emit_wire d rid action (to_payload M dump) = Some raw"
    using emit_adds [OF assms(3,4)] assms(5) by (simp add: emit_wire_def)
  have good: "good_payload (to_payload M dump)" using assms(2) by (intro to_payload_good [OF assms(1)]) auto
  have norm: "norm_payload (to_payload M dump) = map (\<lambda>n. (n, dump n)) (map fst M)"
    using assms(2) to_payload_plain [of M dump] by (simp add: to_payload_def case_prod_beta)
  show ?thesis
    using emitted_event_handled [OF sent good assms(6,7)] unfolding norm by blast
qed

theorem schema_event_arrives_witness:
  "\<exists>raw h0 x h s' q.
    answer (flaky (Builtin ''ConnectionError'' []) (RText (u ''1-0'')))
      (emit example_producer (u ''req-1'') (u ''s'') (u ''delete'') (to_payload UserDeleteEvent (\<lambda>_. VStr (u ''7''))) False None None (PInt 1)) 0 =
      (Inr (RText (u ''1-0'')), h0, 0) \<and>
    answer (worker RNone) (handle_message example_config (u ''1-0'') raw) [] = (x, h, s') \<and>
    h ! 2 = (ProcessMessage (u ''1-0'') (u ''delete'') [(u ''uuid'', VStr (u ''7''))], q)"
proof -
  let ?payload = "to_payload UserDeleteEvent (\<lambda>_. VStr (u ''7''))"
  obtain raw where raw: "emit_wire True (u ''req-1'') (u ''delete'') ?payload = Some raw"
    by (simp add: emit_eval to_payload_def UserDeleteEvent_def)
  obtain flds h0 where sent: "wire True flds = Some raw"
    "answer (flaky (Builtin ''ConnectionError'' []) (RText (u ''1-0'')))
      (emit example_producer (u ''req-1'') (u ''s'') (u ''delete'') ?payload False None None (PInt 1)) 0 =
      (Inr (RText (u ''1-0'')), h0, 0)" "(XAdd (u ''s'') flds None, RText (u ''1-0'')) \<in> set h0"
    by (rule emit_example [OF raw])
  obtain x h s' where a: "answer (worker RNone) (handle_message example_config (u ''1-0'') raw) [] = (x, h, s')"
    by (metis prod_cases3)
  have m: "UserDeleteEvent \<in> set event_models" "map fst UserDeleteEvent = [u ''uuid'']" "0 < max_retries example_config"
    by (simp_all add: event_models_def UserDeleteEvent_def example_simps)
  from schema_event_arrives [OF m(1) _ sent(2,3,1) m(3) a] worker_gives_slot [OF a, of CancelledError] m(2)
  have "\<exists>q. h ! 2 = (ProcessMessage (u ''1-0'') (u ''delete'') [(u ''uuid'', VStr (u ''7''))], q)" by auto
  with sent(2) a show ?thesis by blast
qed

end
