(* ===== verification/Email.thy ===== *)
theory Email imports Values Settings begin

text \<open>
  \<open>email/client.py\<close> and \<open>email/dependencies.py\<close>: the tasks for the email service. The broker is a parameter:
  \<open>send_task name kwargs queue\<close> queues a task and returns its id, or raises.
\<close>

section \<open>The client\<close>

record email_config =
  TASK_SEND_HIGH :: pystr
  TASK_SEND_LOW :: pystr
  TASK_SEND_BULK :: pystr
  QUEUE_HIGH :: pystr
  QUEUE_LOW :: pystr

definition EmailServiceConfig :: email_config where
  "EmailServiceConfig = \<lparr>TASK_SEND_HIGH = u ''email.send_high'', TASK_SEND_LOW = u ''email.send_low'',
     TASK_SEND_BULK = u ''email.send_bulk'', QUEUE_HIGH = u ''high_priority'', QUEUE_LOW = u ''low_priority''\<rparr>"

record email_client =
  broker_url :: pystr
  email_settings :: email_config

definition new_email_client :: "pystr \<Rightarrow> email_client" where
  "new_email_client url = \<lparr>broker_url = url, email_settings = EmailServiceConfig\<rparr>"

type_synonym 'w broker = "pystr \<Rightarrow> (pystr, pyval) dict \<Rightarrow> pystr \<Rightarrow> ('w, exn, pystr) prog"

definition no_recipient :: exn where
  "no_recipient = Builtin ''ValueError'' (u ''At least one must be provided: user_id or recipient_email.'')"

definition no_recipients :: exn where
  "no_recipients = Builtin ''ValueError'' (u ''Must provide at least one list: user_ids or recipients.'')"

text \<open>The exception of the broker is logged and raised again.\<close>

definition send_email ::
  "email_client \<Rightarrow> 'w broker \<Rightarrow> (pyval \<Rightarrow> pystr) \<Rightarrow> pyval \<Rightarrow> pyval \<Rightarrow> pyval \<Rightarrow> pyval \<Rightarrow> pystr \<Rightarrow> ('w, exn, pystr) prog" where
  "send_email E send_task repr template_name context user_id recipient_email priority =
     (if \<not> truthy user_id \<and> \<not> truthy recipient_email then raise no_recipient
      else (let cfg = email_settings E;
                (task_name, queue) = (if priority = u ''high'' then (TASK_SEND_HIGH cfg, QUEUE_HIGH cfg)
                                      else (TASK_SEND_LOW cfg, QUEUE_LOW cfg))
            in send_task task_name
                 [(u ''template_name'', template_name), (u ''context'', context),
                  (u ''user_id'', if truthy user_id then VStr (py_str repr user_id) else VNone),
                  (u ''recipient_email'', recipient_email)] queue))"

definition send_bulk_emails ::
  "email_client \<Rightarrow> 'w broker \<Rightarrow> pyval \<Rightarrow> pyval \<Rightarrow> pyval \<Rightarrow> pyval \<Rightarrow> ('w, exn, pystr) prog" where
  "send_bulk_emails E send_task template_name context user_ids recipients =
     (if \<not> truthy user_ids \<and> \<not> truthy recipients then raise no_recipients
      else send_task (TASK_SEND_BULK (email_settings E))
        [(u ''template_name'', template_name), (u ''context'', context),
         (u ''user_ids'', if truthy user_ids then user_ids else VList []),
         (u ''recipients'', if truthy recipients then recipients else VList [])] (QUEUE_LOW (email_settings E)))"

text \<open>The async variants run the same code in a thread.\<close>

definition asend_email where "asend_email = send_email"

definition asend_bulk_emails where "asend_bulk_emails = send_bulk_emails"

text \<open>\<open>make_get_email_client\<close>: the first client is kept by \<open>lru_cache\<close>; an exception of \<open>redis_url\<close> is not.\<close>

definition get_email_client :: "settings \<Rightarrow> email_client option \<Rightarrow> (exn + email_client) \<times> email_client option" where
  "get_email_client st cache = (case cache of
     Some E \<Rightarrow> (Inr E, cache)
   | None \<Rightarrow> (case redis_url st of
         None \<Rightarrow> (Inl (Builtin ''UnicodeEncodeError'' (u ''surrogates not allowed'')), None)
       | Some url \<Rightarrow> (Inr (new_email_client url), Some (new_email_client url))))"

section \<open>Queues\<close>

text \<open>A broker that keeps the queues it was given, with the names of their tasks.\<close>

definition recording :: "pystr \<Rightarrow> (pystr, pyval) dict \<Rightarrow> pystr \<Rightarrow> ((pystr \<times> pystr) list, exn, pystr) prog" where
  "recording name kwargs queue = (\<lambda>sent. (Inr [], sent @ [(queue, name)]))"

text \<open>
  Only \<open>send_email\<close> with priority \<open>high\<close> puts a task into the queue of the urgent mail; a bulk mail never does, and
  every call queues one task or raises before it reaches the broker.
\<close>

definition queued :: "(pystr \<times> pystr) list \<Rightarrow> exn + pystr \<Rightarrow> (pystr \<times> pystr) list \<Rightarrow> bool \<Rightarrow> bool" where
  "queued sent x sent' urgent \<longleftrightarrow> (sent' = sent \<and> (\<exists>e. x = Inl e)) \<or>
     (\<exists>q n. sent' = sent @ [(q, n)] \<and> x = Inr [] \<and> (q = u ''high_priority'' \<longrightarrow> urgent \<and> n = u ''email.send_high''))"

lemma urgent_queue:
  "send_email (new_email_client url) recording repr t c i r p sent = (x, sent') \<Longrightarrow> queued sent x sent' (p = u ''high'')"
  by (auto simp: queued_def send_email_def recording_def new_email_client_def EmailServiceConfig_def raise_def Let_def
      split: if_splits)

lemma bulk_never_urgent:
  "send_bulk_emails (new_email_client url) recording t c is rs sent = (x, sent') \<Longrightarrow> queued sent x sent' False"
  by (auto simp: queued_def send_bulk_emails_def recording_def new_email_client_def EmailServiceConfig_def raise_def
      split: if_splits)

lemma email_client_kept:
  assumes "get_email_client st cache = (Inr E, cache')"
  shows "cache' = Some E" and "get_email_client st' cache' = (Inr E, cache')"
  using assms by (auto simp: get_email_client_def split: option.splits)

end
