(* ===== verification/Spec2Isabelle.thy ===== *)
theory Spec2Isabelle imports ConsumerSlots Crud UniService Lifecycle Observability EventContract Email begin

text \<open>
  A verification development of atsig-common, the library the ATSIG services share (src/atsig_common): the clients
  of Redis, Keycloak, the database, the storage and the other services, the authentication of the requests, the
  events between the services and the middleware of the apps. The package is Python; the model is a shallow
  embedding.

  The program and its model.

  Common vocabulary. Prelude: programs that thread a state and may raise (\<open>prog\<close>, with try/except and
  try/finally), triples and invariants for them, dictionaries in insertion order. Text and Encoding: strings as
  lists of code points with the methods the package uses, UTF-8, percent-encoding, \<open>int()\<close> and
  \<open>str()\<close>. Json and JsonCodec: Python values, \<open>json.dumps\<close>, \<open>json.loads\<close> and
  the round trip between them (locale \<open>json_codec\<close>). Numbers: integers and floats of the retry delays
  and of JSON. Values: reading, iterating and printing values of other services. Exceptions: exceptions.py and the
  HTTP answers of fastapi_utils.py; an exception is a value of \<open>exn\<close>, \<open>CancelledError\<close> the
  one that is no \<open>Exception\<close>.

  Events. Producer: redis/producer.py. Consumer, MessageLife, MessageOutcome: one message of redis/consumer.py, as a
  coroutine (Tasks: a tree of operations on Redis, the clock, the handler of the service and the shared semaphore),
  what holds of it against any server, and its outcome when Redis is up as the abstract function
  \<open>settle\<close> it refines. ConsumerLoop and LoopSupervision: the reclaim of pending messages and
  \<open>run\<close>; \<open>supervise\<close> is the abstract loop. ConsumerMachine and ConsumerSlots: the whole
  worker as a machine of interleaved coroutines. EventChannel: producer and consumer together (locale
  \<open>event_channel\<close>). EventSchemas, EventContract: events/schemas.py and enums.py as data, and their
  events over that channel.

  Requests. RequestContext: the request ids, the logging middleware and the log line of logger/. UserGroups,
  AuthContext, TokenVerifier, AuthDependencies: auth/, from the groups claim and the token with its cached keys to
  the dependencies of a protected route. ServiceToken: auth/service_token.py, one caller and many interleaved.
  BodyLimit: middleware/body_limit.py around an app given as a tree of receives and sends. Observability:
  observability.py and \<open>get_logging_config\<close>.

  Data. Pagination: pagination/. Crud: services/ over a heap of database objects, so that the aliasing of the
  objects of a session is there. Settings: config/settings.py, db/engine.py and db/mixins.py. Files: files/.

  Clients. RedisManager: redis/manager.py (locale \<open>json_store\<close>). UniCache: redis/uni_cache.py over it.
  ApiClient: api_client/. UniService: the cache over the HTTP client. Storage: storage/s3.py. Email: email/.
  Lifecycle: bootstrap.py (locale \<open>managed_clients\<close>), which starts and stops the clients of ApiClient,
  RedisManager and Storage.

  What is a parameter. The servers (Redis, Keycloak, the database, S3, the broker, other services) and the libraries
  that talk to them are arguments of the model, functions on a world \<open>'w\<close>; what the theorems need of
  them is a named hypothesis (\<open>redis_laws\<close>, \<open>api_laws\<close>, \<open>os_laws\<close> and the
  like) that a witness shows to hold for a concrete server. Where nothing is assumed the theorem holds for every
  behaviour of the server, failures and cancellations included.

  What the theorems show. Of the consumer: every acknowledgement is justified, a message is handled at most as often
  as it may be and ends in one of the known ways, the semaphore bounds the handlers and cannot deadlock, the error
  texts stay out of the dead letters, an emitted event is handed to the handler as it was sent, a message delivered too
  often is dead-lettered and no other, an emit is tried again until it succeeds or has no attempt left, the loop
  survives or gives up exactly as it should. Of the authentication: an accepted token was valid under keys of the
  realm, the keys that are there are not fetched more often than they may be, a protected route lets only users with
  the scope in, an optional token that is refused is as none, the roles and the scopes are the same paths, and an object
  goes only to whom the policy accepts. Of the data: the pages of a list are its rows, an update sets exactly its
  fields, the cache holds only what the service said, also over the HTTP client as long as its 2xx answers are JSON, the
  database URL is read back. Of the edges: an upload is cut and refused exactly when the application would take more
  than the limit and untouched otherwise, a storage key and a path segment stay
  where they belong, temporary files are removed, trouble between services is not told to users, paths do not reach
  Sentry, and no client of a service is left open.

  Bounds and fuel. The loops of Python that may run on take a bound on their turns: \<open>run\<close> and the
  reclaim scan of the consumer (theorems state how many turns are enough, or hold for every number), the JSON
  scanner (its fuel is the length of the text; \<open>json_fuel_enough\<close> shows that more changes nothing) and
  \<open>Core.stop\<close> (the length of the list of the started clients; \<open>stop_loop_run\<close> shows that
  it empties the list). Integers are unbounded, as in Python; a float is the rational it denotes, and scaling it
  overflows as it does in Python.

  Not modelled: the texts that are only logged; the calls that set the user of a Sentry scope; the validation of
  pydantic, the SQL of SQLAlchemy, signatures (jwcrypto), TLS and HTTP themselves, which are libraries; how a
  container or a foreign object prints (\<open>repr\<close> is an argument); \<open>__getattr__\<close> of the Redis
  manager and of the storage, which forward to their library; the clock of Athens (time.py), which reads the time
  zone database of the system; the abstract base classes and the re-exports of the packages, which do nothing.

  Where the model is narrower than Python: setting an attribute (\<open>set_attr\<close>) does not raise, as the attributes
  of a mapped class do not, while a read-only property would; \<open>int()\<close> of a text reads ASCII digits, not the other
  digits of Unicode; \<open>loads\<close> has no limit of recursion. The machine of the service token has the callers of
  \<open>aget_token\<close>; a direct \<open>get_token\<close>, which takes no lock, is a function of its own outside of it, and an
  empty token from Keycloak is left out there. \<open>protected_route\<close> composes the dependencies in the order FastAPI
  resolves them; it decodes with \<open>decode\<close>, to which \<open>adecode_token\<close> comes down after its refresh in a
  thread (\<open>adecode_token\<close> is a definition of its own, with what other requests do meanwhile as a parameter).
\<close>

end
